(* ===== verification/DS_Prelude.thy ===== *)
theory DS_Prelude
  imports Main "HOL-Library.Word" "HOL-Library.AList" "HOL-Library.Multiset"
begin

text \<open>
  Shared vocabulary of the development: the machine integers of the Rust sources with the
  saturating and checked operations the code calls, big-endian byte strings and their bits,
  the result type of fallible operations, and hash maps.

  \<^item> \<^bold>\<open>Integers.\<close> \<open>u8\<close>, \<open>u32\<close>, \<open>u64\<close>, \<open>u128\<close> and \<open>U256\<close> are words of that width; \<open>+\<close>, \<open>-\<close>
    and \<open>*\<close> wrap as they do in a release build. \<open>usize\<close> counts (lengths, indices) are \<open>nat\<close>.
  \<^item> \<^bold>\<open>Hash maps.\<close> A \<open>HashMap\<close> is an association list with distinct keys; its order stands for
    the unspecified iteration order, so a theorem about every well-formed association list is a
    theorem about every iteration order.
  \<^item> \<^bold>\<open>Results.\<close> \<open>Result<T, E>\<close> is \<open>'e + 'a\<close> with \<open>Inl\<close> the error.
\<close>

unbundle bit_operations_syntax

named_theorems word_nat \<open>natural-number readings of machine arithmetic\<close>
named_theorems hm_simps \<open>lookups and keys after hash map operations\<close>
named_theorems text_simps \<open>splitting and joining of text lines and columns\<close>

section \<open>Machine integers\<close>

type_synonym u8 = "8 word"
type_synonym u32 = "32 word"
type_synonym u64 = "64 word"
type_synonym u128 = "128 word"
type_synonym U256 = "256 word"
type_synonym bytes = "u8 list"
type_synonym swarm_address = "u8 list"
type_synonym ('e, 'a) result = "'e + 'a"

definition sat_add :: "'a::len word \<Rightarrow> 'a word \<Rightarrow> 'a word" where
  "sat_add a b = (if unat a + unat b < 2 ^ LENGTH('a) then a + b else - 1)"

definition sat_sub :: "'a::len word \<Rightarrow> 'a word \<Rightarrow> 'a word" where
  "sat_sub a b = (if b \<le> a then a - b else 0)"

definition sat_mul :: "'a::len word \<Rightarrow> 'a word \<Rightarrow> 'a word" where
  "sat_mul a b = (if unat a * unat b < 2 ^ LENGTH('a) then a * b else - 1)"

definition checked_add :: "'a::len word \<Rightarrow> 'a word \<Rightarrow> 'a word option" where
  "checked_add a b = (if unat a + unat b < 2 ^ LENGTH('a) then Some (a + b) else None)"

definition checked_mul :: "'a::len word \<Rightarrow> 'a word \<Rightarrow> 'a word option" where
  "checked_mul a b = (if unat a * unat b < 2 ^ LENGTH('a) then Some (a * b) else None)"

definition try_word :: "nat \<Rightarrow> 'a::len word option" where
  "try_word n = (if n < 2 ^ LENGTH('a) then Some (of_nat n) else None)"

definition leading_zeros :: "'a::len word \<Rightarrow> nat" where
  "leading_zeros w = length (takeWhile (\<lambda>i. \<not> bit w i) (rev [0..<LENGTH('a)]))"

lemma unat_minus_one_word: "unat (- 1 :: 'a::len word) = 2 ^ LENGTH('a) - 1"
  by (simp add: unsigned_minus_1_eq_mask mask_eq_exp_minus_1)

lemma unat_sat_add [word_nat]:
  "unat (sat_add a b :: 'a::len word) = min (unat a + unat b) (2 ^ LENGTH('a) - 1)"
  by (auto simp: sat_add_def unat_minus_one_word unat_word_ariths min_def)

lemma unat_sat_sub [word_nat]: "unat (sat_sub a b :: 'a::len word) = unat a - unat b"
  by (auto simp: sat_sub_def unat_sub word_le_nat_alt)

lemma unat_sat_mul [word_nat]:
  "unat (sat_mul a b :: 'a::len word) = min (unat a * unat b) (2 ^ LENGTH('a) - 1)"
proof (cases "unat a * unat b < 2 ^ LENGTH('a)")
  case True
  then show ?thesis by (simp add: sat_mul_def unat_word_ariths)
next
  case False
  then have "2 ^ LENGTH('a) - 1 \<le> unat a * unat b" by linarith
  with False show ?thesis
    by (simp add: sat_mul_def unat_minus_one_word min_absorb2)
qed

lemma unat_add_no_overflow:
  "unat a + unat b < 2 ^ LENGTH('a) \<Longrightarrow> unat (a + b :: 'a::len word) = unat a + unat b"
  by (simp add: unat_word_ariths)

lemma checked_add_SomeD:
  "checked_add a b = Some c \<Longrightarrow> unat (c :: 'a::len word) = unat a + unat b"
  by (auto simp: checked_add_def unat_word_ariths split: if_splits)

lemma checked_mul_SomeD:
  "checked_mul a b = Some c \<Longrightarrow> unat (c :: 'a::len word) = unat a * unat b"
  by (auto simp: checked_mul_def unat_word_ariths split: if_splits)

lemma checked_add_None:
  "checked_add a b = None \<longleftrightarrow> 2 ^ LENGTH('a) \<le> unat (a :: 'a::len word) + unat b"
  by (auto simp: checked_add_def)

lemma try_word_SomeD: "try_word n = Some (w :: 'a::len word) \<Longrightarrow> unat w = n"
  by (auto simp: try_word_def unat_of_nat split: if_splits)

lemma try_word_unat [simp]: "try_word (unat w) = Some (w :: 'a::len word)"
  by (simp add: try_word_def)

lemma unat_drop_bit [word_nat]:
  "unat (drop_bit n (w :: 'a::len word)) = unat w div 2 ^ n"
  unfolding unsigned_drop_bit_eq by (simp add: take_bit_nat_eq_self drop_bit_eq_div)

lemma u64_less: "unat (w :: u64) < 18446744073709551616"
proof -
  have "unat w < 2 ^ LENGTH(64)" by (rule unsigned_less)
  then show ?thesis by simp
qed

section \<open>Big-endian byte strings\<close>

fun bits_nat :: "bool list \<Rightarrow> nat" where
  "bits_nat [] = 0"
| "bits_nat (b # bs) = of_bool b * 2 ^ length bs + bits_nat bs"

definition word_bits :: "'a::len word \<Rightarrow> bool list" where
  "word_bits w = map (bit w) (rev [0..<LENGTH('a)])"

definition addr_bits :: "bytes \<Rightarrow> bool list" where
  "addr_bits bs = concat (map word_bits bs)"

fun be_nat :: "bytes \<Rightarrow> nat" where
  "be_nat [] = 0"
| "be_nat (b # bs) = unat b * 256 ^ length bs + be_nat bs"

definition from_be_bytes :: "bytes \<Rightarrow> 'a::len word" where
  "from_be_bytes bs = of_nat (be_nat bs)"

lemma length_word_bits [simp]: "length (word_bits (w :: 'a::len word)) = LENGTH('a)"
  by (simp add: word_bits_def)

lemma length_addr_bits [simp]: "length (addr_bits bs) = 8 * length bs"
  by (induction bs) (auto simp: addr_bits_def)

lemma addr_bits_Cons [simp]: "addr_bits (b # bs) = word_bits b @ addr_bits bs"
  by (simp add: addr_bits_def)

lemma addr_bits_Nil [simp]: "addr_bits [] = []"
  by (simp add: addr_bits_def)

lemma addr_bits_take: "addr_bits (take n bs) = take (8 * n) (addr_bits bs)"
proof (induction bs arbitrary: n)
  case Nil
  then show ?case by simp
next
  case (Cons b bs)
  then show ?case by (cases n) auto
qed

lemma word_bits_inject: "word_bits v = word_bits w \<longleftrightarrow> v = (w :: 'a::len word)"
proof
  assume "word_bits v = word_bits w"
  then have "bit v n = bit w n" if "n < LENGTH('a)" for n
    using that by (simp add: word_bits_def)
  then show "v = w" by (auto intro: bit_word_eqI)
qed simp

lemma bits_nat_bound: "bits_nat bs < 2 ^ length bs"
  by (induction bs) auto

lemma bits_nat_append: "bits_nat (xs @ ys) = bits_nat xs * 2 ^ length ys + bits_nat ys"
  by (induction xs) (auto simp: power_add algebra_simps)

lemma bits_nat_div: "k \<le> length bs \<Longrightarrow> bits_nat bs div 2 ^ k = bits_nat (take (length bs - k) bs)"
proof -
  assume k: "k \<le> length bs"
  let ?xs = "take (length bs - k) bs" and ?ys = "drop (length bs - k) bs"
  have "bits_nat bs = bits_nat ?xs * 2 ^ k + bits_nat ?ys"
    using bits_nat_append [of ?xs ?ys] k by simp
  moreover have "bits_nat ?ys < 2 ^ k"
    using bits_nat_bound [of ?ys] k by simp
  ultimately show ?thesis by simp
qed

lemma bits_nat_inject: "length xs = length ys \<Longrightarrow> bits_nat xs = bits_nat ys \<longleftrightarrow> xs = ys"
proof (induction xs ys rule: list_induct2)
  case (Cons x xs y ys)
  then have "bits_nat xs < 2 ^ length ys" "bits_nat ys < 2 ^ length ys"
    using bits_nat_bound [of xs] bits_nat_bound [of ys] by simp_all
  with Cons show ?case by (cases x; cases y) auto
qed simp

lemma bits_nat_word_bits: "bits_nat (word_bits w) = unat (w :: 'a::len word)"
proof -
  have upto: "bits_nat (map (bit w) (rev [0..<n])) = take_bit n (unat w)" for n
    by (induction n) (simp_all add: take_bit_Suc_from_most of_bool_def bit_unsigned_iff
      possible_bit_def bit_imp_le_length mult.commute)
  show ?thesis
    by (simp add: word_bits_def upto take_bit_nat_eq_self)
qed

lemma be_nat_bits: "be_nat bs = bits_nat (addr_bits bs)"
  by (induction bs) (simp_all add: bits_nat_append bits_nat_word_bits power_mult)

lemma be_nat_bound: "be_nat bs < 256 ^ length bs"
  using bits_nat_bound [of "addr_bits bs"] by (simp add: be_nat_bits power_mult)

lemma be_nat_append: "be_nat (xs @ ys) = be_nat xs * 256 ^ length ys + be_nat ys"
  by (induction xs) (auto simp: power_add algebra_simps)

lemma unat_from_be_bytes:
  "8 * length bs \<le> LENGTH('a) \<Longrightarrow> unat (from_be_bytes bs :: 'a::len word) = be_nat bs"
proof -
  assume le: "8 * length bs \<le> LENGTH('a)"
  have "be_nat bs < 2 ^ (8 * length bs)"
    using be_nat_bound [of bs] by (simp add: power_mult)
  also have "\<dots> \<le> 2 ^ LENGTH('a)"
    using le by (simp add: power_increasing)
  finally show ?thesis
    by (simp add: from_be_bytes_def unat_of_nat)
qed

fun to_be_bytes :: "nat \<Rightarrow> nat \<Rightarrow> bytes" where
  "to_be_bytes 0 v = []"
| "to_be_bytes (Suc n) v = of_nat (v div 256 ^ n) # to_be_bytes n v"

lemma length_to_be_bytes [simp]: "length (to_be_bytes n v) = n"
  by (induction n) auto

lemma be_nat_to_be_bytes: "be_nat (to_be_bytes n v) = v mod 256 ^ n"
proof (induction n)
  case (Suc n)
  have "unat (of_nat (v div 256 ^ n) :: u8) = v div 256 ^ n mod 256"
    by (simp add: unat_of_nat)
  with Suc mod_mult2_eq [of v "256 ^ n" 256] show ?case
    by (simp add: mult.commute)
qed simp

lemma be_nat_drop_zeros: "be_nat (dropWhile (\<lambda>b. b = 0) bs) = be_nat bs"
  by (induction bs) auto

text \<open>\<open>Iterator::find_map\<close>: the first defined result.\<close>

fun find_map :: "('a \<Rightarrow> 'b option) \<Rightarrow> 'a list \<Rightarrow> 'b option" where
  "find_map f [] = None"
| "find_map f (x # xs) = (case f x of Some y \<Rightarrow> Some y | None \<Rightarrow> find_map f xs)"

lemma find_map_SomeD: "find_map f xs = Some y \<Longrightarrow> \<exists>x \<in> set xs. f x = Some y"
  by (induction xs) (auto split: option.splits)

section \<open>Hash maps as association lists\<close>

type_synonym ('k, 'v) hash_map = "('k \<times> 'v) list"

definition hm_wf :: "('k, 'v) hash_map \<Rightarrow> bool" where
  "hm_wf m \<longleftrightarrow> distinct (map fst m)"

abbreviation hm_get :: "('k, 'v) hash_map \<Rightarrow> 'k \<Rightarrow> 'v option" where
  "hm_get m k \<equiv> map_of m k"

definition hm_insert :: "'k \<Rightarrow> 'v \<Rightarrow> ('k, 'v) hash_map \<Rightarrow> ('k, 'v) hash_map" where
  "hm_insert k v m = AList.update k v m"

definition hm_remove :: "'k \<Rightarrow> ('k, 'v) hash_map \<Rightarrow> ('k, 'v) hash_map" where
  "hm_remove k m = AList.delete k m"

definition hm_get_or :: "('k, 'v) hash_map \<Rightarrow> 'v \<Rightarrow> 'k \<Rightarrow> 'v" where
  "hm_get_or m d k = (case hm_get m k of Some v \<Rightarrow> v | None \<Rightarrow> d)"

abbreviation hm_values :: "('k, 'v) hash_map \<Rightarrow> 'v list" where
  "hm_values m \<equiv> map snd m"

abbreviation hm_keys :: "('k, 'v) hash_map \<Rightarrow> 'k set" where
  "hm_keys m \<equiv> fst ` set m"

lemma hm_get_insert [hm_simps]:
  "hm_get (hm_insert k v m) k' = (if k' = k then Some v else hm_get m k')"
  by (simp add: hm_insert_def update_conv)

lemma hm_get_remove [hm_simps]:
  "hm_get (hm_remove k m) k' = (if k' = k then None else hm_get m k')"
  by (simp add: hm_remove_def delete_conv)

lemma hm_wf_Nil [simp]: "hm_wf []"
  by (simp add: hm_wf_def)

lemma hm_wf_insert [simp]: "hm_wf m \<Longrightarrow> hm_wf (hm_insert k v m)"
  by (simp add: hm_wf_def hm_insert_def distinct_update)

lemma hm_wf_remove [simp]: "hm_wf m \<Longrightarrow> hm_wf (hm_remove k m)"
  by (simp add: hm_wf_def hm_remove_def distinct_delete)

lemma hm_keys_insert [hm_simps]: "hm_keys (hm_insert k v m) = insert k (hm_keys m)"
  by (simp add: hm_insert_def dom_update)

lemma hm_keys_remove [hm_simps]: "hm_keys (hm_remove k m) = hm_keys m - {k}"
  by (auto simp: hm_remove_def AList.delete_eq)

lemma hm_get_None: "hm_get m k = None \<longleftrightarrow> k \<notin> hm_keys m"
  by (simp add: map_of_eq_None_iff)

lemma hm_get_Some_iff: "hm_wf m \<Longrightarrow> hm_get m k = Some v \<longleftrightarrow> (k, v) \<in> set m"
  by (simp add: hm_wf_def map_of_eq_Some_iff)

lemma hm_get_or_insert [hm_simps]:
  "hm_get_or (hm_insert k v m) d k' = (if k' = k then v else hm_get_or m d k')"
  by (simp add: hm_get_or_def hm_get_insert)

lemma hm_length: "hm_wf m \<Longrightarrow> length m = card (hm_keys m)"
  by (metis hm_wf_def distinct_card length_map set_map)

lemma hm_length_insert:
  "hm_wf m \<Longrightarrow> length (hm_insert k v m) = (if k \<in> hm_keys m then length m else Suc (length m))"
  by (simp add: hm_length hm_keys_insert card_insert_if)

definition hm_of_list :: "('k \<times> 'v) list \<Rightarrow> ('k, 'v) hash_map" where
  "hm_of_list es = foldl (\<lambda>m (k, v). hm_insert k v m) [] es"

lemma hm_get_foldl_insert:
  "hm_get (foldl (\<lambda>m (k, v). hm_insert k v m) out es) k
     = (case hm_get (rev es) k of Some v \<Rightarrow> Some v | None \<Rightarrow> hm_get out k)"
  by (induction es arbitrary: out)
    (auto simp: hm_get_insert map_add_def split: option.splits)

lemma hm_get_of_list [hm_simps]: "hm_get (hm_of_list es) k = hm_get (rev es) k"
  by (simp add: hm_of_list_def hm_get_foldl_insert split: option.split)

lemma hm_get_rev: "hm_wf m \<Longrightarrow> hm_get (rev m) k = hm_get m k"
  using map_of_inject_set [of "rev m" m] by (simp add: hm_wf_def rev_map [symmetric])

lemma hm_get_of_list_wf: "hm_wf m \<Longrightarrow> hm_get (hm_of_list m) k = hm_get m k"
  by (simp add: hm_get_of_list hm_get_rev)

lemma hm_wf_foldl_insert: "hm_wf out \<Longrightarrow> hm_wf (foldl (\<lambda>m (k, v). hm_insert k v m) out es)"
  by (induction es arbitrary: out) auto

lemma hm_wf_of_list [simp]: "hm_wf (hm_of_list es)"
  by (simp add: hm_of_list_def hm_wf_foldl_insert)

text \<open>\<open>entry(k).or_default().push(x)\<close>, and grouping a list by it.\<close>

definition hm_push :: "'k \<Rightarrow> 'v \<Rightarrow> ('k, 'v list) hash_map \<Rightarrow> ('k, 'v list) hash_map" where
  "hm_push k x m = hm_insert k (hm_get_or m [] k @ [x]) m"

lemma hm_get_or_push [hm_simps]:
  "hm_get_or (hm_push k x m) [] k' = (if k' = k then hm_get_or m [] k @ [x] else hm_get_or m [] k')"
  by (simp add: hm_push_def hm_get_or_insert)

lemma hm_wf_push [simp]: "hm_wf m \<Longrightarrow> hm_wf (hm_push k x m)"
  by (simp add: hm_push_def)

lemma hm_keys_push [hm_simps]: "hm_keys (hm_push k x m) = insert k (hm_keys m)"
  by (simp add: hm_push_def hm_keys_insert)

lemma mset_values_insert:
  "hm_wf m \<Longrightarrow> mset (concat (hm_values (hm_insert k v m))) + mset (hm_get_or m [] k)
     = mset (concat (hm_values m)) + mset v"
  by (induction m) (auto simp: hm_insert_def hm_get_or_def hm_wf_def map_of_eq_None_iff split: option.splits)

lemma mset_values_push:
  "hm_wf m \<Longrightarrow> mset (concat (hm_values (hm_push k x m))) = add_mset x (mset (concat (hm_values m)))"
  using mset_values_insert [of m k "hm_get_or m [] k @ [x]"] by (simp add: hm_push_def)

section \<open>Traces and data refinement\<close>

text \<open>
  A step function run over a list of operations, with the list of its replies. A representation
  refines an abstract machine when every step gives the abstract reply and commutes with the
  abstraction; \<open>ok\<close> is what the remaining operations need of the state.
\<close>

fun run_trace :: "('op \<Rightarrow> 's \<Rightarrow> 'r \<times> 's) \<Rightarrow> 'op list \<Rightarrow> 's \<Rightarrow> 'r list \<times> 's" where
  "run_trace step [] s = ([], s)"
| "run_trace step (x # xs) s =
     (case step x s of (r, s1) \<Rightarrow> case run_trace step xs s1 of (rs, s2) \<Rightarrow> (r # rs, s2))"

locale refinement =
  fixes abs :: "'s \<Rightarrow> 'a"
    and ok :: "'op list \<Rightarrow> 's \<Rightarrow> bool"
    and step :: "'op \<Rightarrow> 's \<Rightarrow> 'r \<times> 's"
    and spec :: "'op \<Rightarrow> 'a \<Rightarrow> 'r \<times> 'a"
  assumes step_spec: "ok (x # xs) s \<Longrightarrow> spec x (abs s) = (fst (step x s), abs (snd (step x s)))"
    and step_ok: "ok (x # xs) s \<Longrightarrow> ok xs (snd (step x s))"
begin

lemma trace_spec:
  "ok xs s \<Longrightarrow> run_trace spec xs (abs s) = (fst (run_trace step xs s), abs (snd (run_trace step xs s)))"
  by (induction xs arbitrary: s) (simp_all add: step_spec step_ok split: prod.split)

lemma trace_ok: "ok (xs @ ys) s \<Longrightarrow> ok ys (snd (run_trace step xs s))"
proof (induction xs arbitrary: s)
  case (Cons x xs)
  then have "ok ys (snd (run_trace step xs (snd (step x s))))" using step_ok [of x "xs @ ys" s] by simp
  then show ?case by (simp add: case_prod_unfold)
qed simp

end

end
