(* ===== verification/Mirror.thy ===== *)
theory Mirror
  imports DS_Prelude
begin

text \<open>
  The accounting mirror of one connection (\<^verbatim>\<open>Mirror\<close> in
  \<^verbatim>\<open>rust/ds-net/src/growth.rs\<close>): unsettled debt and reserved prices of chunk requests in
  flight, both \<open>u64\<close> behind one mutex. Every method takes the lock for its whole body, so each is
  one atomic step. The contract its clients rely on is the locale \<open>exposure_account\<close>, interpreted
  on the mirror's own operations; interleavings of the concurrent fetch tasks and the settlement
  task are the step relation \<open>mirror_step\<close>.
\<close>

section \<open>State and operations\<close>

record mirror =
  mi_balance :: u64
  mi_reserved :: u64

definition mirror_default :: mirror where
  "mirror_default = \<lparr>mi_balance = 0, mi_reserved = 0\<rparr>"

definition snapshot :: "mirror \<Rightarrow> u64 \<times> u64" where
  "snapshot s = (mi_balance s, mi_reserved s)"

definition try_reserve :: "u64 \<Rightarrow> u64 \<Rightarrow> mirror \<Rightarrow> bool \<times> mirror" where
  "try_reserve price limit s =
     (if limit < sat_add (sat_add (mi_balance s) (mi_reserved s)) price then (False, s)
      else (True, s\<lparr>mi_reserved := mi_reserved s + price\<rparr>))"

definition apply_price :: "u64 \<Rightarrow> mirror \<Rightarrow> mirror" where
  "apply_price price s =
     (let s1 = s\<lparr>mi_reserved := sat_sub (mi_reserved s) price\<rparr>
      in s1\<lparr>mi_balance := sat_add (mi_balance s1) price\<rparr>)"

definition release :: "u64 \<Rightarrow> mirror \<Rightarrow> mirror" where
  "release price s = s\<lparr>mi_reserved := sat_sub (mi_reserved s) price\<rparr>"

definition credit :: "u64 \<Rightarrow> mirror \<Rightarrow> mirror" where
  "credit amount s = s\<lparr>mi_balance := sat_sub (mi_balance s) amount\<rparr>"

section \<open>Contract\<close>

text \<open>
  An account of settled and outstanding exposure: a reservation is granted only below the limit,
  a commit turns a reservation into debt, a release drops it, a settlement lowers the debt.
  \<open>ok L s B\<close> is the invariant of an account whose outstanding reservations are the multiset \<open>B\<close>.
\<close>

locale exposure_account =
  fixes debt held :: "'s \<Rightarrow> nat"
    and reserve :: "u64 \<Rightarrow> u64 \<Rightarrow> 's \<Rightarrow> bool \<times> 's"
    and commit drop_held settle :: "u64 \<Rightarrow> 's \<Rightarrow> 's"
  assumes reserve_granted: "reserve p L s = (True, s') \<Longrightarrow> L \<noteq> - 1 \<Longrightarrow>
      debt s' = debt s \<and> held s' = held s + unat p \<and> debt s' + held s' \<le> unat L"
    and reserve_refused: "reserve p L s = (False, s') \<Longrightarrow> s' = s"
    and commit_moves: "unat p \<le> held s \<Longrightarrow> debt s + unat p < 2 ^ 64 \<Longrightarrow>
      debt (commit p s) = debt s + unat p \<and> held (commit p s) = held s - unat p"
    and drop_held_lowers: "debt (drop_held p s) = debt s \<and> held (drop_held p s) = held s - unat p"
    and settle_lowers: "debt (settle a s) = debt s - unat a \<and> held (settle a s) = held s"
begin

definition ok :: "nat \<Rightarrow> 's \<Rightarrow> u64 multiset \<Rightarrow> bool" where
  "ok L s B \<longleftrightarrow> held s = sum_mset (image_mset unat B) \<and> debt s + held s \<le> L \<and> L < 2 ^ 64"

lemma member_le_held: "ok L s B \<Longrightarrow> p \<in># B \<Longrightarrow> unat p \<le> held s"
  by (auto simp: ok_def dest!: multi_member_split)

lemma ok_mono: "ok L s B \<Longrightarrow> L \<le> L' \<Longrightarrow> L' < 2 ^ 64 \<Longrightarrow> ok L' s B"
  by (auto simp: ok_def)

lemma ok_reserve:
  assumes "ok L s B" "reserve p l s = (True, s')" "unat l \<le> L" "L < 2 ^ 64 - 1"
  shows "ok L s' (add_mset p B)"
proof -
  have "l \<noteq> - 1"
    using assms(3,4) by (auto simp: unat_minus_one_word)
  then show ?thesis
    using reserve_granted [OF assms(2)] assms(1,3) by (auto simp: ok_def)
qed

lemma ok_commit:
  assumes "ok L s B" "p \<in># B"
  shows "ok L (commit p s) (B - {#p#})"
proof -
  have le: "unat p \<le> held s"
    by (rule member_le_held [OF assms])
  then have "debt s + unat p < 2 ^ 64"
    using assms(1) by (simp add: ok_def)
  from commit_moves [OF le this] assms le show ?thesis
    by (auto simp: ok_def dest!: multi_member_split)
qed

lemma ok_drop_held: "ok L s B \<Longrightarrow> p \<in># B \<Longrightarrow> ok L (drop_held p s) (B - {#p#})"
  using drop_held_lowers [of p s] by (auto simp: ok_def dest!: multi_member_split)

lemma ok_settle: "ok L s B \<Longrightarrow> ok L (settle a s) B"
  using settle_lowers [of a s] by (auto simp: ok_def)

lemma ok_commit_sum:
  assumes "ok L s B" "p \<in># B"
  shows "debt (commit p s) + held (commit p s) = debt s + held s"
proof -
  have le: "unat p \<le> held s" by (rule member_le_held [OF assms])
  then have "debt s + unat p < 2 ^ 64" using assms(1) by (simp add: ok_def)
  from commit_moves [OF le this] le show ?thesis by simp
qed

end

section \<open>The mirror meets the contract\<close>

lemma try_reserve_granted:
  assumes "try_reserve p L s = (True, s')" "L \<noteq> - 1"
  shows "unat (mi_balance s) + unat (mi_reserved s) + unat p \<le> unat L \<and>
    mi_balance s' = mi_balance s \<and> unat (mi_reserved s') = unat (mi_reserved s) + unat p"
proof -
  have "unat L \<noteq> 2 ^ 64 - 1"
    using assms(2) word_unat_eq_iff [of L "- 1"] by (simp add: unat_minus_one_word)
  moreover have "unat (sat_add (sat_add (mi_balance s) (mi_reserved s)) p) \<le> unat L"
    and s': "s' = s\<lparr>mi_reserved := mi_reserved s + p\<rparr>"
    using assms(1) by (auto simp: try_reserve_def word_less_nat_alt split: if_splits)
  ultimately have sum: "unat (mi_balance s) + unat (mi_reserved s) + unat p \<le> unat L"
    using u64_less [of L] by (auto simp: unat_sat_add min_def split: if_splits)
  then have "unat (mi_reserved s + p) = unat (mi_reserved s) + unat p"
    using u64_less [of L] by (intro unat_add_no_overflow) simp
  with sum s' show ?thesis by simp
qed

interpretation account: exposure_account
  "\<lambda>s. unat (mi_balance s)" "\<lambda>s. unat (mi_reserved s)" try_reserve apply_price release credit
proof
  show "unat (mi_balance s') = unat (mi_balance s)
      \<and> unat (mi_reserved s') = unat (mi_reserved s) + unat p
      \<and> unat (mi_balance s') + unat (mi_reserved s') \<le> unat L"
    if "try_reserve p L s = (True, s')" "L \<noteq> - 1" for p L s s'
    using try_reserve_granted [OF that] by simp
  show "s' = s" if "try_reserve p L s = (False, s')" for p L s s'
    using that by (simp add: try_reserve_def split: if_splits)
  show "unat (mi_balance (apply_price p s)) = unat (mi_balance s) + unat p
      \<and> unat (mi_reserved (apply_price p s)) = unat (mi_reserved s) - unat p"
    if "unat p \<le> unat (mi_reserved s)" "unat (mi_balance s) + unat p < 2 ^ 64" for p s
    using that by (simp add: apply_price_def Let_def word_nat)
  show "unat (mi_balance (release p s)) = unat (mi_balance s)
      \<and> unat (mi_reserved (release p s)) = unat (mi_reserved s) - unat p" for p s
    by (simp add: release_def word_nat)
  show "unat (mi_balance (credit a s)) = unat (mi_balance s) - unat a
      \<and> unat (mi_reserved (credit a s)) = unat (mi_reserved s)" for a s
    by (simp add: credit_def word_nat)
qed

section \<open>Interleavings\<close>

text \<open>
  \<open>B\<close> is the multiset of prices reserved by fetch tasks that have not finished; \<open>L\<close> bounds every
  limit a task passes to \<open>try_reserve\<close>.
\<close>

inductive mirror_step :: "nat \<Rightarrow> mirror \<times> u64 multiset \<Rightarrow> mirror \<times> u64 multiset \<Rightarrow> bool" for L where
  reserve: "try_reserve p l s = (True, s') \<Longrightarrow> unat l \<le> L \<Longrightarrow> mirror_step L (s, B) (s', add_mset p B)"
| refuse: "try_reserve p l s = (False, s') \<Longrightarrow> mirror_step L (s, B) (s', B)"
| served: "p \<in># B \<Longrightarrow> mirror_step L (s, B) (apply_price p s, B - {#p#})"
| failed: "p \<in># B \<Longrightarrow> mirror_step L (s, B) (release p s, B - {#p#})"
| settled: "mirror_step L (s, B) (credit a s, B)"

inductive_cases mirror_stepE: "mirror_step L (s, B) (s', B')"

lemma mirror_step_ok:
  assumes "mirror_step L (s, B) (s', B')" "account.ok L s B" "L < 2 ^ 64 - 1"
  shows "account.ok L s' B'"
  using assms
  by (auto elim!: mirror_stepE dest: account.reserve_refused
      intro: account.ok_reserve account.ok_commit account.ok_drop_held account.ok_settle)

lemma mirror_reachable_ok:
  assumes "(mirror_step L)\<^sup>*\<^sup>* (mirror_default, {#}) (s, B)" "L < 2 ^ 64 - 1"
  shows "account.ok L s B"
  using assms(1)
proof (induction "(s, B)" arbitrary: s B rule: rtranclp_induct)
  case base
  then show ?case using assms(2) by (simp add: account.ok_def mirror_default_def)
next
  case (step y)
  then show ?case using mirror_step_ok assms(2) by (cases y) blast
qed

section \<open>Properties\<close>

text \<open>
  C12 Under every interleaving of the fetch tasks' reservations, completions and failures with the
  settlement task's credits, the reserved amount is exactly the sum of the prices in flight and
  debt plus reservations never exceed the largest limit any task was admitted under, with no
  wrap-around of the 64-bit counters.
\<close>
theorem mirror_exposure_bounded:
  assumes "(mirror_step L)\<^sup>*\<^sup>* (mirror_default, {#}) (s, B)" "L < 2 ^ 64 - 1"
  shows "unat (mi_reserved s) = sum_mset (image_mset unat B)
    \<and> unat (mi_balance s) + unat (mi_reserved s) \<le> L"
  using mirror_reachable_ok [OF assms] by (simp add: account.ok_def)

theorem mirror_exposure_bounded_witness:
  "\<exists>s. (mirror_step 100)\<^sup>*\<^sup>* (mirror_default, {#}) (s, {#60#}) \<and> unat (mi_reserved s) = 60"
proof -
  have "mirror_step 100 (mirror_default, {#}) (\<lparr>mi_balance = 0, mi_reserved = 60\<rparr>, {#60#})"
    by (rule mirror_step.reserve [of _ 100]) (simp_all add: try_reserve_def mirror_default_def sat_add_def)
  then have r: "(mirror_step 100)\<^sup>*\<^sup>* (mirror_default, {#}) (\<lparr>mi_balance = 0, mi_reserved = 60\<rparr>, {#60#})" by blast
  show ?thesis using mirror_exposure_bounded [OF r] r by auto
qed

end
