(* ===== verification/Rust_Text.thy ===== *)
theory Rust_Text
  imports DS_Prelude
begin

text \<open>
  The parts of Rust's standard string library the sources call, on byte strings (\<open>string\<close> is a
  list of bytes, as \<open>&str\<close> is UTF-8 bytes): \<open>split\<close> on an ASCII character, \<open>lines\<close>,
  \<open>strip_prefix\<close>, decimal and hexadecimal digits, \<open>to_string\<close> and \<open>parse\<close> of unsigned integers,
  ASCII \<open>trim\<close>, \<open>starts_with\<close> and \<open>contains\<close>. Two locales state the contracts the persistence
  code relies on: a hexadecimal byte codec (the \<open>hex\<close> crate, which is not part of the sources)
  and a line-oriented row format.
\<close>

definition NL :: char where "NL = CHR 0x0A"
definition CR :: char where "CR = CHR 0x0D"

fun split_on :: "char \<Rightarrow> string \<Rightarrow> string list" where
  "split_on c [] = [[]]"
| "split_on c (x # xs) =
     (if x = c then [] # split_on c xs
      else case split_on c xs of [] \<Rightarrow> [[x]] | p # ps \<Rightarrow> (x # p) # ps)"

definition strip_cr :: "string \<Rightarrow> string" where
  "strip_cr l = (if l \<noteq> [] \<and> last l = CR then butlast l else l)"

definition str_lines :: "string \<Rightarrow> string list" where
  "str_lines s =
     (let ps = split_on NL s
      in map strip_cr (butlast ps) @ (if last ps = [] then [] else [last ps]))"

fun strip_prefix :: "string \<Rightarrow> string \<Rightarrow> string option" where
  "strip_prefix [] s = Some s"
| "strip_prefix (p # ps) (x # xs) = (if p = x then strip_prefix ps xs else None)"
| "strip_prefix (p # ps) [] = None"

definition starts_with :: "string \<Rightarrow> string \<Rightarrow> bool" where
  "starts_with p s \<longleftrightarrow> strip_prefix p s \<noteq> None"

fun str_contains :: "string \<Rightarrow> string \<Rightarrow> bool" where
  "str_contains p [] \<longleftrightarrow> p = []"
| "str_contains p (x # xs) \<longleftrightarrow> starts_with p (x # xs) \<or> str_contains p xs"

definition ascii_space :: "char \<Rightarrow> bool" where
  "ascii_space c \<longleftrightarrow> of_char c \<in> {9, 10, 11, 12, 13, 32 :: nat}"

definition str_trim :: "string \<Rightarrow> string" where
  "str_trim s = rev (dropWhile ascii_space (rev (dropWhile ascii_space s)))"

section \<open>Digits and numbers\<close>

definition digit_char :: "nat \<Rightarrow> char" where
  "digit_char d = (if d < 10 then char_of (48 + d) else char_of (87 + d))"

definition to_digit :: "nat \<Rightarrow> char \<Rightarrow> nat option" where
  "to_digit radix c =
     (let n = of_char c;
          d = (if 48 \<le> n \<and> n \<le> 57 then Some (n - 48)
               else if 97 \<le> n \<and> n \<le> 122 then Some (n - 87)
               else if 65 \<le> n \<and> n \<le> 90 then Some (n - 55)
               else None)
      in case d of Some v \<Rightarrow> if v < radix then Some v else None | None \<Rightarrow> None)"

fun show_nat :: "nat \<Rightarrow> string" where
  "show_nat n = (if n < 10 then [digit_char n] else show_nat (n div 10) @ [digit_char (n mod 10)])"

declare show_nat.simps [simp del]

fun parse_digits :: "nat \<Rightarrow> string \<Rightarrow> nat option" where
  "parse_digits acc [] = Some acc"
| "parse_digits acc (c # cs) =
     (case to_digit 10 c of None \<Rightarrow> None | Some d \<Rightarrow> parse_digits (acc * 10 + d) cs)"

definition parse_nat :: "string \<Rightarrow> nat option" where
  "parse_nat s =
     (case s of
        [] \<Rightarrow> None
      | c # cs \<Rightarrow>
          if c = CHR ''+'' then (if cs = [] then None else parse_digits 0 cs)
          else parse_digits 0 s)"

definition show_uint :: "'a::len word \<Rightarrow> string" where
  "show_uint w = show_nat (unat w)"

definition parse_uint :: "string \<Rightarrow> 'a::len word option" where
  "parse_uint s = Option.bind (parse_nat s) try_word"

definition decimal :: "string \<Rightarrow> bool" where
  "decimal s \<longleftrightarrow> s \<noteq> [] \<and> (\<forall>c \<in> set s. 48 \<le> (of_char c :: nat) \<and> (of_char c :: nat) \<le> 57)"

lemma digit_char_code: "d < 10 \<Longrightarrow> of_char (digit_char d) = 48 + d"
  by (simp add: digit_char_def)

lemma digit_char_hex_code:
  "d < 16 \<Longrightarrow> of_char (digit_char d) = (if d < 10 then 48 + d else 87 + d)"
  by (simp add: digit_char_def)

lemma to_digit_digit_char: "d < radix \<Longrightarrow> radix \<le> 16 \<Longrightarrow> to_digit radix (digit_char d) = Some d"
  by (simp add: to_digit_def digit_char_hex_code)

lemma decimal_show_nat: "decimal (show_nat n)"
proof (induction n rule: show_nat.induct)
  case (1 n)
  then show ?case
    by (subst show_nat.simps) (auto simp: decimal_def digit_char_code)
qed

lemma parse_digits_append:
  "parse_digits acc (xs @ ys) = Option.bind (parse_digits acc xs) (\<lambda>a. parse_digits a ys)"
  by (induction xs arbitrary: acc) (auto split: option.splits)

lemma parse_digits_show_nat: "parse_digits 0 (show_nat n) = Some n"
proof (induction n rule: show_nat.induct)
  case (1 n)
  then show ?case
    by (subst show_nat.simps) (auto simp: parse_digits_append to_digit_digit_char)
qed

lemma decimal_not_char:
  "decimal s \<Longrightarrow> (of_char c :: nat) < 48 \<or> 57 < (of_char c :: nat) \<Longrightarrow> c \<notin> set s"
  by (auto simp: decimal_def)

lemma parse_nat_show_nat [simp]: "parse_nat (show_nat n) = Some n"
proof -
  have "decimal (show_nat n)" by (rule decimal_show_nat)
  then have "CHR ''+'' \<notin> set (show_nat n)" by (rule decimal_not_char) simp
  moreover have "show_nat n \<noteq> []" using decimal_show_nat [of n] by (simp add: decimal_def)
  ultimately show ?thesis
    using parse_digits_show_nat [of n] by (auto simp: parse_nat_def split: list.splits)
qed

lemma parse_show_uint [simp]: "parse_uint (show_uint w) = Some (w :: 'a::len word)"
  by (simp add: parse_uint_def show_uint_def)

lemma decimal_show_uint [simp]: "decimal (show_uint w)"
  by (simp add: show_uint_def decimal_show_nat)

lemma parse_nat_Nil [simp]: "parse_nat [] = None"
  by (simp add: parse_nat_def)

lemma parse_uint_Nil [simp]: "parse_uint [] = None"
  by (simp add: parse_uint_def)

lemma decimal_no_sep [simp]:
  "decimal s \<Longrightarrow> NL \<notin> set s" "decimal s \<Longrightarrow> CR \<notin> set s" "decimal s \<Longrightarrow> CHR '','' \<notin> set s"
  "decimal s \<Longrightarrow> CHR 0x22 \<notin> set s"
  by (auto elim!: decimal_not_char simp: NL_def CR_def)

text \<open>
  The contract of a decimal number format: printing writes digits only and parsing returns the
  number. The standard library's unsigned integers meet it at every width.
\<close>

locale decimal_codec =
  fixes show_num :: "'a \<Rightarrow> string"
    and parse_num :: "string \<Rightarrow> 'a option"
  assumes parse_show: "parse_num (show_num n) = Some n"
    and show_decimal: "decimal (show_num n)"
begin

lemma show_inject: "show_num m = show_num n \<Longrightarrow> m = n"
  by (metis parse_show option.inject)

lemma show_trim: "str_trim (show_num n) = show_num n"
proof -
  have id: "dropWhile ascii_space t = t" if "set t \<subseteq> set (show_num n)" for t
    using that show_decimal [of n] by (cases t) (auto simp: ascii_space_def decimal_def)
  show ?thesis by (simp add: str_trim_def id)
qed

end

interpretation std_num: decimal_codec show_uint parse_uint
  by unfold_locales simp_all

section \<open>Splitting and joining\<close>

fun join_with :: "char \<Rightarrow> string list \<Rightarrow> string" where
  "join_with c [] = []"
| "join_with c [p] = p"
| "join_with c (p # q # ps) = p @ c # join_with c (q # ps)"

definition unlines :: "string list \<Rightarrow> string" where
  "unlines ls = concat (map (\<lambda>l. l @ [NL]) ls)"

lemma split_on_nonempty [simp]: "split_on c s \<noteq> []"
  by (cases s) (auto split: list.splits)

lemma split_on_append:
  "c \<notin> set p \<Longrightarrow> split_on c (p @ c # s) = p # split_on c s"
  by (induction p) auto

lemma split_on_no_sep: "c \<notin> set p \<Longrightarrow> split_on c p = [p]"
  by (induction p) auto

lemma split_on_join [text_simps]:
  "ps \<noteq> [] \<Longrightarrow> (\<And>p. p \<in> set ps \<Longrightarrow> c \<notin> set p) \<Longrightarrow> split_on c (join_with c ps) = ps"
  by (induction ps rule: join_with.induct[of _ c]) (auto simp: split_on_append split_on_no_sep)

lemma strip_cr_id: "CR \<notin> set l \<Longrightarrow> strip_cr l = l"
  by (metis last_in_set strip_cr_def)

lemma split_on_unlines:
  "(\<And>l. l \<in> set ls \<Longrightarrow> NL \<notin> set l) \<Longrightarrow> split_on NL (unlines ls) = ls @ [[]]"
  by (induction ls) (auto simp: unlines_def split_on_append)

lemma str_lines_unlines [text_simps]:
  "(\<And>l. l \<in> set ls \<Longrightarrow> NL \<notin> set l \<and> CR \<notin> set l) \<Longrightarrow> str_lines (unlines ls) = ls"
  by (simp add: str_lines_def split_on_unlines map_idI strip_cr_id)

lemma unlines_Cons: "unlines (l # ls) = l @ NL # unlines ls"
  by (simp add: unlines_def)

lemma unlines_Nil [simp]: "unlines [] = []"
  by (simp add: unlines_def)

lemma strip_prefix_append [simp]: "strip_prefix p (p @ s) = Some s"
  by (induction p) auto

lemma strip_prefix_SomeD: "strip_prefix p s = Some r \<Longrightarrow> s = p @ r"
  by (induction p s rule: strip_prefix.induct) (auto split: if_splits)

section \<open>Hexadecimal byte strings\<close>

text \<open>
  The contract of a hexadecimal codec, as the \<open>hex\<close> crate documents it: encoding writes two
  lower-case digits per byte, and decoding into a buffer of \<open>n\<close> bytes succeeds on exactly the
  encodings of \<open>n\<close> bytes (digits of either case).
\<close>

definition hex_char :: "char \<Rightarrow> bool" where
  "hex_char c \<longleftrightarrow> to_digit 16 c \<noteq> None"

definition ascii_lower :: "char \<Rightarrow> char" where
  "ascii_lower c = (if 65 \<le> (of_char c :: nat) \<and> (of_char c :: nat) \<le> 90 then char_of (of_char c + 32 :: nat) else c)"

definition lower_hex :: "string \<Rightarrow> bool" where
  "lower_hex s \<longleftrightarrow> list_all (\<lambda>c. hex_char c \<and> ascii_lower c = c) s"

lemma not_hex_seps [simp]:
  "\<not> hex_char NL" "\<not> hex_char CR" "\<not> hex_char (CHR '','')" "\<not> hex_char (CHR 0x22)"
  by (simp_all add: hex_char_def to_digit_def NL_def CR_def)

locale hex_codec =
  fixes hex_encode :: "bytes \<Rightarrow> string"
    and hex_decode :: "nat \<Rightarrow> string \<Rightarrow> bytes option"
  assumes decode_encode: "hex_decode (length bs) (hex_encode bs) = Some bs"
    and encode_lower: "lower_hex (hex_encode bs)"
    and encode_length: "length (hex_encode bs) = 2 * length bs"
    and decode_length: "hex_decode n s = Some bs \<Longrightarrow> length bs = n"
begin

lemma encode_chars: "c \<in> set (hex_encode bs) \<Longrightarrow> hex_char c"
  using encode_lower [of bs] by (simp add: lower_hex_def list_all_iff)

lemma encode_inject: "hex_encode a = hex_encode b \<Longrightarrow> a = b"
proof -
  assume eq: "hex_encode a = hex_encode b"
  then have "length a = length b"
    using encode_length [of a] encode_length [of b] by simp
  with eq show ?thesis
    by (metis decode_encode option.inject)
qed

lemma encode_no_sep:
  "NL \<notin> set (hex_encode bs)" "CR \<notin> set (hex_encode bs)" "CHR '','' \<notin> set (hex_encode bs)"
  "CHR 0x22 \<notin> set (hex_encode bs)"
proof -
  have *: "c \<notin> set (hex_encode bs)" if "\<not> hex_char c" for c
    using that encode_chars [of c bs] by (rule contrapos_nn)
  show "NL \<notin> set (hex_encode bs)" "CR \<notin> set (hex_encode bs)"
    "CHR '','' \<notin> set (hex_encode bs)" "CHR 0x22 \<notin> set (hex_encode bs)"
    by (rule *, rule not_hex_seps)+
qed

end

section \<open>Row files\<close>

text \<open>
  A file of header lines followed by one row per entry. The rows a reader cannot parse are
  skipped, so reading back what was written returns every entry in order.
\<close>

fun read_rows :: "(string \<Rightarrow> 'a option) \<Rightarrow> string list \<Rightarrow> 'a list" where
  "read_rows p [] = []"
| "read_rows p (l # ls) = (case p l of None \<Rightarrow> read_rows p ls | Some x \<Rightarrow> x # read_rows p ls)"

lemma read_rows_map: "(\<And>x. x \<in> set xs \<Longrightarrow> p (r x) = Some x) \<Longrightarrow> read_rows p (map r xs) = xs"
  by (induction xs) auto

locale row_format =
  fixes valid :: "'a \<Rightarrow> bool"
    and render_row :: "'a \<Rightarrow> string"
    and parse_row :: "string \<Rightarrow> 'a option"
  assumes parse_render: "valid x \<Longrightarrow> parse_row (render_row x) = Some x"
    and render_no_nl: "valid x \<Longrightarrow> NL \<notin> set (render_row x)"
    and render_no_cr: "valid x \<Longrightarrow> CR \<notin> set (render_row x)"
begin

lemma file_lines:
  assumes "\<And>h. h \<in> set hs \<Longrightarrow> NL \<notin> set h \<and> CR \<notin> set h" "list_all valid xs"
  shows "str_lines (unlines (hs @ map render_row xs)) = hs @ map render_row xs"
  using assms by (intro str_lines_unlines) (auto simp: list_all_iff render_no_nl render_no_cr)

lemma read_back: "list_all valid xs \<Longrightarrow> read_rows parse_row (map render_row xs) = xs"
  by (intro read_rows_map) (auto simp: list_all_iff parse_render)

end

section \<open>Files rewritten through a temporary file\<close>

text \<open>
  The persistence routines create the parent directory, create a temporary file, write the body,
  sync it and rename it over the target. The disk is the target and the temporary file;
  \<open>io_fault\<close> picks the system call that fails (\<open>WriteFails n\<close> after \<open>n\<close> characters).
\<close>

record disk =
  dk_file :: "string option"
  dk_tmp :: "string option"

datatype io_fault = NoFault | MkdirFails | CreateFails | WriteFails nat | SyncFails | RenameFails

definition replace_file :: "io_fault \<Rightarrow> string \<Rightarrow> disk \<Rightarrow> (io_fault, unit) result \<times> disk" where
  "replace_file fault body d =
     (case fault of
        MkdirFails \<Rightarrow> (Inl fault, d)
      | CreateFails \<Rightarrow> (Inl fault, d)
      | WriteFails n \<Rightarrow> (Inl fault, d\<lparr>dk_tmp := Some (take n body)\<rparr>)
      | SyncFails \<Rightarrow> (Inl fault, d\<lparr>dk_tmp := Some body\<rparr>)
      | RenameFails \<Rightarrow> (Inl fault, d\<lparr>dk_tmp := Some body\<rparr>)
      | NoFault \<Rightarrow> (Inr (), d\<lparr>dk_file := Some body, dk_tmp := None\<rparr>))"

lemma replace_file_atomic:
  "dk_file (snd (replace_file fault body d)) = (if fault = NoFault then Some body else dk_file d)"
  "fst (replace_file fault body d) = (if fault = NoFault then Inr () else Inl fault)"
  by (cases fault; simp add: replace_file_def)+

end
