(* ===== verification/Wire.thy ===== *)
theory Wire
  imports Rust_Text
begin

text \<open>
  The wire formats the client reads and writes: protobuf varints, length-delimited frames and
  the three hand-written message parsers of \<^verbatim>\<open>rust/ds-net/src/direct.rs\<close> and
  \<^verbatim>\<open>rust/ds-net/src/growth.rs\<close> (payment-threshold announcement, settlement headers,
  pseudosettle acknowledgement), with the messages the client builds. A stream is the list of
  bytes it still delivers before end of file. \<open>u64::from(usize)\<close> conversions are total on the
  64-bit targets the client runs on.
\<close>

section \<open>Varints and frames\<close>

fun decode_varint_from :: "nat \<Rightarrow> u64 \<Rightarrow> bytes \<Rightarrow> (u64 \<times> bytes) option" where
  "decode_varint_from i value [] = None"
| "decode_varint_from i value (byte # buf) =
     (if 10 \<le> i then None
      else let value' = value OR push_bit (7 * i) (ucast (byte AND 0x7F))
           in if byte AND 0x80 = 0 then Some (value', buf)
              else decode_varint_from (Suc i) value' buf)"

definition decode_varint :: "bytes \<Rightarrow> (u64 \<times> bytes) option" where
  "decode_varint buf = decode_varint_from 0 0 buf"

function encode_varint :: "u64 \<Rightarrow> bytes" where
  "encode_varint value =
     (let byte = (ucast (value AND 0x7F) :: u8);
          value' = drop_bit 7 value
      in if value' = 0 then [byte] else (byte OR 0x80) # encode_varint value')"
  by pat_completeness auto
termination
proof (relation "measure unat")
  fix v v' :: u64 and byte :: u8
  assume v: "v' = drop_bit 7 v" and "v' \<noteq> 0"
  then have "0 < unat v" by (auto simp: unat_gt_0)
  then show "(v', v) \<in> measure unat"
    by (simp add: v unat_drop_bit)
qed simp

declare encode_varint.simps [simp del]

datatype io_error = UnexpectedEof | VarintTooLong | MessageTooLarge nat

fun read_length :: "nat \<Rightarrow> u64 \<Rightarrow> bytes \<Rightarrow> (io_error, u64 \<times> bytes) result" where
  "read_length shift len [] = Inl UnexpectedEof"
| "read_length shift len (byte # stream) =
     (let len' = len OR push_bit shift (ucast (byte AND 0x7F))
      in if byte AND 0x80 = 0 then Inr (len', stream)
         else if 63 < shift + 7 then Inl VarintTooLong
         else read_length (shift + 7) len' stream)"

definition read_exact :: "nat \<Rightarrow> bytes \<Rightarrow> (io_error, bytes \<times> bytes) result" where
  "read_exact n stream =
     (if n \<le> length stream then Inr (take n stream, drop n stream) else Inl UnexpectedEof)"

definition read_delimited :: "nat \<Rightarrow> bytes \<Rightarrow> (io_error, bytes \<times> bytes) result" where
  "read_delimited cap stream =
     (case read_length 0 0 stream of
        Inl e \<Rightarrow> Inl e
      | Inr (len, rest) \<Rightarrow>
          if cap < unat len then Inl (MessageTooLarge (unat len)) else read_exact (unat len) rest)"

definition frame :: "bytes \<Rightarrow> bytes" where
  "frame body = encode_varint (of_nat (length body)) @ body"

section \<open>Protobuf messages\<close>

definition take_delimited :: "bytes \<Rightarrow> (bytes \<times> bytes) option" where
  "take_delimited rest =
     (case decode_varint rest of
        None \<Rightarrow> None
      | Some (len, after_len) \<Rightarrow>
          if unat len \<le> length after_len
          then Some (take (unat len) after_len, drop (unat len) after_len) else None)"

lemma decode_varint_from_length:
  "decode_varint_from i v buf = Some (w, rest) \<Longrightarrow> length rest < length buf"
  by (induction i v buf rule: decode_varint_from.induct)
    (fastforce simp: Let_def split: if_splits)+

lemma decode_varint_length: "decode_varint buf = Some (w, rest) \<Longrightarrow> length rest < length buf"
  by (simp add: decode_varint_def decode_varint_from_length)

lemma take_delimited_length: "take_delimited buf = Some (v, rest) \<Longrightarrow> length rest < length buf"
  by (fastforce simp: take_delimited_def dest: decode_varint_length split: option.splits if_splits)

function parse_announce_threshold :: "bytes \<Rightarrow> U256 option" where
  "parse_announce_threshold rest =
     (if rest = [] then None
      else case decode_varint rest of
        None \<Rightarrow> None
      | Some (tag, after_tag) \<Rightarrow>
          let field = drop_bit 3 tag; wire = tag AND 7
          in if wire = 2 then
               (case take_delimited after_tag of
                  None \<Rightarrow> None
                | Some (value, rest') \<Rightarrow>
                    if field = 1 then
                      (if 32 < length value then None else Some (from_be_bytes value))
                    else parse_announce_threshold rest')
             else if wire = 0 then
               (case decode_varint after_tag of
                  None \<Rightarrow> None
                | Some (_, rest') \<Rightarrow> parse_announce_threshold rest')
             else None)"
  by pat_completeness auto
termination
  by (relation "measure length")
    (auto dest!: decode_varint_length take_delimited_length)

function parse_ack_loop :: "u64 option \<Rightarrow> bytes \<Rightarrow> u64 option option" where
  "parse_ack_loop amount rest =
     (if rest = [] then Some amount
      else case decode_varint rest of
        None \<Rightarrow> None
      | Some (tag, after) \<Rightarrow>
          if tag AND 7 = 2 then
            (case take_delimited after of
               None \<Rightarrow> None
             | Some (value, rest') \<Rightarrow>
                 if drop_bit 3 tag = 1 then
                   (if 8 < length value then None
                    else parse_ack_loop (Some (from_be_bytes value)) rest')
                 else parse_ack_loop amount rest')
          else if tag AND 7 = 0 then
            (case decode_varint after of
               None \<Rightarrow> None
             | Some (_, rest') \<Rightarrow> parse_ack_loop amount rest')
          else None)"
  by pat_completeness auto
termination
  by (relation "measure (length \<circ> snd)")
    (auto dest!: decode_varint_length take_delimited_length)

definition parse_ack_amount :: "bytes \<Rightarrow> u64 option" where
  "parse_ack_amount body =
     (case parse_ack_loop None body of
        None \<Rightarrow> None
      | Some amount \<Rightarrow> (case amount of Some a \<Rightarrow> Some a | None \<Rightarrow> Some 0))"

function parse_header_fields :: "bytes \<Rightarrow> bytes \<Rightarrow> bytes \<Rightarrow> (bytes \<times> bytes) option" where
  "parse_header_fields key value inner =
     (if inner = [] then Some (key, value)
      else case decode_varint inner of
        None \<Rightarrow> None
      | Some (itag, after) \<Rightarrow>
          if itag AND 7 \<noteq> 2 then None
          else (case take_delimited after of
             None \<Rightarrow> None
           | Some (field, inner') \<Rightarrow>
               let n = drop_bit 3 itag
               in if n = 1 then parse_header_fields field value inner'
                  else if n = 2 then parse_header_fields key field inner'
                  else parse_header_fields key value inner'))"
  by pat_completeness auto
termination
  by (relation "measure (\<lambda>(k, v, inner). length inner)")
    (auto dest!: decode_varint_length take_delimited_length)

definition key_exchange :: bytes where
  "key_exchange = [0x65, 0x78, 0x63, 0x68, 0x61, 0x6E, 0x67, 0x65]"

definition key_deduction :: bytes where
  "key_deduction = [0x64, 0x65, 0x64, 0x75, 0x63, 0x74, 0x69, 0x6F, 0x6E]"

function parse_headers_loop :: "U256 option \<Rightarrow> U256 \<Rightarrow> bytes \<Rightarrow> (U256 option \<times> U256) option" where
  "parse_headers_loop exchange deduction rest =
     (if rest = [] then Some (exchange, deduction)
      else case decode_varint rest of
        None \<Rightarrow> None
      | Some (tag, after_tag) \<Rightarrow>
          if drop_bit 3 tag \<noteq> 1 \<or> tag AND 7 \<noteq> 2 then None
          else (case take_delimited after_tag of
             None \<Rightarrow> None
           | Some (header, rest') \<Rightarrow>
               (case parse_header_fields [] [] header of
                  None \<Rightarrow> None
                | Some (key, value) \<Rightarrow>
                    if 32 < length value then None
                    else if key = key_exchange
                      then parse_headers_loop (Some (from_be_bytes value)) deduction rest'
                    else if key = key_deduction
                      then parse_headers_loop exchange (from_be_bytes value) rest'
                    else parse_headers_loop exchange deduction rest')))"
  by pat_completeness auto
termination
  by (relation "measure (\<lambda>(e, d, rest). length rest)")
    (auto dest!: decode_varint_length take_delimited_length)

definition parse_settlement_headers :: "bytes \<Rightarrow> (U256 \<times> U256) option" where
  "parse_settlement_headers body =
     (case parse_headers_loop None 0 body of
        None \<Rightarrow> None
      | Some (exchange, deduction) \<Rightarrow> map_option (\<lambda>rate. (rate, deduction)) exchange)"

declare parse_announce_threshold.simps [simp del]
declare parse_ack_loop.simps [simp del]
declare parse_header_fields.simps [simp del]
declare parse_headers_loop.simps [simp del]

section \<open>Messages the client builds\<close>

definition payment_amount :: "u64 \<Rightarrow> bytes" where
  "payment_amount attempted =
     (let be = to_be_bytes 8 (unat attempted);
          stripped = dropWhile (\<lambda>b. b = 0) be
      in if stripped = [] then drop 7 be else stripped)"

definition payment_message :: "u64 \<Rightarrow> bytes" where
  "payment_message attempted =
     (let amount = payment_amount attempted in 0x0A # of_nat (length amount) # amount)"

definition probe_frame :: "u64 \<Rightarrow> bytes" where
  "probe_frame attempted = frame (payment_message attempted)"

definition emit_cheque_frame :: "bytes \<Rightarrow> bytes" where
  "emit_cheque_frame cheque_json =
     frame (0x0A # encode_varint (of_nat (length cheque_json)) @ cheque_json)"

record cheque =
  ch_chequebook :: bytes
  ch_beneficiary :: bytes
  ch_cumulative_payout :: U256

record signed_cheque =
  sc_cheque :: cheque
  sc_signature :: bytes

definition string_bytes :: "string \<Rightarrow> bytes" where
  "string_bytes s = map (\<lambda>c. of_nat (of_char c)) s"

definition encode_cheque_json_bee ::
  "(bytes \<Rightarrow> string) \<Rightarrow> (U256 \<Rightarrow> string) \<Rightarrow> (bytes \<Rightarrow> string) \<Rightarrow> signed_cheque \<Rightarrow> bytes" where
  "encode_cheque_json_bee hex_encode u256_show base64 sc =
     (let c = sc_cheque sc; q = CHR 0x22 in string_bytes
       (CHR ''{'' # q # ''Chequebook'' @ [q, CHR '':'', q] @ ''0x'' @ hex_encode (ch_chequebook c) @ [q, CHR '','']
        @ q # ''Beneficiary'' @ [q, CHR '':'', q] @ ''0x'' @ hex_encode (ch_beneficiary c) @ [q, CHR '','']
        @ q # ''CumulativePayout'' @ [q, CHR '':''] @ u256_show (ch_cumulative_payout c) @ [CHR '','']
        @ q # ''Signature'' @ [q, CHR '':'', q] @ base64 (sc_signature sc) @ [q, CHR ''}'']))"

section \<open>Codec contract\<close>

text \<open>A self-delimiting codec: decoding what was encoded returns the value and the rest.\<close>

locale stream_codec =
  fixes valid :: "'a \<Rightarrow> bool"
    and enc :: "'a \<Rightarrow> bytes"
    and dec :: "bytes \<Rightarrow> ('a \<times> bytes) option"
  assumes dec_enc: "valid x \<Longrightarrow> dec (enc x @ rest) = Some (x, rest)"
begin

fun dec_n :: "nat \<Rightarrow> bytes \<Rightarrow> ('a list \<times> bytes) option" where
  "dec_n 0 bs = Some ([], bs)"
| "dec_n (Suc n) bs =
     (case dec bs of None \<Rightarrow> None
      | Some (x, rest) \<Rightarrow> map_option (\<lambda>(xs, r). (x # xs, r)) (dec_n n rest))"

lemma dec_n_enc:
  "list_all valid xs \<Longrightarrow> dec_n (length xs) (concat (map enc xs) @ rest) = Some (xs, rest)"
  by (induction xs) (auto simp: dec_enc)

lemma enc_prefix_free: "valid x \<Longrightarrow> valid y \<Longrightarrow> enc x @ r = enc y @ s \<Longrightarrow> x = y \<and> r = s"
  by (metis dec_enc option.inject prod.inject)

end

section \<open>Varint round trip\<close>

lemma low7_mask: "(v :: u64) AND 0x7F = take_bit 7 v"
  by (simp add: take_bit_eq_mask mask_eq_exp_minus_1)

lemma low7_mask8: "(b :: u8) AND 0x7F = take_bit 7 b"
  by (simp add: take_bit_eq_mask mask_eq_exp_minus_1)

lemma bit_0x80: "bit (0x80 :: u8) n \<longleftrightarrow> n = 7"
  using bit_exp_iff [where 'a = u8, of 7 n] by (auto simp: possible_bit_def)

lemma high_bit_mask8: "(b :: u8) AND 0x80 = (if bit b 7 then 0x80 else 0)"
proof -
  have "b AND x = (if bit b 7 then x else 0)" if x: "\<And>n. bit x n \<longleftrightarrow> n = 7" for x
    by (rule bit_word_eqI) (auto simp: bit_and_iff x)
  then show ?thesis using bit_0x80 .
qed

lemma high_bit_nonzero: "(0x80 :: u8) \<noteq> 0"
proof
  assume zero: "(0x80 :: u8) = 0"
  have "bit (0x80 :: u8) 7" by (simp only: bit_0x80)
  with zero show False by (simp only: bit_0_eq bot_apply bot_bool_def)
qed

lemma varint_byte:
  fixes v :: u64
  defines "b \<equiv> ucast (v AND 0x7F) :: u8"
  shows "b AND 0x80 = 0" "(b OR 0x80) AND 0x80 \<noteq> 0"
    "ucast (b AND 0x7F) = take_bit 7 v" "ucast ((b OR 0x80) AND 0x7F) = take_bit 7 v"
proof -
  have b: "b = take_bit 7 (ucast v)"
    unfolding b_def low7_mask by (rule bit_word_eqI) (auto simp: bit_simps)
  show "b AND 0x80 = 0"
    unfolding high_bit_mask8 b by (simp add: bit_take_bit_iff)
  have "bit (b OR 0x80) 7"
    by (simp only: bit_or_iff bit_0x80) simp
  then show "(b OR 0x80) AND 0x80 \<noteq> 0"
    unfolding high_bit_mask8 using high_bit_nonzero by (simp only: if_True) simp
  show "ucast (b AND 0x7F) = take_bit 7 v"
    unfolding low7_mask8 b by (rule bit_word_eqI) (auto simp: bit_simps)
  show "ucast ((b OR 0x80) AND 0x7F) = take_bit 7 v"
    unfolding low7_mask8 b by (rule bit_word_eqI) (auto simp: bit_simps bit_0x80)
qed

lemma push_bit_split:
  "push_bit n (take_bit 7 v) OR push_bit (n + 7) (drop_bit 7 v) = push_bit n (v :: u64)"
proof (rule bit_word_eqI)
  fix k
  assume "k < LENGTH(64)"
  then show "bit (push_bit n (take_bit 7 v) OR push_bit (n + 7) (drop_bit 7 v)) k = bit (push_bit n v) k"
    by (cases "k < n + 7") (auto simp: bit_simps)
qed

lemma decode_encode_varint_from:
  "i \<le> 9 \<Longrightarrow> unat v < 2 ^ (64 - 7 * i) \<Longrightarrow>
   decode_varint_from i acc (encode_varint v @ rest) = Some (acc OR push_bit (7 * i) v, rest)"
proof (induction v arbitrary: i acc rule: encode_varint.induct)
  case (1 v)
  let ?v' = "drop_bit 7 v"
  show ?case
  proof (cases "?v' = 0")
    case True
    then have "take_bit 7 v = v"
      using bits_ident [of 7 v] by simp
    with True "1.prems" show ?thesis
      by (subst encode_varint.simps) (simp add: varint_byte Let_def)
  next
    case False
    have "unat ?v' \<noteq> 0" using False by (simp add: unat_eq_zero)
    then have "128 \<le> unat v" by (auto simp: unat_drop_bit)
    with "1.prems" have i: "i \<le> 8" by (cases "i = 9") auto
    then have "unat ?v' < 2 ^ (64 - 7 * Suc i)"
    proof -
      have "64 - 7 * i = (64 - 7 * Suc i) + 7" using i by simp
      then have "(2::nat) ^ (64 - 7 * i) = 2 ^ (64 - 7 * Suc i) * 128"
        by (simp only: power_add) simp
      with "1.prems"(2) show ?thesis
        by (simp only: unat_drop_bit) (simp add: less_mult_imp_div_less)
    qed
    with False i "1.IH" have "decode_varint_from (Suc i) acc' (encode_varint ?v' @ rest)
        = Some (acc' OR push_bit (7 * Suc i) ?v', rest)" for acc'
      by (simp add: Let_def)
    note IH = this
    have "decode_varint_from i acc ((ucast (v AND 0x7F) OR 0x80) # encode_varint ?v' @ rest)
        = Some (acc OR push_bit (7 * i) (take_bit 7 v) OR push_bit (7 * Suc i) ?v', rest)"
      using i by (simp only: decode_varint_from.simps varint_byte Let_def if_False IH) (simp add: or.assoc)
    with False push_bit_split [of "7 * i" v] show ?thesis
      by (subst encode_varint.simps) (simp only: Let_def if_False append_Cons, simp add: or.assoc add.commute)
  qed
qed

lemma decode_encode_varint [simp]: "decode_varint (encode_varint v @ rest) = Some (v, rest)"
  using decode_encode_varint_from [of 0 v 0 rest] unsigned_less [of v]
  by (simp add: decode_varint_def)

interpretation varint: stream_codec "\<lambda>_. True" encode_varint decode_varint
  by unfold_locales simp

lemma decode_varint_from_stops: "10 \<le> i \<Longrightarrow> decode_varint_from i acc buf = None"
  by (cases buf) auto

lemma read_length_decode:
  "i < 10 \<Longrightarrow> decode_varint_from i len stream = Some r \<Longrightarrow> read_length (7 * i) len stream = Inr r"
proof (induction i len stream rule: decode_varint_from.induct)
  case (2 i acc byte buf)
  show ?case
  proof (cases "byte AND 0x80 = 0")
    case True
    with "2.prems" show ?thesis by (simp add: Let_def)
  next
    case False
    let ?acc = "acc OR push_bit (7 * i) (ucast (byte AND 0x7F))"
    from False "2.prems" have dec: "decode_varint_from (Suc i) ?acc buf = Some r"
      by (simp add: Let_def)
    then have i: "Suc i < 10"
      using decode_varint_from_stops [of "Suc i" ?acc buf] by (cases "10 \<le> Suc i") simp_all
    with False dec "2.IH" have "read_length (7 * Suc i) ?acc buf = Inr r" by simp
    with False i show ?thesis by (simp add: Let_def add.commute)
  qed
qed simp

lemma read_length_encode [simp]: "read_length 0 0 (encode_varint v @ rest) = Inr (v, rest)"
  using read_length_decode [of 0 0 "encode_varint v @ rest" "(v, rest)"]
    decode_encode_varint [of v rest] by (simp add: decode_varint_def)

section \<open>Frames and messages read back\<close>

lemma take_delimited_frame [simp]:
  "length v < 2 ^ 64 \<Longrightarrow> take_delimited (frame v @ rest) = Some (v, rest)"
  by (simp add: take_delimited_def frame_def unat_of_nat)

interpretation delimited: stream_codec "\<lambda>v. length v < 2 ^ 64" frame take_delimited
  by unfold_locales simp

lemma read_delimited_frame_cases:
  assumes "length body < 2 ^ 64"
  shows "read_delimited cap (frame body @ rest) =
    (if cap < length body then Inl (MessageTooLarge (length body)) else Inr (body, rest))"
  using assms by (simp add: read_delimited_def frame_def read_exact_def unat_of_nat)

lemma read_delimited_truncated:
  assumes "length body < 2 ^ 64" "length body \<le> cap" "n < length body"
  shows "read_delimited cap (encode_varint (of_nat (length body)) @ take n body) = Inl UnexpectedEof"
  using assms by (simp add: read_delimited_def read_exact_def unat_of_nat)

text \<open>A length-delimited protobuf field with tag \<open>tag\<close> (field number times eight plus two).\<close>

definition pb_bytes :: "u64 \<Rightarrow> bytes \<Rightarrow> bytes" where
  "pb_bytes tag v = encode_varint tag @ frame v"

lemma encode_varint_nonempty [simp]: "encode_varint v \<noteq> []"
  by (subst encode_varint.simps) (simp add: Let_def)

lemma pb_bytes_nonempty [simp]: "pb_bytes tag v \<noteq> []"
  by (subst pb_bytes_def, subst encode_varint.simps) (simp add: Let_def)

lemma decode_pb_tag [simp]: "decode_varint (pb_bytes tag v @ rest) = Some (tag, frame v @ rest)"
  by (simp add: pb_bytes_def)

lemma decode_pb_tag_end [simp]: "decode_varint (pb_bytes tag v) = Some (tag, frame v)"
  using decode_pb_tag [of tag v "[]"] by simp

lemma encode_varint_small: "unat v < 128 \<Longrightarrow> encode_varint v = [ucast v]"
proof -
  assume v: "unat v < 128"
  then have "unat (drop_bit 7 v) = 0" by (simp add: unat_drop_bit)
  then have z: "drop_bit 7 v = 0" by (simp only: unat_eq_zero)
  then have "take_bit 7 v = v" using bits_ident [of 7 v] by simp
  with z show ?thesis by (subst encode_varint.simps) (simp add: low7_mask)
qed

lemma parse_announce_threshold_skip:
  assumes "tag AND 7 = 2" "drop_bit 3 tag \<noteq> 1" "length v < 2 ^ 64"
  shows "parse_announce_threshold (pb_bytes tag v @ rest) = parse_announce_threshold rest"
  using assms by (subst parse_announce_threshold.simps) (simp add: Let_def)

lemma parse_announce_threshold_field:
  assumes "length v \<le> 32"
  shows "parse_announce_threshold (pb_bytes 10 v @ rest) = Some (from_be_bytes v)"
  using assms by (subst parse_announce_threshold.simps) (simp add: Let_def drop_bit_eq_div)

lemma parse_ack_loop_field:
  assumes "length v \<le> 8"
  shows "parse_ack_loop a (pb_bytes 10 v @ rest) = parse_ack_loop (Some (from_be_bytes v)) rest"
  using assms by (subst parse_ack_loop.simps) (simp add: drop_bit_eq_div)

lemma parse_ack_loop_end [simp]: "parse_ack_loop a [] = Some a"
  by (subst parse_ack_loop.simps) simp

lemma length_payment_amount: "length (payment_amount a) \<le> 8"
  using length_dropWhile_le [of "\<lambda>b. b = 0" "to_be_bytes 8 (unat a)"]
  by (simp add: payment_amount_def Let_def)

lemma be_nat_payment_amount: "be_nat (payment_amount a) = unat a"
proof -
  let ?be = "to_be_bytes 8 (unat a)" and ?s = "dropWhile (\<lambda>b. b = 0) (to_be_bytes 8 (unat a))"
  have v: "be_nat ?be = unat a"
    using u64_less [of a] by (simp add: be_nat_to_be_bytes)
  show ?thesis
  proof (cases "?s = []")
    case True
    then have zeros: "\<And>b. b \<in> set ?be \<Longrightarrow> b = 0" by (simp add: dropWhile_eq_Nil_conv)
    obtain b where b: "drop 7 ?be = [b]"
      by (cases "drop 7 ?be") (auto simp del: to_be_bytes.simps dest: arg_cong [where f = length])
    then have "b = 0" by (metis in_set_dropD list.set_intros(1) zeros)
    moreover have "unat a = 0" using v be_nat_drop_zeros [of ?be] True by simp
    ultimately show ?thesis using True b by (simp add: payment_amount_def Let_def)
  next
    case False
    then have "payment_amount a = ?s" by (simp only: payment_amount_def Let_def if_False)
    then show ?thesis using v by (simp only: be_nat_drop_zeros)
  qed
qed

lemma payment_message_pb: "payment_message a = pb_bytes 10 (payment_amount a)"
  using length_payment_amount [of a]
  by (simp add: payment_message_def Let_def pb_bytes_def frame_def encode_varint_small unat_of_nat
      unsigned_of_nat take_bit_nat_eq_self)

lemma parse_ack_payment: "parse_ack_amount (payment_message a) = Some a"
proof -
  have "(from_be_bytes (payment_amount a) :: u64) = a"
    by (simp add: from_be_bytes_def be_nat_payment_amount)
  then show ?thesis
    using parse_ack_loop_field [of "payment_amount a" None "[]"] length_payment_amount [of a]
    by (simp add: parse_ack_amount_def payment_message_pb)
qed

section \<open>Settlement headers read back\<close>

type_synonym header = "bytes \<times> bytes"

definition header_body :: "header \<Rightarrow> bytes" where
  "header_body h = pb_bytes 10 (fst h) @ pb_bytes 18 (snd h)"

definition header_message :: "header list \<Rightarrow> bytes" where
  "header_message hs = concat (map (\<lambda>h. pb_bytes 10 (header_body h)) hs)"

definition header_ok :: "header \<Rightarrow> bool" where
  "header_ok h \<longleftrightarrow> length (snd h) \<le> 32 \<and> length (header_body h) < 2 ^ 64"

lemma header_ok_key: "header_ok h \<Longrightarrow> length (fst h) < 2 ^ 64"
  by (simp add: header_ok_def header_body_def pb_bytes_def frame_def)

lemma parse_header_fields_end [simp]: "parse_header_fields k v [] = Some (k, v)"
  by (subst parse_header_fields.simps) simp

lemma parse_header_fields_key:
  "length x < 2 ^ 64 \<Longrightarrow> parse_header_fields k v (pb_bytes 10 x @ rest) = parse_header_fields x v rest"
  by (subst parse_header_fields.simps) (simp add: Let_def drop_bit_eq_div)

lemma parse_header_fields_value:
  "length x < 2 ^ 64 \<Longrightarrow> parse_header_fields k v (pb_bytes 18 x @ rest) = parse_header_fields k x rest"
  by (subst parse_header_fields.simps) (simp add: Let_def drop_bit_eq_div)

lemma parse_header_body:
  assumes "header_ok h"
  shows "parse_header_fields [] [] (header_body h) = Some h"
proof -
  have "length (snd h) < 2 ^ 64" using assms by (simp add: header_ok_def)
  then show ?thesis
    using header_ok_key [OF assms] parse_header_fields_value [of "snd h" "fst h" "[]" "[]"]
    by (simp add: header_body_def parse_header_fields_key)
qed

definition header_or :: "'a \<Rightarrow> (bytes \<Rightarrow> 'a) \<Rightarrow> bytes \<Rightarrow> header list \<Rightarrow> 'a" where
  "header_or d f k hs = (case map_of (rev hs) k of None \<Rightarrow> d | Some v \<Rightarrow> f v)"

lemma header_or_Nil [simp]: "header_or d f k [] = d"
  by (simp add: header_or_def)

lemma header_or_Cons [simp]:
  "header_or d f k (h # hs) = header_or (if fst h = k then f (snd h) else d) f k hs"
  by (cases h) (simp add: header_or_def map_add_def split: option.split)

lemma key_exchange_deduction: "key_exchange \<noteq> key_deduction"
  by (simp add: key_exchange_def key_deduction_def)

lemma parse_headers_loop_step:
  assumes "header_ok h"
  shows "parse_headers_loop e d (pb_bytes 10 (header_body h) @ rest) =
    parse_headers_loop (if fst h = key_exchange then Some (from_be_bytes (snd h)) else e)
      (if fst h = key_deduction then from_be_bytes (snd h) else d) rest"
proof -
  have "length (header_body h) < 2 ^ 64" "length (snd h) \<le> 32"
    using assms by (simp_all add: header_ok_def)
  then show ?thesis
    using parse_header_body [OF assms] key_exchange_deduction
    by (subst parse_headers_loop.simps) (cases h, simp add: drop_bit_eq_div)
qed

lemma parse_headers_loop_message:
  "list_all header_ok hs \<Longrightarrow> parse_headers_loop e d (header_message hs) =
     Some (header_or e (Some \<circ> from_be_bytes) key_exchange hs, header_or d from_be_bytes key_deduction hs)"
proof (induction hs arbitrary: e d)
  case Nil
  show ?case by (subst parse_headers_loop.simps) (simp add: header_message_def)
next
  case (Cons h hs)
  then show ?case
    by (simp add: parse_headers_loop_step header_message_def)
qed

section \<open>Properties\<close>

text \<open>
  The stream reader returns exactly the body a frame was built from and leaves the rest of the
  stream; a body over the cap is refused with its length, and a stream that ends inside the body is an
  end-of-file error.
\<close>
theorem read_delimited_correct:
  assumes "length body < 2 ^ 64"
  shows "read_delimited cap (frame body @ rest) =
      (if cap < length body then Inl (MessageTooLarge (length body)) else Inr (body, rest))
    \<and> (n < length body \<and> length body \<le> cap \<longrightarrow>
       read_delimited cap (encode_varint (of_nat (length body)) @ take n body) = Inl UnexpectedEof)"
  using read_delimited_frame_cases [OF assms] read_delimited_truncated [OF assms] by auto

theorem read_delimited_correct_witness:
  "read_delimited 2 (frame [1, 2] @ [3]) = Inr ([1, 2], [3]) \<and> read_delimited 1 (frame [1, 2]) = Inl (MessageTooLarge 2)"
  using read_delimited_correct [of "[1, 2]" 2 "[3]"] read_delimited_correct [of "[1, 2]" 1 "[]"] by simp

text \<open>
  The client's two varint readers, the slice decoder and the stream reader, both invert its
  encoder for every 64-bit value, whatever follows it.
\<close>
theorem varint_roundtrip:
  "decode_varint (encode_varint v @ rest) = Some (v, rest) \<and> read_length 0 0 (encode_varint v @ rest) = Inr (v, rest)"
  by simp

text \<open>
  A payment-threshold announcement with unknown length-delimited fields before the threshold is read as
  the big-endian number of field 1, whatever follows it.
\<close>
theorem parse_announce_threshold_correct:
  assumes "tag AND 7 = 2" "drop_bit 3 tag \<noteq> 1" "length other < 2 ^ 64" "length v \<le> 32"
  shows "parse_announce_threshold (pb_bytes tag other @ pb_bytes 10 v @ rest) = Some (from_be_bytes v)
    \<and> unat (from_be_bytes v :: U256) = be_nat v"
proof -
  have "unat (from_be_bytes v :: U256) = be_nat v" using assms(4) by (intro unat_from_be_bytes) simp
  then show ?thesis
    by (simp only: parse_announce_threshold_skip [OF assms(1-3)] parse_announce_threshold_field [OF assms(4)])
qed

theorem parse_announce_threshold_correct_witness:
  "parse_announce_threshold (pb_bytes 18 [9] @ pb_bytes 10 [1, 0] @ []) = Some (from_be_bytes [1, 0])"
  using parse_announce_threshold_correct [of 18 "[9]" "[1, 0]" "[]"] by (simp add: drop_bit_eq_div)

text \<open>
  The pseudosettle payment the client sends and the acknowledgement it reads use the same
  encoding: reading back a payment message returns its amount, zero included.
\<close>
theorem payment_ack_roundtrip: "parse_ack_amount (payment_message amount) = Some amount"
  by (rule parse_ack_payment)

text \<open>
  The settlement headers of a peer are read field by field: for any list of headers the last
  exchange rate and the last deduction win, a missing deduction is zero, unknown headers are
  skipped, and headers without a rate are rejected.
\<close>
theorem parse_settlement_headers_correct:
  assumes "list_all header_ok hs"
  shows "parse_settlement_headers (header_message hs) =
    map_option (\<lambda>v. (from_be_bytes v, header_or 0 from_be_bytes key_deduction hs)) (map_of (rev hs) key_exchange)"
  using parse_headers_loop_message [OF assms, of None 0]
  by (cases "map_of (rev hs) key_exchange") (simp_all add: parse_settlement_headers_def header_or_def)

theorem parse_settlement_headers_correct_witness:
  "parse_settlement_headers (header_message [([7], [1]), (key_exchange, [2])]) = Some (2, 0)"
proof -
  have "length (header_body ([7], [1])) = 6" "length (header_body (key_exchange, [2])) = 13"
    by (simp_all add: header_body_def pb_bytes_def frame_def encode_varint_small key_exchange_def)
  then have "list_all header_ok [([7], [1]), (key_exchange, [2])]" by (simp add: header_ok_def)
  from parse_settlement_headers_correct [OF this] show ?thesis
    by (simp add: header_or_def from_be_bytes_def key_exchange_def key_deduction_def)
qed

end
