(* ===== verification/Resume.thy ===== *)
theory Resume
  imports Rust_Text
begin

text \<open>
  The resume sidecar of \<^verbatim>\<open>rust/ds-core/src/resume.rs\<close>: rendering and parsing of
  \<^verbatim>\<open><output>.ds-resume\<close>. The file has its own hexadecimal routines (\<open>hex_digit\<close>,
  \<open>parse_hex32\<close>); they also serve as a concrete instance of the hexadecimal codec contract.
\<close>

definition MAGIC :: string where
  "MAGIC = ''directswarm-resume v1''"

definition SIDECAR_SUFFIX :: string where
  "SIDECAR_SUFFIX = ''.ds-resume''"

record resume_state =
  rs_root :: bytes
  rs_offset :: u64

definition hex_digit :: "u8 \<Rightarrow> char" where
  "hex_digit nibble = digit_char (unat nibble)"

fun render_root :: "bytes \<Rightarrow> string" where
  "render_root [] = []"
| "render_root (b # bs) = hex_digit (drop_bit 4 b) # hex_digit (b AND 0x0F) # render_root bs"

definition render :: "resume_state \<Rightarrow> string" where
  "render s = MAGIC @ NL # ''root='' @ render_root (rs_root s) @ NL # ''offset='' @ show_uint (rs_offset s) @ [NL]"

fun parse_hex_pairs :: "nat \<Rightarrow> string \<Rightarrow> bytes option" where
  "parse_hex_pairs 0 s = Some []"
| "parse_hex_pairs (Suc n) (h # l # s) =
     (case to_digit 16 h of
        None \<Rightarrow> None
      | Some hi \<Rightarrow>
          (case to_digit 16 l of
             None \<Rightarrow> None
           | Some lo \<Rightarrow>
               (case parse_hex_pairs n s of
                  None \<Rightarrow> None
                | Some bs \<Rightarrow> Some (of_nat (hi * 16 + lo) # bs))))"
| "parse_hex_pairs (Suc n) _ = None"

definition is_ascii :: "string \<Rightarrow> bool" where
  "is_ascii s \<longleftrightarrow> list_all (\<lambda>c. (of_char c :: nat) < 128) s"

definition parse_hex32 :: "string \<Rightarrow> bytes option" where
  "parse_hex32 s = (if length s \<noteq> 64 \<or> \<not> is_ascii s then None else parse_hex_pairs 32 s)"

definition parse :: "string \<Rightarrow> resume_state option" where
  "parse text =
     (case str_lines text of
        l1 # ls1 \<Rightarrow>
          if l1 \<noteq> MAGIC then None
          else (case ls1 of
             l2 # ls2 \<Rightarrow>
               (case Option.bind (strip_prefix ''root='' l2) parse_hex32 of
                  None \<Rightarrow> None
                | Some root \<Rightarrow>
                    (case ls2 of
                       l3 # _ \<Rightarrow>
                         (case Option.bind (strip_prefix ''offset='' l3) parse_uint of
                            None \<Rightarrow> None
                          | Some offset \<Rightarrow> Some \<lparr>rs_root = root, rs_offset = offset\<rparr>)
                     | [] \<Rightarrow> None))
           | [] \<Rightarrow> None)
      | [] \<Rightarrow> None)"

section \<open>The module's own hexadecimal routines\<close>

lemma nibbles:
  "unat (drop_bit 4 (b :: u8)) < 16" "unat (b AND 0x0F :: u8) < 16"
  "unat (drop_bit 4 b) * 16 + unat (b AND 0x0F) = unat b"
proof -
  have b: "unat b < 256" using unsigned_less [of b] by simp
  have lo: "unat (b AND 0x0F) = unat b mod 16"
  proof -
    have "b AND 0x0F = take_bit 4 b"
      by (simp add: take_bit_eq_mask mask_eq_exp_minus_1)
    then show ?thesis by (simp add: take_bit_eq_mod unat_mod)
  qed
  have hi: "unat (drop_bit 4 b) = unat b div 16" by (simp add: unat_drop_bit)
  show "unat (drop_bit 4 b) < 16" using b by (simp add: hi less_mult_imp_div_less)
  show "unat (b AND 0x0F) < 16" by (simp add: lo)
  show "unat (drop_bit 4 b) * 16 + unat (b AND 0x0F) = unat b" by (simp add: hi lo)
qed

lemma length_render_root [simp]: "length (render_root bs) = 2 * length bs"
  by (induction bs) auto

lemma parse_render_root: "parse_hex_pairs (length bs) (render_root bs) = Some bs"
proof (induction bs)
  case (Cons b bs)
  then show ?case
    using nibbles [of b] by (simp add: hex_digit_def to_digit_digit_char)
qed simp

lemma parse_hex_pairs_length: "parse_hex_pairs n s = Some bs \<Longrightarrow> length bs = n"
  by (induction n s arbitrary: bs rule: parse_hex_pairs.induct) (auto split: option.splits)

lemma lower_digit_char: "d < 16 \<Longrightarrow> hex_char (digit_char d) \<and> ascii_lower (digit_char d) = digit_char d"
  by (auto simp: hex_char_def to_digit_digit_char ascii_lower_def digit_char_hex_code)

lemma lower_hex_render_root: "lower_hex (render_root bs)"
proof (induction bs)
  case (Cons b bs)
  then show ?case
    using nibbles [of b] by (simp add: hex_digit_def lower_hex_def lower_digit_char)
qed (simp add: lower_hex_def)

lemma render_root_chars: "c \<in> set (render_root bs) \<Longrightarrow> hex_char c"
  using lower_hex_render_root [of bs] by (simp add: lower_hex_def list_all_iff)

lemma hex_char_ascii: "hex_char c \<Longrightarrow> (of_char c :: nat) < 128"
  by (auto simp: hex_char_def to_digit_def Let_def split: if_splits)

lemma parse_hex32_render_root: "length bs = 32 \<Longrightarrow> parse_hex32 (render_root bs) = Some bs"
  using parse_render_root [of bs]
  by (auto simp: parse_hex32_def is_ascii_def list_all_iff dest!: render_root_chars hex_char_ascii)

interpretation own_hex: hex_codec render_root parse_hex_pairs
  by unfold_locales (auto simp: parse_render_root lower_hex_render_root parse_hex_pairs_length)

section \<open>Sidecar text\<close>

lemma render_unlines:
  "render s = unlines [MAGIC, ''root='' @ render_root (rs_root s), ''offset='' @ show_uint (rs_offset s)]"
  by (simp add: render_def unlines_Cons)

lemma lines_render:
  "str_lines (render s) = [MAGIC, ''root='' @ render_root (rs_root s), ''offset='' @ show_uint (rs_offset s)]"
proof -
  have "NL \<notin> set MAGIC \<and> CR \<notin> set MAGIC" by (simp add: MAGIC_def NL_def CR_def)
  moreover have "NL \<notin> set (''root='' @ render_root (rs_root s)) \<and> CR \<notin> set (''root='' @ render_root (rs_root s))"
    using own_hex.encode_no_sep(1,2) [of "rs_root s"] by (simp add: NL_def CR_def)
  moreover have "NL \<notin> set (''offset='' @ show_uint (rs_offset s)) \<and> CR \<notin> set (''offset='' @ show_uint (rs_offset s))"
    using decimal_no_sep(1,2) [OF decimal_show_uint [of "rs_offset s"]] by (simp add: NL_def CR_def)
  ultimately show ?thesis
    unfolding render_unlines by (intro str_lines_unlines) auto
qed

lemma parse_render_state: "length (rs_root s) = 32 \<Longrightarrow> parse (render s) = Some s"
  using strip_prefix_append [of "''root=''" "render_root (rs_root s)"]
    strip_prefix_append [of "''offset=''" "show_uint (rs_offset s)"]
  by (simp add: parse_def lines_render parse_hex32_render_root)

lemma parse_SomeD:
  assumes "parse text = Some s"
  obtains l2 l3 rest h where "str_lines text = MAGIC # l2 # l3 # rest"
    "l2 = ''root='' @ h" "parse_hex32 h = Some (rs_root s)" "length (rs_root s) = 32"
proof -
  from assms obtain l2 l3 rest where ls: "str_lines text = MAGIC # l2 # l3 # rest"
    and root: "Option.bind (strip_prefix ''root='' l2) parse_hex32 = Some (rs_root s)"
    by (auto simp: parse_def split: list.splits option.splits if_splits)
  from root obtain h where "strip_prefix ''root='' l2 = Some h" and h: "parse_hex32 h = Some (rs_root s)"
    by (auto simp: bind_eq_Some_conv)
  then have "l2 = ''root='' @ h" by (blast dest: strip_prefix_SomeD)
  moreover have "length (rs_root s) = 32"
    using h by (auto simp: parse_hex32_def dest: parse_hex_pairs_length split: if_splits)
  ultimately show ?thesis using that ls h by blast
qed

section \<open>Properties\<close>

text \<open>
  The resume sidecar round-trips: parsing the text rendered for a state with a 32-byte root
  returns that state, for every offset.
\<close>
theorem resume_roundtrip:
  assumes "length (rs_root s) = 32"
  shows "parse (render s) = Some s"
  using assms by (rule parse_render_state)

theorem resume_roundtrip_witness:
  "parse (render \<lparr>rs_root = replicate 32 0xAB, rs_offset = 4096\<rparr>) = Some \<lparr>rs_root = replicate 32 0xAB, rs_offset = 4096\<rparr>"
  by (rule resume_roundtrip) simp

text \<open>
  Whatever text the sidecar holds, a successful parse means its first line is the magic line,
  its second line names the root in hexadecimal, and the root has 32 bytes; a file with another
  magic is rejected.
\<close>
theorem resume_parse_sound:
  assumes "parse txt = Some s"
  shows "\<exists>h l3 rest. str_lines txt = MAGIC # (''root='' @ h) # l3 # rest
    \<and> parse_hex32 h = Some (rs_root s) \<and> length (rs_root s) = 32"
  using parse_SomeD [OF assms] by metis

theorem resume_parse_sound_witness:
  "\<exists>h l3 rest. str_lines (render \<lparr>rs_root = replicate 32 0xAB, rs_offset = 4096\<rparr>) = MAGIC # (''root='' @ h) # l3 # rest"
  using resume_parse_sound [of "render \<lparr>rs_root = replicate 32 0xAB, rs_offset = 4096\<rparr>"
      "\<lparr>rs_root = replicate 32 0xAB, rs_offset = 4096\<rparr>"]
    parse_render_state [of "\<lparr>rs_root = replicate 32 0xAB, rs_offset = 4096\<rparr>"] by auto

end
