(* ===== verification/Ledger.thy ===== *)
theory Ledger
  imports Resume
begin

text \<open>
  The outbound cheque ledger (\<^verbatim>\<open>rust/ds-net/src/ledger.rs\<close>): an in-memory map from the
  hexadecimal beneficiary to the highest cumulative payout, a dirty flag, and a background
  persister that snapshots the map and rewrites a JSON file through a temporary file and a rename.
  The \<open>hex\<close> crate and the decimal form of \<open>U256\<close> are parameters (\<open>hex_encode\<close>, \<open>u256_show\<close>,
  \<open>from_dec_str\<close>). The mutex is never poisoned (no holder panics), so the lock always succeeds.
\<close>

section \<open>Ledger file\<close>

definition QUOTE :: char where "QUOTE = CHR 0x22"

type_synonym ledger_map = "(string, U256) hash_map"

fun load_parts :: "(string \<Rightarrow> U256 option) \<Rightarrow> string list \<Rightarrow> ledger_map \<Rightarrow> ledger_map" where
  "load_parts from_dec_str (p0 # key # p1 # v # parts) out =
     load_parts from_dec_str parts
       (if length key = 40 \<and> list_all hex_char key then
          (case from_dec_str (str_trim v) of
             Some n \<Rightarrow> hm_insert (map ascii_lower key) n out
           | None \<Rightarrow> out)
        else out)"
| "load_parts from_dec_str _ out = out"

definition load_map :: "(string \<Rightarrow> U256 option) \<Rightarrow> string option \<Rightarrow> ledger_map" where
  "load_map from_dec_str file =
     (case file of None \<Rightarrow> [] | Some txt \<Rightarrow> load_parts from_dec_str (split_on QUOTE txt) [])"

fun body_entries :: "(U256 \<Rightarrow> string) \<Rightarrow> nat \<Rightarrow> ledger_map \<Rightarrow> string" where
  "body_entries u256_show i [] = []"
| "body_entries u256_show i ((k, v) # entries) =
     (if i = 0 then [] else [CHR '','', NL]) @ ''  '' @ [QUOTE] @ k @ [QUOTE] @ '': '' @ [QUOTE]
     @ u256_show v @ [QUOTE] @ body_entries u256_show (Suc i) entries"

definition ledger_body :: "(U256 \<Rightarrow> string) \<Rightarrow> ledger_map \<Rightarrow> string" where
  "ledger_body u256_show entries = [CHR ''{'', NL] @ body_entries u256_show 0 entries @ [NL, CHR ''}'']"

definition persist_map ::
  "io_fault \<Rightarrow> (U256 \<Rightarrow> string) \<Rightarrow> ledger_map \<Rightarrow> disk \<Rightarrow> (io_fault, unit) result \<times> disk" where
  "persist_map fault u256_show entries d = replace_file fault (ledger_body u256_show entries) d"

section \<open>Ledger operations\<close>

record fast_ledger =
  fl_map :: ledger_map
  fl_dirty :: bool

definition ledger_open :: "(string \<Rightarrow> U256 option) \<Rightarrow> disk \<Rightarrow> fast_ledger" where
  "ledger_open from_dec_str d = \<lparr>fl_map = load_map from_dec_str (dk_file d), fl_dirty = False\<rparr>"

definition cumulative_for :: "(bytes \<Rightarrow> string) \<Rightarrow> bytes \<Rightarrow> fast_ledger \<Rightarrow> U256" where
  "cumulative_for hex_encode beneficiary l = hm_get_or (fl_map l) 0 (hex_encode beneficiary)"

definition record_insert :: "(bytes \<Rightarrow> string) \<Rightarrow> bytes \<Rightarrow> U256 \<Rightarrow> fast_ledger \<Rightarrow> fast_ledger" where
  "record_insert hex_encode beneficiary c l =
     l\<lparr>fl_map := hm_insert (hex_encode beneficiary) c (fl_map l)\<rparr>"

definition mark_dirty :: "fast_ledger \<Rightarrow> fast_ledger" where
  "mark_dirty l = l\<lparr>fl_dirty := True\<rparr>"

definition record_issued :: "(bytes \<Rightarrow> string) \<Rightarrow> bytes \<Rightarrow> U256 \<Rightarrow> fast_ledger \<Rightarrow> fast_ledger" where
  "record_issued hex_encode beneficiary c l = mark_dirty (record_insert hex_encode beneficiary c l)"

definition ledger_snapshot :: "fast_ledger \<Rightarrow> ledger_map" where
  "ledger_snapshot l = fl_map l"

definition flush :: "io_fault \<Rightarrow> (U256 \<Rightarrow> string) \<Rightarrow> fast_ledger \<times> disk \<Rightarrow>
    (io_fault, unit) result \<times> fast_ledger \<times> disk" where
  "flush fault u256_show st =
     (let l = (fst st)\<lparr>fl_dirty := False\<rparr>;
          (r, d) = persist_map fault u256_show (ledger_snapshot l) (snd st)
      in (r, l, d))"

section \<open>Background persister\<close>

text \<open>
  One iteration of the persister's loop in the steps other tasks can interleave with: the sleep
  ends and \<open>swap\<close> clears the flag, the map is snapshotted, the blocking task writes the file, and
  a failed write sets the flag again. \<open>ls_marking\<close> counts \<open>record_issued\<close> calls between their
  insertion and their store of the flag.
\<close>

datatype persister = Sleeping | Swapped | Writing ledger_map | WriteFailed

record ledger_system =
  ls_ledger :: fast_ledger
  ls_disk :: disk
  ls_persister :: persister
  ls_marking :: nat

inductive ledger_step :: "(bytes \<Rightarrow> string) \<Rightarrow> (U256 \<Rightarrow> string) \<Rightarrow> ledger_system \<Rightarrow> ledger_system \<Rightarrow> bool"
  for hex_encode u256_show where
  insert: "length b = 20 \<Longrightarrow> ledger_step hex_encode u256_show s
     (s\<lparr>ls_ledger := record_insert hex_encode b c (ls_ledger s), ls_marking := Suc (ls_marking s)\<rparr>)"
| mark: "ls_marking s = Suc n \<Longrightarrow> ledger_step hex_encode u256_show s
     (s\<lparr>ls_ledger := mark_dirty (ls_ledger s), ls_marking := n\<rparr>)"
| swap: "ls_persister s = Sleeping \<Longrightarrow> fl_dirty (ls_ledger s) \<Longrightarrow> ledger_step hex_encode u256_show s
     (s\<lparr>ls_ledger := (ls_ledger s)\<lparr>fl_dirty := False\<rparr>, ls_persister := Swapped\<rparr>)"
| snap: "ls_persister s = Swapped \<Longrightarrow> ledger_step hex_encode u256_show s
     (s\<lparr>ls_persister := Writing (ledger_snapshot (ls_ledger s))\<rparr>)"
| write_ok: "ls_persister s = Writing m \<Longrightarrow> persist_map NoFault u256_show m (ls_disk s) = (Inr (), d) \<Longrightarrow>
     ledger_step hex_encode u256_show s (s\<lparr>ls_disk := d, ls_persister := Sleeping\<rparr>)"
| write_err: "ls_persister s = Writing m \<Longrightarrow> persist_map f u256_show m (ls_disk s) = (Inl e, d) \<Longrightarrow>
     ledger_step hex_encode u256_show s (s\<lparr>ls_disk := d, ls_persister := WriteFailed\<rparr>)"
| retry: "ls_persister s = WriteFailed \<Longrightarrow> ledger_step hex_encode u256_show s
     (s\<lparr>ls_ledger := mark_dirty (ls_ledger s), ls_persister := Sleeping\<rparr>)"

text \<open>\<open>flush\<close> runs on the caller's thread, whatever the persister is doing.\<close>

definition flush_step :: "io_fault \<Rightarrow> (U256 \<Rightarrow> string) \<Rightarrow> ledger_system \<Rightarrow> ledger_system" where
  "flush_step fault u256_show s =
     (case flush fault u256_show (ls_ledger s, ls_disk s) of
        (_, l, d) \<Rightarrow> s\<lparr>ls_ledger := l, ls_disk := d\<rparr>)"

definition ledger_start :: "(string \<Rightarrow> U256 option) \<Rightarrow> disk \<Rightarrow> ledger_system" where
  "ledger_start from_dec_str d =
     \<lparr>ls_ledger = ledger_open from_dec_str d, ls_disk = d, ls_persister = Sleeping, ls_marking = 0\<rparr>"

section \<open>File round trip\<close>

definition ledger_key :: "string \<Rightarrow> bool" where
  "ledger_key k \<longleftrightarrow> length k = 40 \<and> lower_hex k"

lemma ledger_key_hex: "ledger_key k \<Longrightarrow> list_all hex_char k"
  by (simp add: ledger_key_def lower_hex_def list_all_iff)

lemma ledger_key_lower: "ledger_key k \<Longrightarrow> map ascii_lower k = k"
  by (simp add: ledger_key_def lower_hex_def list_all_iff map_idI)

lemma ledger_key_no_quote: "ledger_key k \<Longrightarrow> QUOTE \<notin> set k"
  using not_hex_seps(4) by (auto simp: ledger_key_def lower_hex_def list_all_iff QUOTE_def)

lemma load_body_entries:
  assumes dec: "decimal_codec u256_show from_dec_str"
  shows "QUOTE \<notin> set pre \<Longrightarrow> QUOTE \<notin> set suf \<Longrightarrow> \<forall>(k, v) \<in> set es. ledger_key k \<Longrightarrow>
    load_parts from_dec_str (split_on QUOTE (pre @ body_entries u256_show i es @ suf)) out
      = foldl (\<lambda>m (k, v). hm_insert k v m) out es"
proof (induction es arbitrary: pre i out)
  case Nil
  then show ?case by (simp add: split_on_no_sep)
next
  case (Cons e es)
  obtain k v where e: "e = (k, v)" by force
  let ?pre = "pre @ (if i = 0 then [] else [CHR '','', NL]) @ ''  ''"
  have q: "QUOTE \<notin> set ?pre" using Cons.prems by (simp add: QUOTE_def NL_def)
  have k: "ledger_key k" using Cons.prems e by simp
  have v: "QUOTE \<notin> set (u256_show v)"
    using decimal_no_sep(4) [OF decimal_codec.show_decimal [OF dec]] by (simp add: QUOTE_def)
  have colon: "QUOTE \<notin> set '': ''" by (simp add: QUOTE_def)
  let ?rest = "body_entries u256_show (Suc i) es @ suf"
  have "split_on QUOTE (pre @ body_entries u256_show i (e # es) @ suf)
      = split_on QUOTE (?pre @ QUOTE # k @ QUOTE # '': '' @ QUOTE # u256_show v @ QUOTE # ?rest)"
    by (simp add: e)
  also have "\<dots> = ?pre # k # '': '' # u256_show v # split_on QUOTE ([] @ ?rest)"
    by (simp only: split_on_append [OF q] split_on_append [OF ledger_key_no_quote [OF k]]
        split_on_append [OF v] split_on_append [OF colon] append_Nil)
  finally show ?case
    using Cons.IH [of "[]" "Suc i"] Cons.prems k ledger_key_hex [OF k] ledger_key_lower [OF k]
    by (simp add: e decimal_codec.show_trim [OF dec] decimal_codec.parse_show [OF dec] ledger_key_def)
qed

definition ledger_map_ok :: "ledger_map \<Rightarrow> bool" where
  "ledger_map_ok m \<longleftrightarrow> hm_wf m \<and> list_all (ledger_key \<circ> fst) m"

lemma load_ledger_body:
  assumes "decimal_codec u256_show from_dec_str" "ledger_map_ok m"
  shows "hm_get (load_map from_dec_str (Some (ledger_body u256_show m))) = hm_get m"
proof
  fix k
  have "\<forall>(k, v) \<in> set m. ledger_key k"
    using assms(2) by (auto simp: ledger_map_ok_def list_all_iff)
  then have "load_map from_dec_str (Some (ledger_body u256_show m)) = hm_of_list m"
    unfolding load_map_def ledger_body_def option.case hm_of_list_def
    by (intro load_body_entries [OF assms(1)]) (simp_all add: QUOTE_def NL_def)
  then show "hm_get (load_map from_dec_str (Some (ledger_body u256_show m))) k = hm_get m k"
    using assms(2) by (simp add: hm_get_of_list_wf ledger_map_ok_def)
qed

lemma ledger_map_ok_keys: "ledger_map_ok m \<longleftrightarrow> hm_wf m \<and> (\<forall>k \<in> hm_keys m. ledger_key k)"
  by (simp add: ledger_map_ok_def list_all_iff)

lemma ledger_map_ok_insert: "ledger_map_ok m \<Longrightarrow> ledger_key k \<Longrightarrow> ledger_map_ok (hm_insert k v m)"
  by (simp add: ledger_map_ok_keys hm_keys_insert)

lemma ascii_lower_hex: "hex_char c \<Longrightarrow> hex_char (ascii_lower c) \<and> ascii_lower (ascii_lower c) = ascii_lower c"
  by (auto simp: hex_char_def to_digit_def ascii_lower_def Let_def split: if_splits)

lemma ledger_key_lowered: "length k = 40 \<Longrightarrow> list_all hex_char k \<Longrightarrow> ledger_key (map ascii_lower k)"
  by (auto simp: ledger_key_def lower_hex_def list_all_iff ascii_lower_hex)

lemma load_parts_ok: "ledger_map_ok out \<Longrightarrow> ledger_map_ok (load_parts p parts out)"
proof (induction p parts out rule: load_parts.induct)
  case (1 p p0 key p1 v parts out)
  show ?case
    unfolding load_parts.simps
    by (rule "1.IH") (use "1.prems" in \<open>auto split: option.split intro!: ledger_map_ok_insert ledger_key_lowered\<close>)
qed simp_all

lemma ledger_map_ok_Nil [simp]: "ledger_map_ok []"
  by (simp add: ledger_map_ok_def)

lemma load_map_ok: "ledger_map_ok (load_map p t)"
  by (cases t) (simp_all add: load_map_def load_parts_ok)

section \<open>Persister invariant\<close>

definition in_sync :: "(string \<Rightarrow> U256 option) \<Rightarrow> disk \<Rightarrow> fast_ledger \<Rightarrow> bool" where
  "in_sync from_dec_str d l \<longleftrightarrow> hm_get (load_map from_dec_str (dk_file d)) = hm_get (fl_map l)"

definition quiet :: "ledger_system \<Rightarrow> bool" where
  "quiet s \<longleftrightarrow> \<not> fl_dirty (ls_ledger s) \<and> ls_marking s = 0"

definition ledger_inv :: "(string \<Rightarrow> U256 option) \<Rightarrow> ledger_system \<Rightarrow> bool" where
  "ledger_inv from_dec_str s \<longleftrightarrow> ledger_map_ok (fl_map (ls_ledger s)) \<and>
     (case ls_persister s of
        Sleeping \<Rightarrow> quiet s \<longrightarrow> in_sync from_dec_str (ls_disk s) (ls_ledger s)
      | Writing m \<Rightarrow> ledger_map_ok m \<and> (quiet s \<longrightarrow> m = fl_map (ls_ledger s))
      | _ \<Rightarrow> True)"

lemma hex_ledger_key:
  "hex_codec hex_encode hex_decode \<Longrightarrow> length b = 20 \<Longrightarrow> ledger_key (hex_encode b)"
  by (simp add: ledger_key_def hex_codec.encode_length hex_codec.encode_lower)

lemma ledger_start_inv: "ledger_inv from_dec_str (ledger_start from_dec_str d)"
  by (simp add: ledger_inv_def ledger_start_def ledger_open_def in_sync_def load_map_ok)

lemma ledger_step_inv:
  assumes codecs: "hex_codec hex_encode hex_decode" "decimal_codec u256_show from_dec_str"
    and step: "ledger_step hex_encode u256_show s s'" and inv: "ledger_inv from_dec_str s"
  shows "ledger_inv from_dec_str s'"
  using step
proof cases
  case (insert b c)
  then have "ledger_key (hex_encode b)" using codecs(1) by (blast intro: hex_ledger_key)
  with insert inv show ?thesis
    by (auto simp: ledger_inv_def record_insert_def quiet_def ledger_map_ok_insert split: persister.splits)
next
  case (write_ok m d)
  then have "ledger_map_ok m" "quiet s \<Longrightarrow> m = fl_map (ls_ledger s)" "ledger_map_ok (fl_map (ls_ledger s))"
    using inv by (auto simp: ledger_inv_def)
  with write_ok codecs(2) show ?thesis
    by (auto simp: ledger_inv_def quiet_def in_sync_def persist_map_def replace_file_def load_ledger_body)
qed (use inv in \<open>auto simp: ledger_inv_def quiet_def mark_dirty_def ledger_snapshot_def split: persister.splits\<close>)

lemma ledger_reachable_inv:
  assumes "hex_codec hex_encode hex_decode" "decimal_codec u256_show from_dec_str"
    and "(ledger_step hex_encode u256_show)\<^sup>*\<^sup>* (ledger_start from_dec_str d) s"
  shows "ledger_inv from_dec_str s"
  using assms(3) by (induction rule: rtranclp_induct) (auto intro: ledger_start_inv ledger_step_inv [OF assms(1,2)])

lemma reopen_cumulative:
  "in_sync from_dec_str d l \<Longrightarrow>
   cumulative_for hex_encode b (ledger_open from_dec_str d) = cumulative_for hex_encode b l"
  by (simp add: cumulative_for_def ledger_open_def hm_get_or_def in_sync_def)

section \<open>Properties\<close>

text \<open>
  C21 After any interleaving of \<open>record_issued\<close> calls and persister steps, with any failing system
  calls, a clear flag with the persister asleep and no call half-way means that reopening the
  ledger from disk gives every beneficiary the cumulative payout held in memory.
\<close>
theorem ledger_no_lost_update:
  assumes "hex_codec hex_encode hex_decode" "decimal_codec u256_show from_dec_str"
    and "(ledger_step hex_encode u256_show)\<^sup>*\<^sup>* (ledger_start from_dec_str d) s"
    and "ls_persister s = Sleeping" "\<not> fl_dirty (ls_ledger s)" "ls_marking s = 0"
  shows "cumulative_for hex_encode b (ledger_open from_dec_str (ls_disk s))
    = cumulative_for hex_encode b (ls_ledger s)"
  using ledger_reachable_inv [OF assms(1-3)] assms(4-6)
  by (intro reopen_cumulative) (simp add: ledger_inv_def quiet_def)

lemma ledger_cycle:
  assumes "length b = 20" "d = \<lparr>dk_file = None, dk_tmp = None\<rparr>"
  shows "(ledger_step h u)\<^sup>*\<^sup>* (ledger_start p d)
    \<lparr>ls_ledger = \<lparr>fl_map = [(h b, c)], fl_dirty = False\<rparr>,
     ls_disk = \<lparr>dk_file = Some (ledger_body u [(h b, c)]), dk_tmp = None\<rparr>,
     ls_persister = Sleeping, ls_marking = 0\<rparr>" (is "rtranclp _ ?init ?final")
proof -
  let ?l = "\<lambda>f. \<lparr>fl_map = [(h b, c)], fl_dirty = f\<rparr>"
  let ?st = "\<lambda>f p n. \<lparr>ls_ledger = ?l f, ls_disk = d, ls_persister = p, ls_marking = n\<rparr>"
  have "ledger_step h u ?init (?st False Sleeping 1)"
    using ledger_step.insert [OF assms(1), of h u ?init c]
    by (simp add: ledger_start_def ledger_open_def record_insert_def load_map_def hm_insert_def assms(2))
  moreover have "ledger_step h u (?st False Sleeping 1) (?st True Sleeping 0)"
    using ledger_step.mark [of "?st False Sleeping 1" 0 h u] by (simp add: mark_dirty_def)
  moreover have "ledger_step h u (?st True Sleeping 0) (?st False Swapped 0)"
    using ledger_step.swap [of "?st True Sleeping 0" h u] by simp
  moreover have "ledger_step h u (?st False Swapped 0) (?st False (Writing [(h b, c)]) 0)"
    using ledger_step.snap [of "?st False Swapped 0" h u] by (simp add: ledger_snapshot_def)
  moreover have "ledger_step h u (?st False (Writing [(h b, c)]) 0) ?final"
    using ledger_step.write_ok [of "?st False (Writing [(h b, c)]) 0" "[(h b, c)]" u _ h]
    by (simp add: persist_map_def replace_file_def assms(2))
  ultimately show ?thesis by (meson converse_rtranclp_into_rtranclp rtranclp.rtrancl_refl)
qed

theorem ledger_no_lost_update_witness:
  "cumulative_for render_root (replicate 20 7) (ledger_open parse_uint
     \<lparr>dk_file = Some (ledger_body show_uint [(render_root (replicate 20 7), 5)]), dk_tmp = None\<rparr>) = 5"
  by (subst ledger_no_lost_update [OF own_hex.hex_codec_axioms std_num.decimal_codec_axioms
      ledger_cycle [where b = "replicate 20 7" and c = 5], simplified])
    (simp_all add: cumulative_for_def hm_get_or_def)

text \<open>
  C22 A successful \<open>flush\<close> of a ledger that started from any file and issued any cheques makes the
  file hold exactly the in-memory cumulative payouts; a failed one leaves the old file intact.
\<close>
theorem flush_reopen:
  assumes "decimal_codec u256_show from_dec_str" "ledger_map_ok (fl_map l)"
    and "flush fault u256_show (l, d) = (r, l', d')"
  shows "(r = Inr () \<longleftrightarrow> fault = NoFault) \<and> fl_map l' = fl_map l \<and>
    (r = Inr () \<longrightarrow> cumulative_for hex_encode b (ledger_open from_dec_str d') = cumulative_for hex_encode b l) \<and>
    (r \<noteq> Inr () \<longrightarrow> dk_file d' = dk_file d)"
proof -
  have "r = fst (persist_map fault u256_show (fl_map l) d)" "l' = l\<lparr>fl_dirty := False\<rparr>"
    "d' = snd (persist_map fault u256_show (fl_map l) d)"
    using assms(3) by (simp_all add: flush_def ledger_snapshot_def Let_def split: prod.splits)
  moreover have "in_sync from_dec_str d' l" if "fault = NoFault"
    using that load_ledger_body [OF assms(1,2)] calculation by (simp add: in_sync_def persist_map_def replace_file_atomic)
  ultimately show ?thesis
    by (simp add: persist_map_def replace_file_atomic reopen_cumulative)
qed

theorem flush_reopen_witness:
  "\<exists>l d. flush NoFault show_uint
       (record_issued render_root (replicate 20 7) 5 \<lparr>fl_map = [], fl_dirty = False\<rparr>,
        \<lparr>dk_file = None, dk_tmp = None\<rparr>) = (Inr (), l, d)
     \<and> cumulative_for render_root (replicate 20 7) (ledger_open parse_uint d) = 5"
proof -
  let ?l = "record_issued render_root (replicate 20 7) 5 \<lparr>fl_map = [], fl_dirty = False\<rparr>"
  obtain l d where f: "flush NoFault show_uint (?l, \<lparr>dk_file = None, dk_tmp = None\<rparr>) = (Inr (), l, d)"
    by (simp add: flush_def persist_map_def replace_file_def Let_def)
  have "ledger_key (render_root (replicate 20 7))"
    by (rule hex_ledger_key [OF own_hex.hex_codec_axioms]) simp
  then have "ledger_map_ok (fl_map ?l)"
    by (simp add: record_issued_def mark_dirty_def record_insert_def ledger_map_ok_insert)
  from flush_reopen [OF std_num.decimal_codec_axioms this f, of render_root "replicate 20 7"] f
  show ?thesis
    by (simp add: record_issued_def mark_dirty_def record_insert_def cumulative_for_def hm_simps)
qed

text \<open>
  A \<open>flush\<close> while the persister still holds an older snapshot is undone by it: the blocking write
  finishes afterwards, the file holds the older map, and the flag is clear.
\<close>
theorem flush_race_stale:
  assumes "ls_persister s = Writing m"
  shows "\<exists>s'. ledger_step hex_encode u256_show (flush_step NoFault u256_show s) s' \<and>
    ls_persister s' = Sleeping \<and> \<not> fl_dirty (ls_ledger s') \<and>
    dk_file (ls_disk s') = Some (ledger_body u256_show m)"
proof -
  let ?s = "flush_step NoFault u256_show s"
  have w: "ls_persister ?s = Writing m" and d: "\<not> fl_dirty (ls_ledger ?s)"
    using assms by (simp_all add: flush_step_def flush_def persist_map_def replace_file_def Let_def)
  let ?d = "snd (persist_map NoFault u256_show m (ls_disk ?s))"
  have p: "persist_map NoFault u256_show m (ls_disk ?s) = (Inr (), ?d)"
    by (simp add: persist_map_def replace_file_def)
  from ledger_step.write_ok [OF w p] d show ?thesis
    by (intro exI [of _ "?s\<lparr>ls_disk := ?d, ls_persister := Sleeping\<rparr>"]) (simp add: persist_map_def replace_file_def)
qed

theorem flush_race_stale_witness:
  "\<exists>s'. ledger_step render_root show_uint
      (flush_step NoFault show_uint
        \<lparr>ls_ledger = \<lparr>fl_map = [(render_root (replicate 20 7), 9)], fl_dirty = True\<rparr>,
         ls_disk = \<lparr>dk_file = None, dk_tmp = None\<rparr>,
         ls_persister = Writing [(render_root (replicate 20 7), 5)], ls_marking = 0\<rparr>) s' \<and>
    ls_persister s' = Sleeping \<and> \<not> fl_dirty (ls_ledger s') \<and>
    dk_file (ls_disk s') = Some (ledger_body show_uint [(render_root (replicate 20 7), 5)])"
  by (rule flush_race_stale) simp

end
