(* ===== verification/Cheque.thy ===== *)
theory Cheque
  imports Wire Ledger
begin

text \<open>
  Emission of a settlement cheque (\<^verbatim>\<open>emit_settlement_cheque\<close>, \<^verbatim>\<open>emit_cheque_at_rate\<close> and
  \<^verbatim>\<open>settlement_loop\<close> of \<^verbatim>\<open>rust/ds-net/src/direct.rs\<close>): the announced exchange rate is read
  from the peer's headers, the amount is reserved against the global spend counter, the cumulative
  payout is checked against the chequebook's issuable amount, the signed cheque is sent and only
  then recorded in the ledger; every failure after the reservation gives it back.

  The peer and the network are an \<open>emit_env\<close>: whether the stream opens, whether the dialer headers
  can be written, the bytes the peer answers with, and whether the frame can be sent. Signing
  (\<open>ant_p2p::swap::issue_cheque\<close>), \<open>hex\<close>, base64 and the decimal form of \<open>U256\<close> are parameters.
  The atomic counter is shared by all connections; \<open>spend_step\<close> is its interleaved use.
\<close>

section \<open>Amounts\<close>

datatype emit_error =
  OpenStream | HeaderWrite | HeaderRead io_error | NoRateHeader | ZeroRate | AmountOverflow
| AmountExceedsU128 | SpendGuard | CumulativeOverflow | CachedInvariant | SignFailed | SendFailed

record emit_env =
  ev_open :: bool
  ev_header_write :: bool
  ev_stream :: bytes
  ev_send :: bool

record cheque_emit =
  ce_beneficiary :: bytes
  ce_debt_units :: u64
  ce_issuable :: U256
  ce_max_issue_plur :: u64

record rate_emit_outcome =
  eo_plur :: u128
  eo_plur_u256 :: U256
  eo_rate :: u128
  eo_cumulative :: U256

definition try_from_or_max :: "'a::len word \<Rightarrow> 'b::len word" where
  "try_from_or_max w = (case try_word (unat w) of Some v \<Rightarrow> v | None \<Rightarrow> - 1)"

definition cheque_amount :: "emit_env \<Rightarrow> u64 \<Rightarrow> (emit_error, U256 \<times> U256 \<times> u128 \<times> u64) result" where
  "cheque_amount env debt_units =
     (if \<not> ev_open env then Inl OpenStream
      else if \<not> ev_header_write env then Inl HeaderWrite
      else case read_delimited (8 * 1024) (ev_stream env) of
        Inl e \<Rightarrow> Inl (HeaderRead e)
      | Inr (response_headers, _) \<Rightarrow>
          (case parse_settlement_headers response_headers of
             None \<Rightarrow> Inl NoRateHeader
           | Some (rate, deduction) \<Rightarrow>
               if rate = 0 then Inl ZeroRate
               else case Option.bind (checked_mul rate (ucast debt_units)) (\<lambda>v. checked_add v deduction) of
                 None \<Rightarrow> Inl AmountOverflow
               | Some plur \<Rightarrow>
                   (case try_word (unat plur) of
                      None \<Rightarrow> Inl AmountExceedsU128
                    | Some plur_u128 \<Rightarrow> Inr (rate, plur, plur_u128, try_from_or_max plur_u128))))"

section \<open>Spend guard and emission\<close>

record spend_state =
  sp_issued :: u64
  sp_ledger :: fast_ledger

definition fetch_add :: "u64 \<Rightarrow> u64 \<Rightarrow> u64 \<times> u64" where
  "fetch_add counter n = (counter, counter + n)"

definition spend_admits :: "u64 \<Rightarrow> u64 \<Rightarrow> u64 \<Rightarrow> bool" where
  "spend_admits max_issue_plur before plur_u64 \<longleftrightarrow> \<not> max_issue_plur < sat_add before plur_u64"

type_synonym cheque_tools = "(bytes \<Rightarrow> string) \<times> (U256 \<Rightarrow> string) \<times> (bytes \<Rightarrow> string)
  \<times> (bytes \<Rightarrow> U256 \<Rightarrow> signed_cheque option)"

definition issue_and_send ::
  "cheque_tools \<Rightarrow> cheque_emit \<Rightarrow> emit_env \<Rightarrow> U256 \<Rightarrow> fast_ledger \<Rightarrow>
   (emit_error, U256 \<times> bytes) result \<times> fast_ledger" where
  "issue_and_send tools e env plur ledger =
     (case tools of (hex_encode, u256_show, base64, issue_cheque) \<Rightarrow>
      let prev = cumulative_for hex_encode (ce_beneficiary e) ledger in
      case checked_add prev plur of
        None \<Rightarrow> (Inl CumulativeOverflow, ledger)
      | Some cumulative \<Rightarrow>
          if ce_issuable e < cumulative then (Inl CachedInvariant, ledger)
          else (case issue_cheque (ce_beneficiary e) cumulative of
             None \<Rightarrow> (Inl SignFailed, ledger)
           | Some sc \<Rightarrow>
               let out = emit_cheque_frame (encode_cheque_json_bee hex_encode u256_show base64 sc) in
               if \<not> ev_send env then (Inl SendFailed, ledger)
               else (Inr (cumulative, out), record_issued hex_encode (ce_beneficiary e) cumulative ledger)))"

definition emit_settlement_cheque ::
  "cheque_tools \<Rightarrow> cheque_emit \<Rightarrow> emit_env \<Rightarrow> spend_state \<Rightarrow>
   (emit_error, rate_emit_outcome \<times> bytes) result \<times> spend_state" where
  "emit_settlement_cheque tools e env s =
     (case cheque_amount env (ce_debt_units e) of
        Inl err \<Rightarrow> (Inl err, s)
      | Inr (rate, plur, plur_u128, plur_u64) \<Rightarrow>
          let (before, now) = fetch_add (sp_issued s) plur_u64;
              s1 = s\<lparr>sp_issued := now\<rparr>
          in if \<not> spend_admits (ce_max_issue_plur e) before plur_u64
             then (Inl SpendGuard, s1\<lparr>sp_issued := sp_issued s1 - plur_u64\<rparr>)
             else case issue_and_send tools e env plur (sp_ledger s1) of
               (Inl err, l) \<Rightarrow> (Inl err, s1\<lparr>sp_issued := sp_issued s1 - plur_u64, sp_ledger := l\<rparr>)
             | (Inr (cumulative, out), l) \<Rightarrow>
                 (Inr (\<lparr>eo_plur = plur_u128, eo_plur_u256 = plur, eo_rate = try_from_or_max rate,
                        eo_cumulative = cumulative\<rparr>, out), s1\<lparr>sp_ledger := l\<rparr>))"

section \<open>Sequential behaviour\<close>

lemma cheque_amount_exact:
  assumes "cheque_amount env debt = Inr (rate, plur, p128, p64)"
  shows "\<exists>hdrs rest deduction. read_delimited 8192 (ev_stream env) = Inr (hdrs, rest)
    \<and> parse_settlement_headers hdrs = Some (rate, deduction) \<and> rate \<noteq> 0
    \<and> unat plur = unat rate * unat debt + unat deduction \<and> unat p128 = unat plur
    \<and> unat p64 = min (unat plur) (2 ^ 64 - 1)"
proof -
  from assms obtain hdrs rest deduction v where
    r: "read_delimited (8 * 1024) (ev_stream env) = Inr (hdrs, rest)"
      "parse_settlement_headers hdrs = Some (rate, deduction)" "rate \<noteq> 0"
    and v: "checked_mul rate (ucast debt) = Some v" and p: "checked_add v deduction = Some plur"
    and w: "try_word (unat plur) = Some p128" and p64: "p64 = try_from_or_max p128"
    by (auto simp: cheque_amount_def bind_eq_Some_conv split: if_splits sum.splits option.splits prod.splits)
  have "unat (ucast debt :: U256) = unat debt"
    using u64_less [of debt] by (simp add: unsigned_ucast_eq take_bit_nat_eq_self)
  then have "unat plur = unat rate * unat debt + unat deduction"
    using checked_mul_SomeD [OF v] checked_add_SomeD [OF p] by simp
  moreover have "unat p64 = min (unat p128) (2 ^ 64 - 1)"
    by (auto simp: p64 try_from_or_max_def try_word_def unat_minus_one_word unsigned_ucast_eq
        take_bit_nat_eq_self)
  ultimately show ?thesis
    using r try_word_SomeD [OF w] by simp
qed

lemma issue_and_send_ok:
  assumes "issue_and_send (henc, ushow, b64, sign) e env plur l = (Inr (c, out), l')"
  shows "unat c = unat (cumulative_for henc (ce_beneficiary e) l) + unat plur \<and> c \<le> ce_issuable e
    \<and> l' = record_issued henc (ce_beneficiary e) c l
    \<and> (\<exists>sc. sign (ce_beneficiary e) c = Some sc
         \<and> out = emit_cheque_frame (encode_cheque_json_bee henc ushow b64 sc))"
  using assms
  by (auto simp: issue_and_send_def Let_def not_less dest: checked_add_SomeD split: option.splits if_splits)

lemma issue_and_send_err: "issue_and_send tools e env plur l = (Inl err, l') \<Longrightarrow> l' = l"
  by (auto simp: issue_and_send_def Let_def split: option.splits if_splits prod.splits)

lemma spend_admits_nat:
  "spend_admits m b p \<Longrightarrow> m \<noteq> - 1 \<Longrightarrow> unat b + unat p \<le> unat m"
proof -
  assume "spend_admits m b p" "m \<noteq> - 1"
  moreover from this have "unat m \<noteq> 2 ^ 64 - 1"
    using word_unat_eq_iff [of m "- 1"] by (simp add: unat_minus_one_word)
  ultimately show ?thesis
    using u64_less [of m]
    by (auto simp: spend_admits_def not_less word_le_nat_alt unat_sat_add min_def split: if_splits)
qed

lemma spend_admits_no_wrap:
  "spend_admits m b p \<Longrightarrow> m \<noteq> - 1 \<Longrightarrow> unat (b + p) = unat b + unat p"
  using spend_admits_nat [of m b p] u64_less [of m] by (simp add: unat_add_no_overflow)

lemma emit_err_restores:
  "emit_settlement_cheque tools e env s = (Inl err, s') \<Longrightarrow> s' = s"
  by (auto simp: emit_settlement_cheque_def fetch_add_def Let_def dest: issue_and_send_err
      split: sum.splits if_splits prod.splits)

lemma emit_okE:
  assumes "emit_settlement_cheque tools e env s = (Inr (o', out), s')"
  obtains rate plur p128 p64 c l where
    "cheque_amount env (ce_debt_units e) = Inr (rate, plur, p128, p64)"
    "spend_admits (ce_max_issue_plur e) (sp_issued s) p64"
    "issue_and_send tools e env plur (sp_ledger s) = (Inr (c, out), l)"
    "s' = s\<lparr>sp_issued := sp_issued s + p64, sp_ledger := l\<rparr>"
    "o' = \<lparr>eo_plur = p128, eo_plur_u256 = plur, eo_rate = try_from_or_max rate, eo_cumulative = c\<rparr>"
  using assms
  by (auto simp: emit_settlement_cheque_def fetch_add_def Let_def split: sum.splits if_splits prod.splits)

section \<open>Interleaved use of the spend counter\<close>

text \<open>
  Each connection's emission is a task: \<open>fetch_add\<close> and the test on the value it returned are one
  step (\<open>Admitted p\<close> or \<open>Rejected p\<close>); the give-back after a rejection or a failure is another, and
  a sent cheque keeps its amount in the counter (\<open>Sent p\<close>).
\<close>

datatype spend_task = Admitted u64 | Rejected u64 | Sent u64

inductive spend_step :: "u64 \<Rightarrow> u64 \<times> spend_task multiset \<Rightarrow> u64 \<times> spend_task multiset \<Rightarrow> bool"
  for m where
  admit: "fetch_add c p = (before, c') \<Longrightarrow> spend_admits m before p \<Longrightarrow>
     spend_step m (c, T) (c', add_mset (Admitted p) T)"
| reject: "fetch_add c p = (before, c') \<Longrightarrow> \<not> spend_admits m before p \<Longrightarrow>
     spend_step m (c, T) (c', add_mset (Rejected p) T)"
| give_back: "Rejected p \<in># T \<Longrightarrow> spend_step m (c, T) (c - p, T - {#Rejected p#})"
| failure: "Admitted p \<in># T \<Longrightarrow> spend_step m (c, T) (c - p, T - {#Admitted p#})"
| sent: "Admitted p \<in># T \<Longrightarrow> spend_step m (c, T) (c, add_mset (Sent p) (T - {#Admitted p#}))"

inductive_cases spend_stepE: "spend_step m (c, T) (c', T')"

fun task_plur :: "spend_task \<Rightarrow> u64" where
  "task_plur (Admitted p) = p"
| "task_plur (Rejected p) = p"
| "task_plur (Sent p) = p"

fun task_committed :: "spend_task \<Rightarrow> nat" where
  "task_committed (Admitted p) = unat p"
| "task_committed (Rejected p) = 0"
| "task_committed (Sent p) = unat p"

fun task_rejected :: "spend_task \<Rightarrow> nat" where
  "task_rejected (Rejected p) = unat p"
| "task_rejected _ = 0"

definition committed :: "spend_task multiset \<Rightarrow> nat" where
  "committed T = sum_mset (image_mset task_committed T)"

definition rejected :: "spend_task multiset \<Rightarrow> nat" where
  "rejected T = sum_mset (image_mset task_rejected T)"

text \<open>\<open>bounded_rejects\<close>: the rejected reservations outstanding at once never sum past \<open>R\<close>.\<close>

inductive spend_run :: "u64 \<Rightarrow> nat \<Rightarrow> u64 \<times> spend_task multiset \<Rightarrow> bool" for m R where
  start: "spend_run m R (0, {#})"
| step: "spend_run m R s \<Longrightarrow> spend_step m s s' \<Longrightarrow> rejected (snd s') \<le> R \<Longrightarrow> spend_run m R s'"

lemma committed_add [simp]: "committed (add_mset t T) = task_committed t + committed T"
  by (simp add: committed_def)

lemma rejected_add [simp]: "rejected (add_mset t T) = task_rejected t + rejected T"
  by (simp add: rejected_def)

lemma spend_step_counter:
  assumes "spend_step m (c, T) (c', T')" "m \<noteq> - 1"
    and "unat c = committed T + rejected T" "committed T \<le> unat m"
    and "unat m + rejected T' < 2 ^ 64"
  shows "unat c' = committed T' + rejected T' \<and> committed T' \<le> unat m"
  using assms(1)
proof cases
  case (admit p before)
  then have "spend_admits m c p" "c' = c + p" "T' = add_mset (Admitted p) T"
    by (auto simp: fetch_add_def)
  then show ?thesis
    using spend_admits_nat [of m c p] spend_admits_no_wrap [of m c p] assms(2-4) by simp
next
  case (reject p before)
  then have *: "c' = c + p" "T' = add_mset (Rejected p) T"
    by (auto simp: fetch_add_def)
  then have "unat c + unat p < 2 ^ 64" using assms(3-5) by simp
  then show ?thesis
    using * assms(3,4) by (simp add: unat_add_no_overflow)
qed (use assms(3-5) in \<open>auto simp: unat_sub word_le_nat_alt dest!: multi_member_split\<close>)

lemma spend_run_inv:
  "spend_run m R s \<Longrightarrow> m \<noteq> - 1 \<Longrightarrow> unat m + R < 2 ^ 64 \<Longrightarrow>
   unat (fst s) = committed (snd s) + rejected (snd s) \<and> committed (snd s) \<le> unat m"
proof (induction rule: spend_run.induct)
  case start
  then show ?case by (simp add: committed_def rejected_def)
next
  case (step s s')
  then show ?case
    using spend_step_counter [of m "fst s" "snd s" "fst s'" "snd s'"] by simp
qed

lemma emit_cheque_frame_pb: "emit_cheque_frame j = frame (pb_bytes 10 j)"
  by (simp add: emit_cheque_frame_def pb_bytes_def encode_varint_small, simp add: frame_def)

lemma cumulative_for_record:
  "cumulative_for h b (record_issued h b c l) = c"
  by (simp add: cumulative_for_def record_issued_def record_insert_def mark_dirty_def hm_simps)

section \<open>A sample emission\<close>

definition sample_env :: emit_env where
  "sample_env = \<lparr>ev_open = True, ev_header_write = True,
     ev_stream = frame (header_message [(key_exchange, [2]), (key_deduction, [5])]), ev_send = True\<rparr>"

definition sample_sign :: "bytes \<Rightarrow> U256 \<Rightarrow> signed_cheque option" where
  "sample_sign b c = Some \<lparr>sc_cheque = \<lparr>ch_chequebook = [], ch_beneficiary = b, ch_cumulative_payout = c\<rparr>, sc_signature = []\<rparr>"

definition sample_emit :: cheque_emit where
  "sample_emit = \<lparr>ce_beneficiary = replicate 20 7, ce_debt_units = 100, ce_issuable = 1000, ce_max_issue_plur = 500\<rparr>"

definition sample_spend :: "u64 \<Rightarrow> spend_state" where
  "sample_spend n = \<lparr>sp_issued = n, sp_ledger = \<lparr>fl_map = [], fl_dirty = False\<rparr>\<rparr>"

lemma sample_headers:
  "header_body (key_exchange, [2]) = [10, 8] @ key_exchange @ [18, 1, 2]"
  "header_body (key_deduction, [5]) = [10, 9] @ key_deduction @ [18, 1, 5]"
  by (simp_all add: header_body_def pb_bytes_def frame_def encode_varint_small key_exchange_def key_deduction_def)

lemma sample_amount: "cheque_amount sample_env 100 = Inr (2, 205, 205, 205)"
proof -
  let ?hs = "[(key_exchange, [2]), (key_deduction, [5])]"
  have ok: "list_all header_ok ?hs"
    by (simp add: header_ok_def sample_headers) (simp add: key_exchange_def key_deduction_def)
  have "length (header_message ?hs) = 31"
    by (simp add: header_message_def pb_bytes_def frame_def sample_headers)
      (simp add: encode_varint_small key_exchange_def key_deduction_def)
  then have "read_delimited 8192 (ev_stream sample_env) = Inr (header_message ?hs, [])"
    using read_delimited_frame_cases [of "header_message ?hs" 8192 "[]"] by (simp add: sample_env_def)
  moreover have "parse_settlement_headers (header_message ?hs) = Some (2, 5)"
    using parse_headers_loop_message [OF ok] key_exchange_deduction
    by (simp add: parse_settlement_headers_def from_be_bytes_def)
  ultimately show ?thesis
    by (simp add: cheque_amount_def checked_mul_def checked_add_def try_word_def try_from_or_max_def)
      (simp add: sample_env_def)
qed

lemma sample_emit_ok: "\<exists>r out s'. emit_settlement_cheque (render_root, show_uint, \<lambda>_. [], sample_sign) sample_emit sample_env (sample_spend 0) = (Inr (r, out), s') \<and> sp_issued s' = 205"
proof -
  have "cumulative_for render_root (replicate 20 7) \<lparr>fl_map = [], fl_dirty = False\<rparr> = 0"
    by (simp add: cumulative_for_def hm_get_or_def)
  then show ?thesis
    by (simp add: emit_settlement_cheque_def sample_amount sample_emit_def sample_spend_def fetch_add_def
        spend_admits_def sat_add_def issue_and_send_def checked_add_def sample_sign_def Let_def)
      (simp add: sample_env_def)
qed
lemma sample_reject: "emit_settlement_cheque tools sample_emit sample_env (sample_spend 400) = (Inl SpendGuard, sample_spend 400)"
  by (simp add: emit_settlement_cheque_def sample_amount sample_emit_def sample_spend_def fetch_add_def
        spend_admits_def sat_add_def Let_def)

section \<open>Properties\<close>

text \<open>
  C9 A cheque that is emitted moves exactly units times the announced rate plus the announced
  deduction: the beneficiary's cumulative payout in the ledger grows by that amount and stays
  within the issuable amount, the spend counter grows by it without passing the cap, and the frame
  on the wire carries the signed cheque for exactly the recorded cumulative payout.
\<close>
theorem emit_settlement_cheque_sound:
  assumes ok: "emit_settlement_cheque (henc, ushow, b64, sign) e env s = (Inr (r, out), s')"
    and cap: "ce_max_issue_plur e \<noteq> - 1"
  shows "\<exists>hdrs rest rate deduction sc.
    read_delimited 8192 (ev_stream env) = Inr (hdrs, rest)
    \<and> parse_settlement_headers hdrs = Some (rate, deduction) \<and> rate \<noteq> 0
    \<and> unat (eo_plur r) = unat rate * unat (ce_debt_units e) + unat deduction
    \<and> unat (eo_cumulative r) = unat (cumulative_for henc (ce_beneficiary e) (sp_ledger s)) + unat (eo_plur r)
    \<and> eo_cumulative r \<le> ce_issuable e
    \<and> cumulative_for henc (ce_beneficiary e) (sp_ledger s') = eo_cumulative r
    \<and> unat (sp_issued s') = unat (sp_issued s) + unat (eo_plur r)
    \<and> sp_issued s' \<le> ce_max_issue_plur e
    \<and> sign (ce_beneficiary e) (eo_cumulative r) = Some sc
    \<and> out = frame (pb_bytes 10 (encode_cheque_json_bee henc ushow b64 sc))"
proof -
  from emit_okE [OF ok] obtain rate plur p128 p64 c l where
    amt: "cheque_amount env (ce_debt_units e) = Inr (rate, plur, p128, p64)"
    and adm: "spend_admits (ce_max_issue_plur e) (sp_issued s) p64"
    and iss: "issue_and_send (henc, ushow, b64, sign) e env plur (sp_ledger s) = (Inr (c, out), l)"
    and s': "s' = s\<lparr>sp_issued := sp_issued s + p64, sp_ledger := l\<rparr>"
    and r: "r = \<lparr>eo_plur = p128, eo_plur_u256 = plur, eo_rate = try_from_or_max rate, eo_cumulative = c\<rparr>" .
  have sum: "unat (sp_issued s + p64) = unat (sp_issued s) + unat p64"
      "unat (sp_issued s) + unat p64 \<le> unat (ce_max_issue_plur e)"
    using spend_admits_nat [OF adm cap] spend_admits_no_wrap [OF adm cap] by simp_all
  have "unat (ce_max_issue_plur e) < 2 ^ 64 - 1"
    using cap word_unat_eq_iff [of "ce_max_issue_plur e" "- 1"] u64_less [of "ce_max_issue_plur e"]
    by (simp add: unat_minus_one_word)
  with sum(2) have "unat p64 = unat plur"
    using cheque_amount_exact [OF amt] by auto
  with sum cheque_amount_exact [OF amt] issue_and_send_ok [OF iss] show ?thesis
    by (auto simp: s' r cumulative_for_record word_le_nat_alt emit_cheque_frame_pb)
qed

theorem emit_settlement_cheque_sound_witness:
  "\<exists>r out s'. emit_settlement_cheque (render_root, show_uint, \<lambda>_. [], sample_sign) sample_emit sample_env
      (sample_spend 0) = (Inr (r, out), s')
     \<and> unat (eo_plur r) = 205 \<and> unat (eo_cumulative r) = 205 \<and> sp_issued s' \<le> 500"
proof -
  obtain r out s' where
    ok: "emit_settlement_cheque (render_root, show_uint, \<lambda>_. [], sample_sign) sample_emit sample_env
      (sample_spend 0) = (Inr (r, out), s')" and "sp_issued s' = 205"
    using sample_emit_ok by blast
  with emit_settlement_cheque_sound [OF ok] show ?thesis
    by (intro exI [of _ r] exI [of _ out] exI [of _ s'] conjI)
      (auto simp: sample_emit_def sample_spend_def cumulative_for_def hm_get_or_def)
qed

text \<open>
  C11 Every error of an emission, before or after the reservation, leaves the spend counter and
  the ledger as they were, so a failed cheque neither consumes the cap nor advances the
  cumulative payout.
\<close>
theorem emit_settlement_cheque_error_restores:
  assumes "emit_settlement_cheque tools e env s = (Inl err, s')"
  shows "sp_issued s' = sp_issued s \<and> sp_ledger s' = sp_ledger s"
  using emit_err_restores [OF assms] by simp

theorem emit_settlement_cheque_error_restores_witness:
  "emit_settlement_cheque (render_root, show_uint, \<lambda>_. [], sample_sign) sample_emit sample_env (sample_spend 400)
     = (Inl SpendGuard, sample_spend 400) \<and> sp_issued (sample_spend 400) = 400"
  using emit_settlement_cheque_error_restores
    [OF sample_reject [of "(render_root, show_uint, \<lambda>_. [], sample_sign)"]]
  by (simp add: sample_reject, simp add: sample_spend_def)

text \<open>
  C18 Under any interleaving of reservations, rejections, give-backs and sends on the shared
  counter, the amounts of admitted and sent cheques never sum past the cap and the counter is
  exactly their sum plus the rejections still to be given back, as long as those outstanding
  rejections and the cap together fit into 64 bits.
\<close>
theorem spend_cap_interleaved:
  assumes "spend_run m R (c, T)" "m \<noteq> - 1" "unat m + R < 2 ^ 64"
  shows "committed T \<le> unat m \<and> unat c = committed T + rejected T"
  using spend_run_inv [OF assms] by simp

theorem spend_cap_interleaved_witness:
  "committed {#Admitted 600#} \<le> unat (1000 :: u64)
   \<and> unat (1300 :: u64) = committed {#Admitted 600, Rejected 700#} + rejected {#Admitted 600, Rejected 700#}"
proof -
  have "spend_run 1000 800 (600, {#Admitted 600#})"
    using spend_run.step [OF spend_run.start, of 1000 "(600, {#Admitted 600#})" 800]
      spend_step.admit [of 0 600 0 600 1000 "{#}"]
    by (simp add: fetch_add_def spend_admits_def sat_add_def rejected_def)
  moreover from this have "spend_run 1000 800 (1300, {#Rejected 700, Admitted 600#})"
    using spend_run.step [of 1000 800 "(600, {#Admitted 600#})" "(1300, {#Rejected 700, Admitted 600#})"]
      spend_step.reject [of 600 700 600 1300 1000 "{#Admitted 600#}"]
    by (simp add: fetch_add_def spend_admits_def sat_add_def rejected_def)
  ultimately show ?thesis
    using spend_cap_interleaved [of 1000 800 600 "{#Admitted 600#}"]
      spend_cap_interleaved [of 1000 800 1300 "{#Rejected 700, Admitted 600#}"]
    by (simp add: add_mset_commute)
qed

text \<open>
  The reservation adds with wrap-around before the test: whatever has been sent, a peer whose
  rate makes the amount the complement of the counter drives the counter to zero while its own
  rejection is outstanding, and a concurrent emission of up to the whole cap is admitted on top.
\<close>
theorem spend_cap_wrap_race:
  "(spend_step m)\<^sup>*\<^sup>* (c, {#Sent c#}) (0, {#Rejected (- c), Sent c#}) \<and>
   spend_step m (0, {#Rejected (- c), Sent c#}) (m, {#Admitted m, Rejected (- c), Sent c#}) \<and>
   committed {#Admitted m, Rejected (- c), Sent c#} = unat m + unat c"
  if "c \<noteq> 0" "m \<noteq> - 1"
proof -
  have nadm: "\<not> spend_admits m c (- c)"
  proof -
    have "\<not> unat c + unat (- c) < 2 ^ LENGTH(64)"
      using unat_add_no_overflow [of c "- c"] that(1) by (auto simp: unat_eq_zero)
    then have "sat_add c (- c) = - 1" by (simp add: sat_add_def)
    then show ?thesis using that(2) by (simp add: spend_admits_def word_order.not_eq_extremum)
  qed
  have "spend_step m (c, {#Sent c#}) (0, {#Rejected (- c), Sent c#})"
    using spend_step.reject [OF _ nadm, of c 0 "{#Sent c#}"] by (simp add: fetch_add_def)
  moreover have "spend_step m (0, {#Rejected (- c), Sent c#}) (m, {#Admitted m, Rejected (- c), Sent c#})"
    by (rule spend_step.admit [of 0 m 0]) (simp_all add: fetch_add_def spend_admits_def sat_add_def u64_less)
  ultimately show ?thesis by (simp add: committed_def r_into_rtranclp)
qed

theorem spend_cap_wrap_race_witness:
  "(spend_step 1000)\<^sup>*\<^sup>* (900, {#Sent 900#}) (0, {#Rejected (- 900), Sent 900#}) \<and>
   spend_step 1000 (0, {#Rejected (- 900), Sent 900#}) (1000, {#Admitted 1000, Rejected (- 900), Sent 900#}) \<and>
   committed {#Admitted 1000, Rejected (- 900), Sent 900#} = unat (1000 :: u64) + unat (900 :: u64)"
  by (rule spend_cap_wrap_race) simp_all

end
