(* ===== verification/Swarm.thy ===== *)
theory Swarm
  imports DS_Prelude
begin

text \<open>
  Overlay-address arithmetic: \<^verbatim>\<open>rust/ds-core/src/swarm.rs\<close>, and the bucket key of
  \<^verbatim>\<open>rust/ds-net/src/schedule.rs\<close> that claims to agree with it. Addresses are 32-byte
  strings; proximity orders and depths are small counts (\<open>nat\<close>); the neighborhood is the
  \<open>u32\<close> the code shifts, and its assertion on the depth is the \<open>None\<close> case.
\<close>

definition MAX_PO :: nat where
  "MAX_PO = 31"

definition wf_addr :: "swarm_address \<Rightarrow> bool" where
  "wf_addr a \<longleftrightarrow> length a = 32"

fun proximity_from :: "nat \<Rightarrow> swarm_address \<Rightarrow> swarm_address \<Rightarrow> nat" where
  "proximity_from i (x # xs) (y # ys) =
     (let diff = x XOR y
      in if diff \<noteq> 0 then min (i * 8 + leading_zeros diff) MAX_PO
         else proximity_from (Suc i) xs ys)"
| "proximity_from i _ _ = MAX_PO"

definition proximity :: "swarm_address \<Rightarrow> swarm_address \<Rightarrow> nat" where
  "proximity a b = proximity_from 0 a b"

definition neighborhood :: "swarm_address \<Rightarrow> nat \<Rightarrow> u32 option" where
  "neighborhood addr depth =
     (if \<not> depth \<le> 32 then None
      else if depth = 0 then Some 0
      else let prefix = (from_be_bytes (take 4 addr) :: u32)
           in Some (drop_bit (32 - depth) prefix))"

definition bucket_prefix :: "swarm_address \<Rightarrow> nat \<Rightarrow> u64" where
  "bucket_prefix addr depth =
     (let v = (from_be_bytes (take 8 addr) :: u64)
      in if depth = 0 then 0 else drop_bit (64 - min depth 63) v)"

section \<open>Reference: common leading bits\<close>

fun lcp :: "bool list \<Rightarrow> bool list \<Rightarrow> nat" where
  "lcp (x # xs) (y # ys) = (if x = y then Suc (lcp xs ys) else 0)"
| "lcp _ _ = 0"

definition common_bits :: "swarm_address \<Rightarrow> swarm_address \<Rightarrow> nat" where
  "common_bits a b = lcp (addr_bits a) (addr_bits b)"

lemma lcp_commute: "lcp xs ys = lcp ys xs"
  by (induction xs ys rule: lcp.induct) auto

lemma lcp_self [simp]: "lcp xs xs = length xs"
  by (induction xs) auto

lemma lcp_le: "lcp xs ys \<le> length xs" "lcp xs ys \<le> length ys"
  by (induction xs ys rule: lcp.induct) auto

lemma lcp_append_eq [simp]: "lcp (zs @ xs) (zs @ ys) = length zs + lcp xs ys"
  by (induction zs) auto

lemma lcp_append_neq:
  "length xs = length ys \<Longrightarrow> xs \<noteq> ys \<Longrightarrow> lcp (xs @ us) (ys @ vs) = lcp xs ys"
  by (induction xs ys rule: list_induct2) auto

lemma lcp_ge_iff:
  "d \<le> length xs \<Longrightarrow> d \<le> length ys \<Longrightarrow> d \<le> lcp xs ys \<longleftrightarrow> take d xs = take d ys"
proof (induction xs ys arbitrary: d rule: lcp.induct)
  case (1 x xs y ys)
  then show ?case by (cases d) auto
qed auto

lemma lcp_ultrametric: "min (lcp xs ys) (lcp ys zs) \<le> lcp xs zs"
proof (induction xs ys arbitrary: zs rule: lcp.induct)
  case (1 x xs y ys)
  then show ?case by (cases zs) auto
qed auto

lemma lcp_map: "lcp (map f is) (map g is) = length (takeWhile (\<lambda>i. f i = g i) is)"
  by (induction "is") auto

lemma leading_zeros_xor:
  "leading_zeros (v XOR w) = lcp (word_bits v) (word_bits (w :: 'a::len word))"
  by (simp add: leading_zeros_def word_bits_def lcp_map bit_xor_iff)

lemma word_xor_eq_0: "v XOR w = 0 \<longleftrightarrow> v = (w :: 'a::len word)"
  by (auto simp: bit_eq_iff bit_xor_iff)

lemma proximity_from_lcp:
  "length a = length b \<Longrightarrow> 31 \<le> 8 * (i + length a) \<Longrightarrow>
   proximity_from i a b = min (8 * i + common_bits a b) MAX_PO"
proof (induction i a b rule: proximity_from.induct)
  case (1 i x xs y ys)
  show ?case
  proof (cases "x = y")
    case True
    with "1" show ?thesis by (simp add: common_bits_def)
  next
    case False
    then have "word_bits x \<noteq> word_bits y" by (simp add: word_bits_inject)
    then have "lcp (word_bits x @ addr_bits xs) (word_bits y @ addr_bits ys)
        = lcp (word_bits x) (word_bits y)"
      by (intro lcp_append_neq) simp_all
    with False show ?thesis
      by (simp add: common_bits_def leading_zeros_xor word_xor_eq_0)
  qed
qed (auto simp: MAX_PO_def common_bits_def)

section \<open>Proximity\<close>

lemma proximity_common_bits:
  "wf_addr a \<Longrightarrow> wf_addr b \<Longrightarrow> proximity a b = min (common_bits a b) MAX_PO"
  by (simp add: proximity_def wf_addr_def proximity_from_lcp)

lemma proximity_le_MAX_PO: "proximity a b \<le> MAX_PO"
proof -
  have "proximity_from i a b \<le> MAX_PO" for i
    by (induction i a b rule: proximity_from.induct) (auto simp: Let_def)
  then show ?thesis by (simp add: proximity_def)
qed

lemma proximity_commute: "proximity a b = proximity b a"
proof -
  have "proximity_from i a b = proximity_from i b a" for i
    by (induction i a b rule: proximity_from.induct) (auto simp: Let_def xor.commute)
  then show ?thesis by (simp add: proximity_def)
qed

lemma proximity_ge_iff:
  assumes "wf_addr a" "wf_addr b" "d \<le> MAX_PO"
  shows "d \<le> proximity a b \<longleftrightarrow> take d (addr_bits a) = take d (addr_bits b)"
  using assms lcp_ge_iff [of d "addr_bits a" "addr_bits b"]
  by (simp add: proximity_common_bits common_bits_def wf_addr_def MAX_PO_def)

section \<open>Neighborhoods\<close>

lemma unat_neighborhood:
  assumes "wf_addr a" "d \<le> 32"
  obtains n where "neighborhood a d = Some n" "unat n = bits_nat (take d (addr_bits a))"
proof -
  have bits: "addr_bits (take 4 a) = take 32 (addr_bits a)"
    by (simp add: addr_bits_take)
  have pre: "unat (from_be_bytes (take 4 a) :: u32) = bits_nat (take 32 (addr_bits a))"
    using assms by (simp add: unat_from_be_bytes wf_addr_def be_nat_bits bits)
  have "bits_nat (take 32 (addr_bits a)) div 2 ^ (32 - d) = bits_nat (take d (addr_bits a))"
    using assms bits_nat_div [of "32 - d" "take 32 (addr_bits a)"]
    by (simp add: wf_addr_def min_def)
  then have "unat (drop_bit (32 - d) (from_be_bytes (take 4 a) :: u32))
      = bits_nat (take d (addr_bits a))"
    by (simp add: unat_drop_bit pre)
  moreover have "unat (0::u32) = bits_nat (take 0 (addr_bits a))" by simp
  ultimately show ?thesis
    using that assms by (cases "d = 0") (auto simp: neighborhood_def Let_def)
qed

lemma neighborhood_eq_iff_bits:
  assumes "wf_addr a" "wf_addr b" "d \<le> 32"
  shows "neighborhood a d = neighborhood b d \<longleftrightarrow> take d (addr_bits a) = take d (addr_bits b)"
proof -
  obtain m n where "neighborhood a d = Some m" "unat m = bits_nat (take d (addr_bits a))"
    and "neighborhood b d = Some n" "unat n = bits_nat (take d (addr_bits b))"
    using assms unat_neighborhood by metis
  moreover have "length (take d (addr_bits a)) = length (take d (addr_bits b))"
    using assms by (simp add: wf_addr_def)
  ultimately show ?thesis
    using bits_nat_inject [of "take d (addr_bits a)" "take d (addr_bits b)"]
    by (simp add: word_unat_eq_iff)
qed

lemma neighborhood_eq_iff_proximity:
  assumes "wf_addr a" "wf_addr b" "d \<le> MAX_PO"
  shows "neighborhood a d = neighborhood b d \<longleftrightarrow> d \<le> proximity a b"
  using assms by (simp add: neighborhood_eq_iff_bits proximity_ge_iff MAX_PO_def)

lemma unat_bucket_prefix:
  assumes "wf_addr a" "d \<le> 63"
  shows "unat (bucket_prefix a d) = bits_nat (take d (addr_bits a))"
proof -
  have bits: "addr_bits (take 8 a) = take 64 (addr_bits a)"
    by (simp add: addr_bits_take)
  have pre: "unat (from_be_bytes (take 8 a) :: u64) = bits_nat (take 64 (addr_bits a))"
    using assms by (simp add: unat_from_be_bytes wf_addr_def be_nat_bits bits)
  have "bits_nat (take 64 (addr_bits a)) div 2 ^ (64 - d) = bits_nat (take d (addr_bits a))"
    using assms bits_nat_div [of "64 - d" "take 64 (addr_bits a)"]
    by (simp add: wf_addr_def min_def)
  with assms show ?thesis
    by (simp add: bucket_prefix_def unat_drop_bit pre min_def)
qed

lemma bucket_prefix_eq_iff_bits:
  assumes "wf_addr a" "wf_addr b" "d \<le> 63"
  shows "bucket_prefix a d = bucket_prefix b d \<longleftrightarrow> take d (addr_bits a) = take d (addr_bits b)"
proof -
  have "bucket_prefix a d = bucket_prefix b d
      \<longleftrightarrow> bits_nat (take d (addr_bits a)) = bits_nat (take d (addr_bits b))"
    using assms by (simp add: word_unat_eq_iff unat_bucket_prefix)
  also have "\<dots> \<longleftrightarrow> take d (addr_bits a) = take d (addr_bits b)"
    using assms by (intro bits_nat_inject) (simp add: wf_addr_def)
  finally show ?thesis .
qed

lemma bucket_prefix_eq_iff_proximity:
  assumes "wf_addr a" "wf_addr b" "d \<le> MAX_PO"
  shows "bucket_prefix a d = bucket_prefix b d \<longleftrightarrow> d \<le> proximity a b"
  using assms by (simp add: bucket_prefix_eq_iff_bits proximity_ge_iff MAX_PO_def)

section \<open>Properties\<close>

text \<open>
  C36 The byte-wise proximity routine computes the number of leading bits two addresses share,
  capped at 31, in either order of its arguments, and that measure is ultrametric: two addresses
  are at least as close as the nearer of their proximities to any third.
\<close>
theorem proximity_correct:
  assumes "wf_addr a" "wf_addr b" "wf_addr c"
  shows "proximity a b = min (common_bits a b) 31 \<and> proximity a b = proximity b a \<and>
    min (proximity a b) (proximity b c) \<le> proximity a c"
proof (intro conjI)
  show "proximity a b = min (common_bits a b) 31"
    using assms by (simp add: proximity_common_bits MAX_PO_def)
  show "proximity a b = proximity b a" by (rule proximity_commute)
  show "min (proximity a b) (proximity b c) \<le> proximity a c"
    using assms lcp_ultrametric [of "addr_bits a" "addr_bits b" "addr_bits c"]
    by (auto simp: proximity_common_bits MAX_PO_def common_bits_def)
qed

theorem proximity_correct_witness:
  "proximity (replicate 32 0xF0) (replicate 32 0xF1) = min (common_bits (replicate 32 0xF0) (replicate 32 0xF1)) 31"
  using proximity_correct [of "replicate 32 0xF0" "replicate 32 0xF1" "replicate 32 0"]
  by (simp add: wf_addr_def)

text \<open>
  Up to depth 31 the three ways the client groups addresses agree: two addresses have the same
  neighborhood, the same work-bucket key, and a proximity of at least the depth, all or none.
\<close>
theorem neighborhood_bucket_proximity_agree:
  assumes "wf_addr a" "wf_addr b" "d \<le> 31"
  shows "(neighborhood a d = neighborhood b d) = (d \<le> proximity a b)
    \<and> (bucket_prefix a d = bucket_prefix b d) = (d \<le> proximity a b)"
  using assms by (simp add: neighborhood_eq_iff_proximity bucket_prefix_eq_iff_proximity MAX_PO_def)

theorem neighborhood_bucket_proximity_agree_witness:
  "(neighborhood (replicate 32 0xF0) 8 = neighborhood (replicate 32 0xF1) 8)
     = (8 \<le> proximity (replicate 32 0xF0) (replicate 32 0xF1))"
  using neighborhood_bucket_proximity_agree [of "replicate 32 0xF0" "replicate 32 0xF1" 8]
  by (simp add: wf_addr_def)

end
