(* ===== verification/Topology.thy ===== *)
theory Topology
  imports Swarm
begin

text \<open>
  The topology cache of \<^verbatim>\<open>rust/ds-core/src/topology.rs\<close>: node records merged by overlay,
  proximity bins, latency-ordered storer lookup and neighborhood coverage. Every method of
  \<open>TopologyCache\<close> is a definition; the panic of \<open>neighborhood\<close> beyond depth 32 makes
  \<open>coverage\<close> partial (\<open>None\<close>).
\<close>

record node_record =
  nr_overlay :: swarm_address
  nr_underlays :: "string list"
  nr_rtt_ms :: "u32 option"
  nr_last_seen_tick :: u64
  nr_dialed_ok :: bool

record topology_cache =
  tc_reference :: swarm_address
  tc_nodes :: "(swarm_address, node_record) hash_map"

record coverage =
  chunks_covered :: nat
  chunks_total :: nat
  neighborhoods_total :: nat
  neighborhoods_covered :: nat

definition topology_new :: "swarm_address \<Rightarrow> topology_cache" where
  "topology_new r = \<lparr>tc_reference = r, tc_nodes = []\<rparr>"

definition topology_len :: "topology_cache \<Rightarrow> nat" where
  "topology_len c = length (tc_nodes c)"

definition topology_is_empty :: "topology_cache \<Rightarrow> bool" where
  "topology_is_empty c \<longleftrightarrow> tc_nodes c = []"

definition topology_get :: "topology_cache \<Rightarrow> swarm_address \<Rightarrow> node_record option" where
  "topology_get c a = hm_get (tc_nodes c) a"

definition topology_records :: "topology_cache \<Rightarrow> node_record list" where
  "topology_records c = hm_values (tc_nodes c)"

fun push_new :: "string list \<Rightarrow> string list \<Rightarrow> string list" where
  "push_new existing [] = existing"
| "push_new existing (u # us) =
     push_new (if u \<in> set existing then existing else existing @ [u]) us"

definition merge_record :: "node_record \<Rightarrow> node_record \<Rightarrow> node_record" where
  "merge_record existing r = existing\<lparr>
     nr_last_seen_tick := max (nr_last_seen_tick existing) (nr_last_seen_tick r),
     nr_dialed_ok := (nr_dialed_ok existing \<or> nr_dialed_ok r),
     nr_rtt_ms := (if nr_rtt_ms r \<noteq> None then nr_rtt_ms r else nr_rtt_ms existing),
     nr_underlays := push_new (nr_underlays existing) (nr_underlays r)\<rparr>"

definition upsert :: "node_record \<Rightarrow> topology_cache \<Rightarrow> topology_cache" where
  "upsert r c =
     (case hm_get (tc_nodes c) (nr_overlay r) of
        Some existing \<Rightarrow> c\<lparr>tc_nodes := hm_insert (nr_overlay r) (merge_record existing r) (tc_nodes c)\<rparr>
      | None \<Rightarrow> c\<lparr>tc_nodes := hm_insert (nr_overlay r) r (tc_nodes c)\<rparr>)"

fun bin_loop :: "swarm_address \<Rightarrow> node_record list \<Rightarrow> nat list \<Rightarrow> nat list" where
  "bin_loop ref [] bins = bins"
| "bin_loop ref (n # ns) bins =
     (let p = proximity ref (nr_overlay n) in bin_loop ref ns (bins[p := Suc (bins ! p)]))"

definition bin_counts :: "topology_cache \<Rightarrow> nat list" where
  "bin_counts c = bin_loop (tc_reference c) (topology_records c) (replicate (MAX_PO + 1) 0)"

definition rtt_key :: "node_record \<Rightarrow> u32" where
  "rtt_key n = (case nr_rtt_ms n of Some r \<Rightarrow> r | None \<Rightarrow> - 1)"

definition storers_for :: "topology_cache \<Rightarrow> swarm_address \<Rightarrow> nat \<Rightarrow> node_record list" where
  "storers_for c chunk depth =
     sort_key rtt_key (filter (\<lambda>n. depth \<le> proximity (nr_overlay n) chunk) (topology_records c))"

definition chunk_covered :: "topology_cache \<Rightarrow> nat \<Rightarrow> swarm_address \<Rightarrow> bool" where
  "chunk_covered c depth chunk \<longleftrightarrow>
     list_ex (\<lambda>n. depth \<le> proximity (nr_overlay n) chunk) (topology_records c)"

fun coverage_loop ::
  "topology_cache \<Rightarrow> nat \<Rightarrow> swarm_address list \<Rightarrow> (u32, bool) hash_map \<Rightarrow> nat \<Rightarrow>
   ((u32, bool) hash_map \<times> nat) option" where
  "coverage_loop c depth [] nbhds cov = Some (nbhds, cov)"
| "coverage_loop c depth (chunk # chunks) nbhds cov =
     (case neighborhood chunk depth of
        None \<Rightarrow> None
      | Some nb \<Rightarrow>
          let covered = chunk_covered c depth chunk;
              entry = hm_get_or nbhds False nb
          in coverage_loop c depth chunks (hm_insert nb (entry \<or> covered) nbhds)
               (if covered then Suc cov else cov))"

definition coverage_of :: "topology_cache \<Rightarrow> swarm_address list \<Rightarrow> nat \<Rightarrow> coverage option" where
  "coverage_of c chunks depth =
     map_option (\<lambda>(nbhds, cov).
        \<lparr>chunks_covered = cov,
         chunks_total = length chunks,
         neighborhoods_total = length nbhds,
         neighborhoods_covered = length (filter id (hm_values nbhds))\<rparr>)
       (coverage_loop c depth chunks [] 0)"

section \<open>Well-formed caches\<close>

definition topology_inv :: "topology_cache \<Rightarrow> bool" where
  "topology_inv c \<longleftrightarrow>
     hm_wf (tc_nodes c) \<and> (\<forall>(k, r) \<in> set (tc_nodes c). nr_overlay r = k \<and> wf_addr k)"

lemma topology_inv_new [simp]: "topology_inv (topology_new r)"
  by (simp add: topology_inv_def topology_new_def)

lemma topology_get_overlay: "topology_inv c \<Longrightarrow> topology_get c k = Some r \<Longrightarrow> nr_overlay r = k"
  by (auto simp: topology_inv_def topology_get_def dest: map_of_SomeD)

lemma records_wf: "topology_inv c \<Longrightarrow> r \<in> set (topology_records c) \<Longrightarrow> wf_addr (nr_overlay r)"
  by (auto simp: topology_inv_def topology_records_def)

lemma records_get:
  assumes "topology_inv c"
  shows "r \<in> set (topology_records c) \<longleftrightarrow> topology_get c (nr_overlay r) = Some r"
proof -
  have "topology_get c (nr_overlay r) = Some r \<longleftrightarrow> (nr_overlay r, r) \<in> set (tc_nodes c)"
    using assms by (simp add: topology_get_def topology_inv_def hm_get_Some_iff)
  also have "\<dots> \<longleftrightarrow> r \<in> set (topology_records c)"
    using assms by (force simp: topology_inv_def topology_records_def)
  finally show ?thesis by simp
qed

lemma merge_record_simps [simp]:
  "nr_overlay (merge_record e r) = nr_overlay e"
  "nr_last_seen_tick (merge_record e r) = max (nr_last_seen_tick e) (nr_last_seen_tick r)"
  "nr_dialed_ok (merge_record e r) = (nr_dialed_ok e \<or> nr_dialed_ok r)"
  "nr_rtt_ms (merge_record e r) = (if nr_rtt_ms r \<noteq> None then nr_rtt_ms r else nr_rtt_ms e)"
  "nr_underlays (merge_record e r) = push_new (nr_underlays e) (nr_underlays r)"
  by (simp_all add: merge_record_def)

lemma topology_get_upsert:
  "topology_get (upsert r c) k =
     (if k = nr_overlay r
      then Some (case topology_get c k of None \<Rightarrow> r | Some e \<Rightarrow> merge_record e r)
      else topology_get c k)"
  by (auto simp: upsert_def topology_get_def hm_simps split: option.splits)

lemma set_AList_update: "set (AList.update k v m) \<subseteq> insert (k, v) (set m)"
  by (induction m) auto

lemma set_hm_insert: "set (hm_insert k v m) \<subseteq> insert (k, v) (set m)"
  by (simp add: hm_insert_def set_AList_update)

lemma upsert_inv:
  assumes "topology_inv c" "wf_addr (nr_overlay r)"
  shows "topology_inv (upsert r c)"
proof -
  have "\<exists>r'. nr_overlay r' = nr_overlay r \<and> tc_nodes (upsert r c) = hm_insert (nr_overlay r) r' (tc_nodes c)"
  proof (cases "topology_get c (nr_overlay r)")
    case None
    then show ?thesis by (auto simp: upsert_def topology_get_def)
  next
    case (Some e)
    with assms topology_get_overlay [of c "nr_overlay r" e] show ?thesis
      by (intro exI [of _ "merge_record e r"]) (simp add: upsert_def topology_get_def)
  qed
  then obtain r' where r': "nr_overlay r' = nr_overlay r"
      "tc_nodes (upsert r c) = hm_insert (nr_overlay r) r' (tc_nodes c)" by blast
  with assms show ?thesis
    using set_hm_insert [of "nr_overlay r" r' "tc_nodes c"]
    by (fastforce simp: topology_inv_def)
qed

lemma upsert_reference [simp]: "tc_reference (upsert r c) = tc_reference c"
  by (simp add: upsert_def split: option.splits)

section \<open>Merging a stream of sightings\<close>

lemma set_push_new: "set (push_new e us) = set e \<union> set us"
  by (induction e us rule: push_new.induct) auto

lemma distinct_push_new: "distinct e \<Longrightarrow> distinct (push_new e us)"
  by (induction e us rule: push_new.induct) auto

lemma push_new_prefix: "\<exists>zs. push_new e us = e @ zs"
  by (induction e us rule: push_new.induct) (auto split: if_splits)

text \<open>The sightings of one overlay, in the order they are reported, folded into one record.\<close>

fun absorb :: "node_record option \<Rightarrow> node_record list \<Rightarrow> node_record option" where
  "absorb acc [] = acc"
| "absorb acc (r # rs) =
     absorb (Some (case acc of None \<Rightarrow> r | Some e \<Rightarrow> merge_record e r)) rs"

lemma get_fold_upsert:
  "topology_get (fold upsert rs c) k =
     absorb (topology_get c k) (filter (\<lambda>r. nr_overlay r = k) rs)"
  by (induction rs arbitrary: c) (simp_all add: topology_get_upsert)

lemma fold_upsert_inv:
  "topology_inv c \<Longrightarrow> list_all (\<lambda>r. wf_addr (nr_overlay r)) rs \<Longrightarrow> topology_inv (fold upsert rs c)"
  by (induction rs arbitrary: c) (simp_all add: upsert_inv)

lemma absorb_Some:
  "\<exists>m. absorb (Some e) rs = Some m
     \<and> nr_overlay m = nr_overlay e
     \<and> nr_dialed_ok m = (nr_dialed_ok e \<or> list_ex nr_dialed_ok rs)
     \<and> nr_last_seen_tick m = fold max (map nr_last_seen_tick rs) (nr_last_seen_tick e)
     \<and> set (nr_underlays m) = set (nr_underlays e) \<union> (\<Union>r\<in>set rs. set (nr_underlays r))
     \<and> nr_rtt_ms m = fold (\<lambda>r acc. if r \<noteq> None then r else acc) (map nr_rtt_ms rs) (nr_rtt_ms e)"
proof (induction rs arbitrary: e)
  case Nil
  then show ?case by simp
next
  case (Cons r rs)
  show ?case
    using Cons.IH [of "merge_record e r"] by (auto simp: set_push_new max.commute)
qed

section \<open>Bins\<close>

lemma length_bin_loop [simp]: "length (bin_loop ref ns bins) = length bins"
  by (induction ns arbitrary: bins) (auto simp: Let_def)

lemma nth_bin_loop:
  "p < length bins \<Longrightarrow>
   bin_loop ref ns bins ! p =
     bins ! p + length (filter (\<lambda>n. proximity ref (nr_overlay n) = p) ns)"
  by (induction ns arbitrary: bins) (auto simp: Let_def nth_list_update)

lemma sum_list_bump: "p < length bins \<Longrightarrow> sum_list (bins[p := Suc (bins ! p)]) = Suc (sum_list bins)"
  by (simp add: sum_list_update member_le_sum_list)

lemma sum_bin_loop:
  "MAX_PO < length bins \<Longrightarrow> sum_list (bin_loop ref ns bins) = sum_list bins + length ns"
proof (induction ns arbitrary: bins)
  case Nil
  then show ?case by simp
next
  case (Cons n ns)
  then have "proximity ref (nr_overlay n) < length bins"
    using proximity_le_MAX_PO [of ref "nr_overlay n"] by simp
  with Cons show ?case by (simp add: Let_def sum_list_bump)
qed

section \<open>Storer lookup\<close>

lemma set_storers_for:
  "set (storers_for c chunk d) = {n \<in> set (topology_records c). d \<le> proximity (nr_overlay n) chunk}"
  by (auto simp: storers_for_def)

lemma mset_storers_for:
  "mset (storers_for c chunk d) =
     filter_mset (\<lambda>n. d \<le> proximity (nr_overlay n) chunk) (mset (topology_records c))"
  by (simp add: storers_for_def mset_filter)

lemma sorted_storers_for: "sorted (map rtt_key (storers_for c chunk d))"
  by (simp add: storers_for_def)

section \<open>Coverage\<close>

lemma chunk_covered_iff:
  "chunk_covered c d chunk \<longleftrightarrow> storers_for c chunk d \<noteq> []"
proof -
  have "storers_for c chunk d \<noteq> [] \<longleftrightarrow> set (storers_for c chunk d) \<noteq> {}" by simp
  then show ?thesis
    by (auto simp: set_storers_for chunk_covered_def list_ex_iff)
qed

lemma chunk_covered_fun: "chunk_covered c d = (\<lambda>x. storers_for c x d \<noteq> [])"
  by (rule ext) (rule chunk_covered_iff)

lemma chunk_covered_nbhd:
  assumes "topology_inv c" "wf_addr x" "wf_addr y" "d \<le> MAX_PO"
    and eq: "neighborhood x d = neighborhood y d" and cov: "chunk_covered c d x"
  shows "chunk_covered c d y"
proof -
  from cov obtain n where n: "n \<in> set (topology_records c)" "d \<le> proximity (nr_overlay n) x"
    by (auto simp: chunk_covered_def list_ex_iff)
  with assms have "neighborhood (nr_overlay n) d = neighborhood y d"
    using records_wf neighborhood_eq_iff_proximity [of "nr_overlay n" x d] by metis
  with n assms have "d \<le> proximity (nr_overlay n) y"
    using records_wf neighborhood_eq_iff_proximity [of "nr_overlay n" y d] by metis
  with n show ?thesis by (auto simp: chunk_covered_def list_ex_iff)
qed

lemma neighborhood_Some: "d \<le> 32 \<Longrightarrow> \<exists>nb. neighborhood a d = Some nb"
  by (auto simp: neighborhood_def Let_def)

lemma coverage_loop_spec:
  assumes "d \<le> 32" "hm_wf nbhds"
  shows "\<exists>m. coverage_loop c d chunks nbhds cov =
           Some (m, cov + length (filter (chunk_covered c d) chunks))
       \<and> hm_wf m
       \<and> Some ` hm_keys m = Some ` hm_keys nbhds \<union> (\<lambda>x. neighborhood x d) ` set chunks
       \<and> (\<forall>nb. hm_get_or m False nb \<longleftrightarrow>
             hm_get_or nbhds False nb
             \<or> (\<exists>x \<in> set chunks. neighborhood x d = Some nb \<and> chunk_covered c d x))"
  using assms(2)
proof (induction chunks arbitrary: nbhds cov)
  case Nil
  then show ?case by simp
next
  case (Cons x xs)
  obtain nb where nb: "neighborhood x d = Some nb"
    using neighborhood_Some [OF assms(1)] by blast
  let ?m = "hm_insert nb (hm_get_or nbhds False nb \<or> chunk_covered c d x) nbhds"
  let ?cov = "if chunk_covered c d x then Suc cov else cov"
  have wf: "hm_wf ?m" using Cons.prems by simp
  obtain m where m: "coverage_loop c d xs ?m ?cov =
        Some (m, ?cov + length (filter (chunk_covered c d) xs))" "hm_wf m"
      "Some ` hm_keys m = Some ` hm_keys ?m \<union> (\<lambda>x. neighborhood x d) ` set xs"
      "\<forall>nb. hm_get_or m False nb \<longleftrightarrow> hm_get_or ?m False nb
         \<or> (\<exists>x \<in> set xs. neighborhood x d = Some nb \<and> chunk_covered c d x)"
    using Cons.IH [OF wf, of ?cov] by (elim exE conjE) (rule that)
  have "coverage_loop c d (x # xs) nbhds cov = Some (m, cov + length (filter (chunk_covered c d) (x # xs)))"
    using m(1) nb by (simp add: Let_def)
  moreover have "Some ` hm_keys m = Some ` hm_keys nbhds \<union> (\<lambda>x. neighborhood x d) ` set (x # xs)"
    using m(3) nb by (simp add: hm_keys_insert)
  moreover have "hm_get_or m False nb' \<longleftrightarrow> hm_get_or nbhds False nb'
      \<or> (\<exists>x \<in> set (x # xs). neighborhood x d = Some nb' \<and> chunk_covered c d x)" for nb'
    using m(4) nb by (cases "nb' = nb") (auto simp: hm_get_or_insert)
  ultimately show ?case using m(2) by blast
qed

lemma hm_true_values:
  assumes "hm_wf m"
  shows "length (filter id (hm_values m)) = card {k. hm_get_or m False k}"
proof -
  have "{k. hm_get_or m False k} = set (map fst (filter snd m))"
  proof (intro set_eqI)
    fix k
    have "hm_get_or m False k \<longleftrightarrow> (k, True) \<in> set m"
      using assms by (auto simp: hm_get_or_def split: option.splits
        simp flip: hm_get_Some_iff)
    then show "k \<in> {k. hm_get_or m False k} \<longleftrightarrow> k \<in> set (map fst (filter snd m))"
      by force
  qed
  moreover have "distinct (map fst (filter snd m))"
    using assms by (simp add: hm_wf_def distinct_map_filter)
  ultimately have "card {k. hm_get_or m False k} = length (filter snd m)"
    by (metis distinct_card length_map)
  then show ?thesis by (simp add: filter_map o_def id_def)
qed

lemma coverage_panics: "32 < d \<Longrightarrow> chunks \<noteq> [] \<Longrightarrow> coverage_of c chunks d = None"
  by (cases chunks) (auto simp: coverage_of_def neighborhood_def)

lemma coverage_of_spec:
  assumes "d \<le> 32"
  shows "coverage_of c chunks d = Some
     \<lparr>chunks_covered = length (filter (chunk_covered c d) chunks),
      chunks_total = length chunks,
      neighborhoods_total = card ((\<lambda>x. neighborhood x d) ` set chunks),
      neighborhoods_covered =
        card ((\<lambda>x. neighborhood x d) ` {x \<in> set chunks. chunk_covered c d x})\<rparr>"
proof -
  obtain m where m: "coverage_loop c d chunks [] 0 = Some (m, length (filter (chunk_covered c d) chunks))"
      "hm_wf m" "Some ` hm_keys m = (\<lambda>x. neighborhood x d) ` set chunks"
      "\<forall>nb. hm_get_or m False nb \<longleftrightarrow>
         (\<exists>x \<in> set chunks. neighborhood x d = Some nb \<and> chunk_covered c d x)"
    using coverage_loop_spec [OF assms hm_wf_Nil, of c chunks 0] by (auto simp: hm_get_or_def)
  have "length m = card (Some ` hm_keys m)"
    using m(2) by (simp add: hm_length card_image)
  moreover have "Some ` {k. hm_get_or m False k}
      = (\<lambda>x. neighborhood x d) ` {x \<in> set chunks. chunk_covered c d x}"
  proof -
    have "neighborhood x d \<in> Some ` {k. hm_get_or m False k}"
      if "x \<in> set chunks" "chunk_covered c d x" for x
      using that m(4) neighborhood_Some [OF assms, of x] by force
    then show ?thesis using m(4) by force
  qed
  then have "length (filter id (hm_values m))
      = card ((\<lambda>x. neighborhood x d) ` {x \<in> set chunks. chunk_covered c d x})"
    using hm_true_values [OF m(2)] card_image [of Some "{k. hm_get_or m False k}"] by simp
  ultimately show ?thesis
    using m by (simp add: coverage_of_def)
qed

section \<open>Properties\<close>

text \<open>
  Whatever order a crawl reports its sightings in, the cache holds one record per overlay, whose
  last-seen tick is the largest reported, whose dialed flag is set once any sighting dialed it,
  whose underlays are all those reported, and whose latency is the last one measured.
\<close>
theorem crawl_merges_sightings:
  assumes "list_all (\<lambda>r. wf_addr (nr_overlay r)) (e # rs)" "list_all (\<lambda>r. nr_overlay r = nr_overlay e) rs"
    and "list_all (\<lambda>r. nr_overlay r \<noteq> nr_overlay e) others"
    and "mixed \<in> shuffles (e # rs) others"
  shows "\<exists>m. topology_get (fold upsert mixed (topology_new ref)) (nr_overlay e) = Some m
     \<and> nr_dialed_ok m = (nr_dialed_ok e \<or> list_ex nr_dialed_ok rs)
     \<and> nr_last_seen_tick m = fold max (map nr_last_seen_tick rs) (nr_last_seen_tick e)
     \<and> set (nr_underlays m) = set (nr_underlays e) \<union> (\<Union>r\<in>set rs. set (nr_underlays r))
     \<and> nr_rtt_ms m = fold (\<lambda>r acc. if r \<noteq> None then r else acc) (map nr_rtt_ms rs) (nr_rtt_ms e)"
proof -
  have "filter (\<lambda>r. nr_overlay r = nr_overlay e) (e # rs) = e # rs"
    using assms(2) by (simp add: list_all_iff)
  moreover have "filter (\<lambda>r. nr_overlay r = nr_overlay e) others = []"
    using assms(3) by (simp add: list_all_iff filter_empty_conv)
  moreover have "filter (\<lambda>r. nr_overlay r = nr_overlay e) mixed
      \<in> shuffles (filter (\<lambda>r. nr_overlay r = nr_overlay e) (e # rs)) (filter (\<lambda>r. nr_overlay r = nr_overlay e) others)"
    using assms(4) filter_shuffles by blast
  ultimately have "filter (\<lambda>r. nr_overlay r = nr_overlay e) mixed = e # rs" by simp
  then show ?thesis
    using absorb_Some [of e rs] get_fold_upsert [of mixed "topology_new ref" "nr_overlay e"]
    by (simp add: topology_new_def topology_get_def) blast
qed

definition sample_node :: "u64 \<Rightarrow> string \<Rightarrow> node_record" where
  "sample_node t u = \<lparr>nr_overlay = replicate 32 1, nr_underlays = [u], nr_rtt_ms = None, nr_last_seen_tick = t, nr_dialed_ok = False\<rparr>"

theorem crawl_merges_sightings_witness:
  "\<exists>m. topology_get (fold upsert [sample_node 3 ''a'', sample_node 2 ''b''] (topology_new (replicate 32 0))) (replicate 32 1) = Some m
     \<and> nr_last_seen_tick m = 3 \<and> set (nr_underlays m) = {''a'', ''b''}"
  using crawl_merges_sightings [of "sample_node 3 ''a''" "[sample_node 2 ''b'']" "[]"
      "[sample_node 3 ''a'', sample_node 2 ''b'']" "replicate 32 0"]
  by (simp add: sample_node_def wf_addr_def) (auto simp: insert_commute)

text \<open>
  The storers returned for a chunk are exactly the cached nodes of its neighborhood, each once,
  in order of increasing round-trip time with unmeasured nodes last.
\<close>
theorem storers_for_correct:
  assumes "topology_inv c" "wf_addr chunk" "d \<le> 31"
  shows "mset (storers_for c chunk d)
      = filter_mset (\<lambda>n. neighborhood (nr_overlay n) d = neighborhood chunk d) (mset (topology_records c))
    \<and> sorted (map rtt_key (storers_for c chunk d))"
proof -
  have "d \<le> proximity (nr_overlay n) chunk \<longleftrightarrow> neighborhood (nr_overlay n) d = neighborhood chunk d"
    if "n \<in># mset (topology_records c)" for n
    using that assms records_wf [OF assms(1), of n]
    by (simp add: neighborhood_eq_iff_proximity MAX_PO_def)
  then show ?thesis
    using sorted_storers_for [of c chunk d] unfolding mset_storers_for
    by (auto intro!: filter_mset_cong)
qed

theorem storers_for_correct_witness:
  "sorted (map rtt_key (storers_for (upsert (sample_node 3 ''a'') (topology_new (replicate 32 0))) (replicate 32 1) 8))"
proof -
  have "topology_inv (upsert (sample_node 3 ''a'') (topology_new (replicate 32 0)))"
    by (rule upsert_inv) (simp_all add: sample_node_def wf_addr_def)
  from storers_for_correct [OF this, of "replicate 32 1" 8] show ?thesis by (simp add: wf_addr_def)
qed

text \<open>
  The coverage report counts the chunks that have a storer, the distinct neighborhoods of the
  chunks and the distinct covered neighborhoods; a chunk counts as covered exactly when its whole
  neighborhood does, and a depth beyond 32 panics.
\<close>
theorem coverage_correct:
  assumes "topology_inv c" "list_all wf_addr chunks" "d \<le> 31"
  shows "coverage_of c chunks d = Some
     \<lparr>chunks_covered = length (filter (\<lambda>x. storers_for c x d \<noteq> []) chunks),
      chunks_total = length chunks,
      neighborhoods_total = card ((\<lambda>x. neighborhood x d) ` set chunks),
      neighborhoods_covered = card ((\<lambda>x. neighborhood x d) ` {x \<in> set chunks. storers_for c x d \<noteq> []})\<rparr>
    \<and> (\<forall>x \<in> set chunks. \<forall>y \<in> set chunks. neighborhood x d = neighborhood y d \<longrightarrow>
         (storers_for c x d \<noteq> []) = (storers_for c y d \<noteq> []))
    \<and> (chunks \<noteq> [] \<longrightarrow> coverage_of c chunks 33 = None)"
proof (intro conjI ballI impI)
  show "coverage_of c chunks d = Some
     \<lparr>chunks_covered = length (filter (\<lambda>x. storers_for c x d \<noteq> []) chunks),
      chunks_total = length chunks,
      neighborhoods_total = card ((\<lambda>x. neighborhood x d) ` set chunks),
      neighborhoods_covered = card ((\<lambda>x. neighborhood x d) ` {x \<in> set chunks. storers_for c x d \<noteq> []})\<rparr>"
    using coverage_of_spec [of d c chunks] assms(3) by (simp add: chunk_covered_fun)
  show "(storers_for c x d \<noteq> []) = (storers_for c y d \<noteq> [])"
    if "x \<in> set chunks" "y \<in> set chunks" "neighborhood x d = neighborhood y d" for x y
    using that assms chunk_covered_nbhd [of c x y d] chunk_covered_nbhd [of c y x d]
    by (auto simp: chunk_covered_iff list_all_iff MAX_PO_def)
  show "coverage_of c chunks 33 = None" if "chunks \<noteq> []" using that by (simp add: coverage_panics)
qed

theorem coverage_correct_witness:
  "\<exists>cov. coverage_of (upsert (sample_node 3 ''a'') (topology_new (replicate 32 0))) [replicate 32 1, replicate 32 2] 8 = Some cov
     \<and> chunks_total cov = 2"
proof -
  have "topology_inv (upsert (sample_node 3 ''a'') (topology_new (replicate 32 0)))"
    by (rule upsert_inv) (simp_all add: sample_node_def wf_addr_def)
  from coverage_correct [OF this, of "[replicate 32 1, replicate 32 2]" 8] show ?thesis by (simp add: wf_addr_def)
qed

text \<open>
  At depth 32, which the neighborhood routine accepts, no chunk ever has a storer, since
  proximity is capped at 31: coverage reports zero for every cache, even one that holds a node at the chunk's
  own address.
\<close>
theorem coverage_blind_at_depth_32:
  "storers_for c chunk 32 = [] \<and> map_option chunks_covered (coverage_of c chunks 32) = Some 0
   \<and> neighborhood chunk 32 \<noteq> None"
proof -
  have none: "storers_for c x 32 = []" for x
  proof -
    have "\<not> 32 \<le> proximity y x" for y using proximity_le_MAX_PO [of y x] by (simp add: MAX_PO_def)
    then show ?thesis by (simp add: storers_for_def)
  qed
  then show ?thesis
    using coverage_of_spec [of 32 c chunks] neighborhood_Some [of 32 chunk]
    by (simp add: chunk_covered_fun)
qed

text \<open>
  The proximity bins count every cached node exactly once: bin \<open>p\<close> holds the number of nodes at
  proximity \<open>p\<close> from the reference, there are 32 bins, and they sum to the size of the cache.
\<close>
theorem bin_counts_correct:
  "length (bin_counts c) = 32 \<and> sum_list (bin_counts c) = topology_len c \<and>
   list_all (\<lambda>p. bin_counts c ! p
      = length (filter (\<lambda>n. proximity (tc_reference c) (nr_overlay n) = p) (topology_records c))) [0..<32]"
  using sum_bin_loop [of "replicate (MAX_PO + 1) 0" "tc_reference c" "topology_records c"]
  by (simp add: bin_counts_def MAX_PO_def nth_bin_loop list_all_iff topology_len_def topology_records_def
      sum_list_replicate)

end
