(* ===== verification/Peerstate.thy ===== *)
theory Peerstate
  imports Resume
begin

text \<open>
  Per-peer settlement memory (\<^verbatim>\<open>rust/ds-net/src/peerstate.rs\<close>): a map from overlay to what past
  connections learned, merged by \<open>record\<close> under a mutex and rewritten as a CSV file after the mutex
  is released. The \<open>hex\<close> crate and the clock (\<open>now\<close>) are parameters; \<open>u32::midpoint\<close> rounds down.
\<close>

section \<open>State and operations\<close>

record peer_state =
  ps_threshold_last :: u64
  ps_lambda_ms :: "u64 option"
  ps_settled_units :: u64
  ps_service_cps_x10 :: u32
  ps_surplus_units :: u64
  ps_last_ok_unix :: u64

record peer_observation =
  po_threshold :: u64
  po_lambda_ms :: "u64 option"
  po_settled_units_delta :: u64
  po_service_cps_x10 :: "u32 option"
  po_surplus_units_abs :: "u64 option"
  po_clean_close :: bool

type_synonym peer_map = "(swarm_address, peer_state) hash_map"

definition peer_default :: peer_state where
  "peer_default = \<lparr>ps_threshold_last = 0, ps_lambda_ms = None, ps_settled_units = 0,
     ps_service_cps_x10 = 0, ps_surplus_units = 0, ps_last_ok_unix = 0\<rparr>"

definition HEADER :: string where
  "HEADER = ''overlay_hex,threshold_last,lambda_ms,settled_units,last_ok_unix,service_cps_x10,surplus_units''"

definition parse_or_zero :: "string \<Rightarrow> 'a::len word" where
  "parse_or_zero s = (case parse_uint s of Some n \<Rightarrow> n | None \<Rightarrow> 0)"

definition column_or_zero :: "string list \<Rightarrow> nat \<Rightarrow> 'a::len word" where
  "column_or_zero cols i = (if i < length cols then parse_or_zero (cols ! i) else 0)"

definition parse_peer_row :: "(nat \<Rightarrow> string \<Rightarrow> bytes option) \<Rightarrow> string \<Rightarrow> (swarm_address \<times> peer_state) option" where
  "parse_peer_row hex_decode line =
     (let cols = split_on (CHR '','') line in
      case cols of
        oh # t # l # s # ok # _ \<Rightarrow>
          (case hex_decode 32 oh of
             None \<Rightarrow> None
           | Some overlay \<Rightarrow> Some (overlay,
               \<lparr>ps_threshold_last = parse_or_zero t, ps_lambda_ms = parse_uint l,
                ps_settled_units = parse_or_zero s, ps_service_cps_x10 = column_or_zero cols 5,
                ps_surplus_units = column_or_zero cols 6, ps_last_ok_unix = parse_or_zero ok\<rparr>))
      | _ \<Rightarrow> None)"

definition peerstate_open :: "(nat \<Rightarrow> string \<Rightarrow> bytes option) \<Rightarrow> disk \<Rightarrow> peer_map" where
  "peerstate_open hex_decode d =
     (case dk_file d of
        None \<Rightarrow> []
      | Some txt \<Rightarrow> hm_of_list (read_rows (parse_peer_row hex_decode) (drop 1 (str_lines txt))))"

definition peerstate_get :: "swarm_address \<Rightarrow> peer_map \<Rightarrow> peer_state option" where
  "peerstate_get overlay m = hm_get m overlay"

definition midpoint :: "u32 \<Rightarrow> u32 \<Rightarrow> u32" where
  "midpoint a b = of_nat ((unat a + unat b) div 2)"

definition merge_observation :: "u64 \<Rightarrow> peer_observation \<Rightarrow> peer_state \<Rightarrow> peer_state" where
  "merge_observation now obs e =
     \<lparr>ps_threshold_last = max (ps_threshold_last e) (po_threshold obs),
      ps_lambda_ms = (if po_lambda_ms obs \<noteq> None then po_lambda_ms obs else ps_lambda_ms e),
      ps_settled_units = sat_add (ps_settled_units e) (po_settled_units_delta obs),
      ps_service_cps_x10 =
        (case po_service_cps_x10 obs of
           None \<Rightarrow> ps_service_cps_x10 e
         | Some r \<Rightarrow> if ps_service_cps_x10 e = 0 then r else midpoint (ps_service_cps_x10 e) r),
      ps_surplus_units = (case po_surplus_units_abs obs of None \<Rightarrow> ps_surplus_units e | Some su \<Rightarrow> su),
      ps_last_ok_unix = (if po_clean_close obs then now else ps_last_ok_unix e)\<rparr>"

definition record_locked :: "u64 \<Rightarrow> swarm_address \<Rightarrow> peer_observation \<Rightarrow> peer_map \<Rightarrow> peer_map" where
  "record_locked now overlay obs m =
     hm_insert overlay (merge_observation now obs (hm_get_or m peer_default overlay)) m"

definition render_peer_row :: "(bytes \<Rightarrow> string) \<Rightarrow> swarm_address \<times> peer_state \<Rightarrow> string" where
  "render_peer_row hex_encode row =
     (case row of (overlay, s) \<Rightarrow> join_with (CHR '','')
        [hex_encode overlay, show_uint (ps_threshold_last s),
         (case ps_lambda_ms s of None \<Rightarrow> [] | Some l \<Rightarrow> show_uint l),
         show_uint (ps_settled_units s), show_uint (ps_last_ok_unix s),
         show_uint (ps_service_cps_x10 s), show_uint (ps_surplus_units s)])"

definition peerstate_save :: "io_fault \<Rightarrow> (bytes \<Rightarrow> string) \<Rightarrow> peer_map \<Rightarrow> disk \<Rightarrow> (io_fault, unit) result \<times> disk" where
  "peerstate_save fault hex_encode entries d =
     replace_file fault (unlines (HEADER # map (render_peer_row hex_encode) entries)) d"

definition peerstate_record ::
  "io_fault \<Rightarrow> u64 \<Rightarrow> (bytes \<Rightarrow> string) \<Rightarrow> swarm_address \<Rightarrow> peer_observation \<Rightarrow> peer_map \<times> disk \<Rightarrow> peer_map \<times> disk" where
  "peerstate_record fault now hex_encode overlay obs md =
     (let m = record_locked now overlay obs (fst md)
      in (m, snd (peerstate_save fault hex_encode m (snd md))))"

text \<open>
  The mutex covers the merge and the snapshot, the file is written after it is released: two
  concurrent calls are two snapshots and two saves in any order.
\<close>

record peerstate_system =
  py_map :: peer_map
  py_disk :: disk
  py_saving :: "peer_map multiset"

inductive peerstate_step :: "(bytes \<Rightarrow> string) \<Rightarrow> peerstate_system \<Rightarrow> peerstate_system \<Rightarrow> bool" for hex_encode where
  merge: "m = record_locked now overlay obs (py_map s) \<Longrightarrow>
     peerstate_step hex_encode s (s\<lparr>py_map := m, py_saving := add_mset m (py_saving s)\<rparr>)"
| save: "m \<in># py_saving s \<Longrightarrow> peerstate_step hex_encode s
     (s\<lparr>py_disk := snd (peerstate_save fault hex_encode m (py_disk s)), py_saving := py_saving s - {#m#}\<rparr>)"

section \<open>CSV round trip\<close>

lemma lambda_column [simp]:
  "parse_uint (case l of None \<Rightarrow> [] | Some l \<Rightarrow> show_uint l) = (l :: u64 option)"
  by (cases l) simp_all

lemma parse_or_zero_show [simp]: "parse_or_zero (show_uint w) = (w :: 'a::len word)"
  by (simp add: parse_or_zero_def)

lemma lambda_column_no_sep:
  "NL \<notin> set (case l of None \<Rightarrow> [] | Some l \<Rightarrow> show_uint l)" "CR \<notin> set (case l of None \<Rightarrow> [] | Some l \<Rightarrow> show_uint l)"
  "CHR '','' \<notin> set (case l of None \<Rightarrow> [] | Some l \<Rightarrow> show_uint l)"
  by (cases l; simp)+

sublocale hex_codec \<subseteq> peer_rows: row_format "\<lambda>(overlay, s). length overlay = 32" "render_peer_row hex_encode"
  "parse_peer_row hex_decode"
proof
  fix row :: "swarm_address \<times> peer_state"
  assume "case row of (overlay, s) \<Rightarrow> length overlay = 32"
  then obtain a s where row: "row = (a, s)" and a: "length a = 32" by (cases row) simp
  have "hex_decode 32 (hex_encode a) = Some a"
    using decode_encode [of a] a by simp
  then show "parse_peer_row hex_decode (render_peer_row hex_encode row) = Some row"
    using encode_no_sep(3) [of a] lambda_column_no_sep(3) [of "ps_lambda_ms s"]
    by (simp add: row render_peer_row_def parse_peer_row_def split_on_append split_on_no_sep column_or_zero_def)
  have comma: "NL \<noteq> CHR '',''" "CR \<noteq> CHR '',''" by (simp_all add: NL_def CR_def)
  show "NL \<notin> set (render_peer_row hex_encode row)" "CR \<notin> set (render_peer_row hex_encode row)"
    using encode_no_sep [of a] lambda_column_no_sep [of "ps_lambda_ms s"] comma
    by (simp_all add: row render_peer_row_def)
qed

definition peer_map_ok :: "peer_map \<Rightarrow> bool" where
  "peer_map_ok m \<longleftrightarrow> hm_wf m \<and> list_all (\<lambda>(overlay, s). length overlay = 32) m"

lemma HEADER_line: "NL \<notin> set HEADER \<and> CR \<notin> set HEADER"
  by (simp add: HEADER_def NL_def CR_def)

context hex_codec
begin

lemma open_saved:
  assumes "peer_map_ok m" "dk_file d = Some (unlines (HEADER # map (render_peer_row hex_encode) m))"
  shows "hm_get (peerstate_open hex_decode d) = hm_get m"
proof -
  have ok: "list_all (\<lambda>(overlay, s). length overlay = 32) m" "hm_wf m"
    using assms(1) by (simp_all add: peer_map_ok_def)
  have "str_lines (unlines (HEADER # map (render_peer_row hex_encode) m)) = HEADER # map (render_peer_row hex_encode) m"
    using peer_rows.file_lines [of "[HEADER]" m] ok(1) HEADER_line by simp
  then show ?thesis
    using peer_rows.read_back [OF ok(1)] ok(2)
    by (auto simp: peerstate_open_def assms(2) hm_get_of_list_wf)
qed

end

lemma peer_map_ok_keys: "peer_map_ok m \<longleftrightarrow> hm_wf m \<and> (\<forall>k \<in> hm_keys m. length k = 32)"
  by (auto simp: peer_map_ok_def list_all_iff)

lemma peer_map_ok_record: "peer_map_ok m \<Longrightarrow> length ov = 32 \<Longrightarrow> peer_map_ok (record_locked now ov obs m)"
  by (simp add: peer_map_ok_keys record_locked_def hm_keys_insert)

lemma peerstate_save_file:
  "dk_file (snd (peerstate_save f h m d)) = (if f = NoFault then Some (unlines (HEADER # map (render_peer_row h) m)) else dk_file d)"
  by (simp add: peerstate_save_def replace_file_atomic)

lemma fold_merge_settled:
  "unat (ps_settled_units (fold (merge_observation now) obs e)) =
     min (unat (ps_settled_units e) + sum_list (map (unat \<circ> po_settled_units_delta) obs)) (2 ^ 64 - 1)"
proof (induction obs arbitrary: e)
  case Nil
  then show ?case using u64_less [of "ps_settled_units e"] by simp
next
  case (Cons ob obs)
  then show ?case by (auto simp: merge_observation_def unat_sat_add min_def)
qed

lemma fold_merge_threshold:
  "ps_threshold_last (fold (merge_observation now) obs e) = fold max (map po_threshold obs) (ps_threshold_last e)"
  by (induction obs arbitrary: e) (simp_all add: merge_observation_def max.commute)

lemma le_fold_max: "x \<le> fold max xs (x :: 'a::linorder)"
  by (induction xs arbitrary: x) (auto intro: order.trans [OF max.cobounded2])

lemma mem_le_fold_max: "y \<in> set xs \<Longrightarrow> y \<le> fold max xs (x :: 'a::linorder)"
proof (induction xs arbitrary: x)
  case (Cons z xs)
  then show ?case using le_fold_max [of "max z x" xs] by auto
qed simp

lemma get_fold_record:
  "hm_get (fold (record_locked now ov) obs m) ov =
     (if obs = [] then hm_get m ov else Some (fold (merge_observation now) obs (hm_get_or m peer_default ov)))"
proof (induction obs arbitrary: m)
  case (Cons ob obs)
  have "hm_get (record_locked now ov ob m) ov = Some (merge_observation now ob (hm_get_or m peer_default ov))"
    by (simp add: record_locked_def hm_get_insert)
  with Cons show ?case by (auto simp: hm_get_or_def)
qed simp

section \<open>Properties\<close>

text \<open>
  After any non-empty sequence of observations of a peer, its remembered threshold is at least
  every observed one and the earlier value (a lower announcement never regresses it), and its
  settled units are the saturated sum of all deltas.
\<close>
theorem peerstate_observations:
  assumes "obs \<noteq> []"
  shows "\<exists>e. peerstate_get ov (fold (record_locked now ov) obs m) = Some e \<and>
    (\<forall>ob \<in> set obs. po_threshold ob \<le> ps_threshold_last e) \<and>
    ps_threshold_last (hm_get_or m peer_default ov) \<le> ps_threshold_last e \<and>
    unat (ps_settled_units e) = min (unat (ps_settled_units (hm_get_or m peer_default ov))
      + sum_list (map (unat \<circ> po_settled_units_delta) obs)) (2 ^ 64 - 1)"
  using assms
  by (auto simp: peerstate_get_def get_fold_record fold_merge_settled fold_merge_threshold le_fold_max
      intro: mem_le_fold_max)

definition sample_obs :: "u64 \<Rightarrow> u64 \<Rightarrow> peer_observation" where
  "sample_obs t u = \<lparr>po_threshold = t, po_lambda_ms = None, po_settled_units_delta = u,
     po_service_cps_x10 = Some 200, po_surplus_units_abs = None, po_clean_close = True\<rparr>"

theorem peerstate_observations_witness:
  "\<exists>e. peerstate_get (replicate 32 7) (fold (record_locked 5 (replicate 32 7))
      [sample_obs 9450000 1000, sample_obs 1350000 500] []) = Some e
     \<and> 9450000 \<le> ps_threshold_last e \<and> unat (ps_settled_units e) = 1500"
  using peerstate_observations [of "[sample_obs 9450000 1000, sample_obs 1350000 500]" "replicate 32 7" 5 "[]"]
  by (auto simp: sample_obs_def hm_get_or_def peer_default_def)

text \<open>
  C37 Recording an observation whose file is written successfully and reopening the store gives
  back every peer's state, the new one included; when the write fails at any call the old file is
  intact, while the observation stays in memory.
\<close>
theorem peerstate_record_reopen:
  assumes "hex_codec henc hdec" "peer_map_ok m" "length ov = 32"
    and "peerstate_record fault now henc ov obs (m, d) = (m', d')"
  shows "peerstate_get ov m' = Some (merge_observation now obs (hm_get_or m peer_default ov)) \<and>
    (k \<noteq> ov \<longrightarrow> peerstate_get k m' = peerstate_get k m) \<and>
    (if fault = NoFault then peerstate_get k (peerstate_open hdec d') = peerstate_get k m'
     else dk_file d' = dk_file d)"
proof -
  have m': "m' = record_locked now ov obs m" and d': "d' = snd (peerstate_save fault henc m' d)"
    using assms(4) by (auto simp: peerstate_record_def Let_def)
  have ok: "peer_map_ok m'" unfolding m' by (rule peer_map_ok_record [OF assms(2,3)])
  have "hm_get (peerstate_open hdec d') = hm_get m'" if "fault = NoFault"
    using that by (intro hex_codec.open_saved [OF assms(1) ok]) (simp add: d' peerstate_save_file)
  then show ?thesis
    by (simp add: peerstate_get_def d' peerstate_save_file, simp add: m' record_locked_def hm_get_insert)
qed

theorem peerstate_record_reopen_witness:
  "\<exists>m d. peerstate_record NoFault 5 render_root (replicate 32 7) (sample_obs 9 3) ([], \<lparr>dk_file = None, dk_tmp = None\<rparr>) = (m, d)
     \<and> peerstate_get (replicate 32 7) (peerstate_open parse_hex_pairs d)
        = Some (merge_observation 5 (sample_obs 9 3) peer_default)"
proof -
  obtain m d where md: "peerstate_record NoFault 5 render_root (replicate 32 7) (sample_obs 9 3)
      ([], \<lparr>dk_file = None, dk_tmp = None\<rparr>) = (m, d)"
    by (metis prod.exhaust)
  have "peer_map_ok []" by (simp add: peer_map_ok_def)
  from peerstate_record_reopen [OF own_hex.hex_codec_axioms this _ md, of "replicate 32 7"] md
  show ?thesis by (simp add: hm_get_or_def)
qed

text \<open>
  The file is saved after the mutex is released: two concurrent records can write their
  snapshots in the opposite order, after which nothing is left to save and the file lacks the
  later observation that memory holds.
\<close>
theorem peerstate_save_race:
  assumes "m1 = record_locked t1 ov1 ob1 m" "m2 = record_locked t2 ov2 ob2 m1"
  shows "(peerstate_step henc)\<^sup>*\<^sup>* \<lparr>py_map = m, py_disk = d, py_saving = {#}\<rparr>
    \<lparr>py_map = m2, py_disk = snd (peerstate_save NoFault henc m1 (snd (peerstate_save NoFault henc m2 d))),
     py_saving = {#}\<rparr>"
proof -
  let ?s = "\<lambda>m d B. \<lparr>py_map = m, py_disk = d, py_saving = B\<rparr>"
  let ?d = "snd (peerstate_save NoFault henc m2 d)"
  have "peerstate_step henc (?s m d {#}) (?s m1 d {#m1#})"
    using peerstate_step.merge [of m1 t1 ov1 ob1 "?s m d {#}" henc] assms(1) by simp
  moreover have "peerstate_step henc (?s m1 d {#m1#}) (?s m2 d {#m2, m1#})"
    using peerstate_step.merge [of m2 t2 ov2 ob2 "?s m1 d {#m1#}" henc] assms(2) by simp
  moreover have "peerstate_step henc (?s m2 d {#m2, m1#}) (?s m2 ?d {#m1#})"
    using peerstate_step.save [of m2 "?s m2 d {#m2, m1#}" henc NoFault] by simp
  moreover have "peerstate_step henc (?s m2 ?d {#m1#}) (?s m2 (snd (peerstate_save NoFault henc m1 ?d)) {#})"
    using peerstate_step.save [of m1 "?s m2 ?d {#m1#}" henc NoFault] by simp
  ultimately show ?thesis
    by (meson converse_rtranclp_into_rtranclp rtranclp.rtrancl_refl)
qed

theorem peerstate_save_race_witness:
  "(peerstate_step render_root)\<^sup>*\<^sup>* \<lparr>py_map = [], py_disk = \<lparr>dk_file = None, dk_tmp = None\<rparr>, py_saving = {#}\<rparr>
    \<lparr>py_map = record_locked 1 (replicate 32 7) (sample_obs 9 3) (record_locked 0 (replicate 32 7) (sample_obs 5 1) []),
     py_disk = snd (peerstate_save NoFault render_root (record_locked 0 (replicate 32 7) (sample_obs 5 1) [])
       (snd (peerstate_save NoFault render_root (record_locked 1 (replicate 32 7) (sample_obs 9 3)
         (record_locked 0 (replicate 32 7) (sample_obs 5 1) [])) \<lparr>dk_file = None, dk_tmp = None\<rparr>))),
     py_saving = {#}\<rparr>"
  by (rule peerstate_save_race) simp_all

end
