(* ===== verification/Dispatch.thy ===== *)
theory Dispatch
  imports Topology Peerstate "HOL-Library.Product_Lexorder"
begin

text \<open>
  Work distribution of the scheduler (\<^verbatim>\<open>rust/ds-net/src/schedule.rs\<close>): the shared per-bucket
  work pool, the routing of needed chunks into buckets, the fallback queue or the dropped count, the selection of
  candidate storers per bucket, and the critical-path dispatcher that decides which candidate is
  dialed when a slot frees. The pool's mutex makes each of its methods one atomic step. Parsing a
  multiaddress is a parameter (\<open>parse_maddr\<close>).
\<close>

section \<open>Work pool\<close>

type_synonym work_pool = "(u64, swarm_address list) hash_map"

definition pool_pop :: "u64 \<Rightarrow> work_pool \<Rightarrow> swarm_address option \<times> work_pool" where
  "pool_pop prefix b =
     (case hm_get b prefix of
        None \<Rightarrow> (None, b)
      | Some v \<Rightarrow> if v = [] then (None, b) else (Some (last v), hm_insert prefix (butlast v) b))"

definition remaining :: "work_pool \<Rightarrow> u64 \<Rightarrow> nat" where
  "remaining b prefix = (case hm_get b prefix of Some v \<Rightarrow> length v | None \<Rightarrow> 0)"

definition drain_all :: "work_pool \<Rightarrow> swarm_address list \<times> work_pool" where
  "drain_all b = (concat (hm_values b), [])"

section \<open>Routing\<close>

record routed =
  rt_buckets :: work_pool
  rt_fallback :: "swarm_address list"
  rt_dropped :: nat

definition route_one :: "nat \<Rightarrow> u64 set \<Rightarrow> bool \<Rightarrow> swarm_address \<Rightarrow> routed \<Rightarrow> routed" where
  "route_one depth covered direct_only addr r =
     (let p = bucket_prefix addr depth in
      if p \<in> covered then r\<lparr>rt_buckets := hm_push p addr (rt_buckets r)\<rparr>
      else if direct_only then r\<lparr>rt_dropped := rt_dropped r + 1\<rparr>
      else r\<lparr>rt_fallback := rt_fallback r @ [addr]\<rparr>)"

definition route :: "nat \<Rightarrow> u64 set \<Rightarrow> bool \<Rightarrow> swarm_address list \<Rightarrow> routed" where
  "route depth covered direct_only needed =
     fold (route_one depth covered direct_only) needed \<lparr>rt_buckets = [], rt_fallback = [], rt_dropped = 0\<rparr>"

section \<open>Candidate selection\<close>

record 'm selected =
  se_underlay :: 'm
  se_overlay :: swarm_address
  se_prefix :: u64

definition ASSUMED_CPS_X10 :: u64 where "ASSUMED_CPS_X10 = 140"

definition public_dialable :: "(string \<Rightarrow> 'm option) \<Rightarrow> string \<Rightarrow> 'm option" where
  "public_dialable parse_maddr u =
     (if starts_with ''/ip4/'' u \<and> \<not> starts_with ''/ip4/10.'' u \<and> \<not> starts_with ''/ip4/192.168'' u
         \<and> \<not> starts_with ''/ip4/172.'' u \<and> \<not> str_contains ''/ws'' u
      then parse_maddr u else None)"

type_synonym 'm candidate = "u64 \<times> nat \<times> u64 \<times> u32 \<times> 'm \<times> swarm_address"

definition lambda_class :: "peer_state \<Rightarrow> nat" where
  "lambda_class ps = (case ps_lambda_ms ps of Some l \<Rightarrow> if l \<le> 2500 then 0 else 2 | None \<Rightarrow> 1)"

definition eff_rate :: "peer_state \<Rightarrow> u64" where
  "eff_rate ps = (if 0 < ps_service_cps_x10 ps then ucast (ps_service_cps_x10 ps) else ASSUMED_CPS_X10)"

definition candidate_of ::
  "(string \<Rightarrow> 'm option) \<Rightarrow> peer_map \<Rightarrow> node_record \<Rightarrow> 'm candidate option" where
  "candidate_of parse_maddr peers rec =
     map_option (\<lambda>underlay.
        let ps = (case peerstate_get (nr_overlay rec) peers of Some s \<Rightarrow> s | None \<Rightarrow> peer_default)
        in (- 1 - eff_rate ps, lambda_class ps, - 1 - ps_threshold_last ps,
            (case nr_rtt_ms rec of Some r \<Rightarrow> r | None \<Rightarrow> - 1), underlay, nr_overlay rec))
       (find_map (public_dialable parse_maddr) (nr_underlays rec))"

definition add_candidate ::
  "(string \<Rightarrow> 'm option) \<Rightarrow> peer_map \<Rightarrow> nat \<Rightarrow> u64 set \<Rightarrow> node_record \<Rightarrow>
   (u64, 'm candidate list) hash_map \<Rightarrow> (u64, 'm candidate list) hash_map" where
  "add_candidate parse_maddr peers depth wanted rec m =
     (let p = bucket_prefix (nr_overlay rec) depth in
      if p \<notin> wanted then m
      else case candidate_of parse_maddr peers rec of None \<Rightarrow> m | Some c \<Rightarrow> hm_push p c m)"

definition candidate_key :: "'m candidate \<Rightarrow> u64 \<times> nat \<times> u64 \<times> u32" where
  "candidate_key c = (case c of (a, b, t, r, _) \<Rightarrow> (a, b, t, r))"

definition to_member :: "u64 \<Rightarrow> 'm candidate \<Rightarrow> 'm selected \<times> u64" where
  "to_member p c =
     (case c of (c0, _, _, _, underlay, overlay) \<Rightarrow>
        (\<lparr>se_underlay = underlay, se_overlay = overlay, se_prefix = p\<rparr>, - 1 - c0))"

definition select_storers ::
  "(string \<Rightarrow> 'm option) \<Rightarrow> topology_cache \<Rightarrow> swarm_address list \<Rightarrow> nat \<Rightarrow> nat \<Rightarrow> peer_map \<Rightarrow>
   (u64, ('m selected \<times> u64) list) hash_map" where
  "select_storers parse_maddr cache needed depth redundancy peers =
     (let wanted = set (map (\<lambda>a. bucket_prefix a depth) needed);
          per_bucket = fold (add_candidate parse_maddr peers depth wanted) (topology_records cache) []
      in map (\<lambda>(p, cands). (p, map (to_member p) (sort_key candidate_key cands))) per_bucket)"

section \<open>Dispatcher\<close>

record 'm dispatch =
  di_cands :: "(u64, ('m selected \<times> u64) list) hash_map"
  di_used :: "(u64, ('m selected \<times> u64) list) hash_map"
  di_recycles :: "(u64, nat) hash_map"
  di_active_rate :: "(u64, u64) hash_map"
  di_active_n :: "(u64, nat) hash_map"

definition dispatch_new :: "(u64, ('m selected \<times> u64) list) hash_map \<Rightarrow> 'm dispatch" where
  "dispatch_new cands = \<lparr>di_cands = cands, di_used = [], di_recycles = [], di_active_rate = [], di_active_n = []\<rparr>"

definition wants_refill :: "work_pool \<Rightarrow> 'm dispatch \<Rightarrow> u64 \<times> ('m selected \<times> u64) list \<Rightarrow> bool" where
  "wants_refill pool s pv =
     (case pv of (p, v) \<Rightarrow>
        v \<noteq> [] \<and> hm_get_or (di_cands s) [] p = [] \<and> hm_get_or (di_active_n s) 0 p = 0
        \<and> 30 \<le> remaining pool p \<and> hm_get_or (di_recycles s) 0 p < 3)"

definition recycle_bucket :: "u64 \<Rightarrow> 'm dispatch \<Rightarrow> 'm dispatch" where
  "recycle_bucket p s =
     (let v = hm_get_or (di_used s) [] p
      in s\<lparr>di_used := hm_remove p (di_used s), di_cands := hm_insert p v (di_cands s),
           di_recycles := hm_insert p (hm_get_or (di_recycles s) 0 p + 1) (di_recycles s)\<rparr>)"

definition recycle :: "work_pool \<Rightarrow> 'm dispatch \<Rightarrow> 'm dispatch" where
  "recycle pool s = fold recycle_bucket (map fst (filter (wants_refill pool s) (di_used s))) s"

definition criticality :: "nat \<Rightarrow> u64 \<Rightarrow> u128" where
  "criticality rem rate =
     (let n = sat_mul (of_nat rem) 10000; r = (ucast rate :: u128)
      in if r = 0 then (- 1) div 2 + of_nat rem else n div r)"

definition eligible :: "work_pool \<Rightarrow> 'm dispatch \<Rightarrow> u64 \<times> ('m selected \<times> u64) list \<Rightarrow> bool" where
  "eligible pool s pv =
     (case pv of (p, v) \<Rightarrow>
        v \<noteq> [] \<and> remaining pool p \<noteq> 0 \<and> \<not> (remaining pool p < 30 \<and> 0 < hm_get_or (di_active_n s) 0 p))"

definition bucket_crit :: "work_pool \<Rightarrow> 'm dispatch \<Rightarrow> u64 \<Rightarrow> u128" where
  "bucket_crit pool s p = criticality (remaining pool p) (hm_get_or (di_active_rate s) 0 p)"

fun best_bucket ::
  "work_pool \<Rightarrow> 'm dispatch \<Rightarrow> (u128 \<times> u64) option \<Rightarrow> (u64 \<times> ('m selected \<times> u64) list) list \<Rightarrow> (u128 \<times> u64) option" where
  "best_bucket pool s best [] = best"
| "best_bucket pool s best ((p, v) # cands) =
     (if \<not> eligible pool s (p, v) then best_bucket pool s best cands
      else let crit = bucket_crit pool s p in
           best_bucket pool s
             (case best of None \<Rightarrow> Some (crit, p) | Some (c, _) \<Rightarrow> if c < crit then Some (crit, p) else best) cands)"

definition dial :: "u64 \<Rightarrow> 'm dispatch \<Rightarrow> ('m selected \<times> u64) option \<times> 'm dispatch" where
  "dial p s =
     (case hm_get_or (di_cands s) [] p of
        [] \<Rightarrow> (None, s)
      | (sel, rate) # rest \<Rightarrow>
          (Some (sel, rate),
           s\<lparr>di_cands := hm_insert p rest (di_cands s),
             di_used := hm_push p (sel, rate) (di_used s),
             di_active_rate := hm_insert p (hm_get_or (di_active_rate s) 0 p + max rate 1) (di_active_rate s),
             di_active_n := hm_insert p (hm_get_or (di_active_n s) 0 p + 1) (di_active_n s)\<rparr>))"

definition dispatch_next :: "work_pool \<Rightarrow> 'm dispatch \<Rightarrow> ('m selected \<times> u64) option \<times> 'm dispatch" where
  "dispatch_next pool s =
     (let s1 = recycle pool s in
      case best_bucket pool s1 None (di_cands s1) of
        None \<Rightarrow> (None, s1)
      | Some (_, p) \<Rightarrow> dial p s1)"

definition dispatch_done :: "u64 \<Rightarrow> u64 \<Rightarrow> 'm dispatch \<Rightarrow> 'm dispatch" where
  "dispatch_done prefix rate s =
     (let s1 = (case hm_get (di_active_rate s) prefix of
                  None \<Rightarrow> s
                | Some r \<Rightarrow> s\<lparr>di_active_rate := hm_insert prefix (sat_sub r (max rate 1)) (di_active_rate s)\<rparr>)
      in case hm_get (di_active_n s1) prefix of
           None \<Rightarrow> s1
         | Some n \<Rightarrow> s1\<lparr>di_active_n := hm_insert prefix (n - 1) (di_active_n s1)\<rparr>)"

section \<open>Pool and routing lemmas\<close>

definition pool_chunks :: "work_pool \<Rightarrow> swarm_address multiset" where
  "pool_chunks b = mset (concat (hm_values b))"

lemma pool_pop_Some:
  assumes "pool_pop p b = (Some addr, b')" "hm_wf b"
  shows "pool_chunks b = add_mset addr (pool_chunks b')" "hm_wf b'"
    "remaining b p = Suc (remaining b' p)" "q \<noteq> p \<Longrightarrow> remaining b' q = remaining b q"
proof -
  from assms(1) obtain v where v: "hm_get b p = Some v" "v \<noteq> []" "addr = last v" "b' = hm_insert p (butlast v) b"
    by (auto simp: pool_pop_def split: option.splits if_splits)
  have "mset v = add_mset (last v) (mset (butlast v))"
    using v(2) by (metis append_butlast_last_id mset_append add_mset_add_single mset_single_iff_right)
  then show "pool_chunks b = add_mset addr (pool_chunks b')"
    using mset_values_insert [OF assms(2), of p "butlast v"] v by (simp add: pool_chunks_def hm_get_or_def)
  show "hm_wf b'" "remaining b p = Suc (remaining b' p)" "q \<noteq> p \<Longrightarrow> remaining b' q = remaining b q"
    using assms(2) v by (simp_all add: remaining_def hm_get_insert)
qed

lemma pool_pop_None: "pool_pop p b = (None, b') \<Longrightarrow> b' = b \<and> remaining b p = 0"
  by (auto simp: pool_pop_def remaining_def split: option.splits if_splits)

lemma drain_all_chunks: "drain_all b = (addrs, b') \<Longrightarrow> mset addrs = pool_chunks b \<and> pool_chunks b' = {#}"
  by (auto simp: drain_all_def pool_chunks_def)

lemma pool_chunks_push: "hm_wf b \<Longrightarrow> pool_chunks (hm_push p a b) = add_mset a (pool_chunks b)"
  by (simp add: pool_chunks_def mset_values_push)

lemma route_one_fields:
  "rt_buckets (route_one d C only a r) =
     (if bucket_prefix a d \<in> C then hm_push (bucket_prefix a d) a (rt_buckets r) else rt_buckets r)"
  "rt_fallback (route_one d C only a r) =
     (if bucket_prefix a d \<notin> C \<and> \<not> only then rt_fallback r @ [a] else rt_fallback r)"
  "rt_dropped (route_one d C only a r) =
     (if bucket_prefix a d \<notin> C \<and> only then Suc (rt_dropped r) else rt_dropped r)"
  by (simp_all add: route_one_def Let_def)

lemma fold_route:
  assumes "hm_wf (rt_buckets r)"
  shows "hm_wf (rt_buckets (fold (route_one d C only) needed r))"
    and "pool_chunks (rt_buckets (fold (route_one d C only) needed r))
      = pool_chunks (rt_buckets r) + mset (filter (\<lambda>a. bucket_prefix a d \<in> C) needed)"
    and "rt_fallback (fold (route_one d C only) needed r)
      = rt_fallback r @ (if only then [] else filter (\<lambda>a. bucket_prefix a d \<notin> C) needed)"
    and "rt_dropped (fold (route_one d C only) needed r)
      = rt_dropped r + (if only then length (filter (\<lambda>a. bucket_prefix a d \<notin> C) needed) else 0)"
  using assms
  by (induction needed arbitrary: r) (simp_all add: route_one_fields pool_chunks_push)

lemma route_bucket:
  "hm_get_or (rt_buckets (fold (route_one d C only) needed r)) [] p
     = hm_get_or (rt_buckets r) [] p @ (if p \<in> C then filter (\<lambda>a. bucket_prefix a d = p) needed else [])"
  by (induction needed arbitrary: r) (auto simp: route_one_fields hm_get_or_push)

section \<open>Selection lemmas\<close>

definition bucket_candidates ::
  "(string \<Rightarrow> 'm option) \<Rightarrow> peer_map \<Rightarrow> nat \<Rightarrow> u64 \<Rightarrow> node_record list \<Rightarrow> 'm candidate list" where
  "bucket_candidates pm peers d p recs =
     List.map_filter (candidate_of pm peers) (filter (\<lambda>r. bucket_prefix (nr_overlay r) d = p) recs)"

lemma fold_add_candidate:
  "hm_get_or (fold (add_candidate pm peers d W) recs m) [] p
     = hm_get_or m [] p @ (if p \<in> W then bucket_candidates pm peers d p recs else [])"
  by (induction recs arbitrary: m)
    (auto simp: add_candidate_def Let_def hm_get_or_push bucket_candidates_def map_filter_simps split: option.split)

lemma hm_wf_fold_add: "hm_wf m \<Longrightarrow> hm_wf (fold (add_candidate pm peers d W) recs m)"
  by (induction recs arbitrary: m) (auto simp: add_candidate_def Let_def split: option.split)

lemma hm_get_map_values:
  "hm_get (map (\<lambda>(k, v). (k, f k v)) m) k = map_option (f k) (hm_get m k)"
  by (induction m) auto

lemma hm_wf_map_values: "hm_wf (map (\<lambda>(k, v). (k, f k v)) m) = hm_wf m"
  by (simp add: hm_wf_def comp_def case_prod_beta)

lemma select_storers_bucket:
  "hm_get_or (select_storers pm cache needed d red peers) [] p =
     (if p \<in> (\<lambda>a. bucket_prefix a d) ` set needed
      then map (to_member p) (sort_key candidate_key (bucket_candidates pm peers d p (topology_records cache)))
      else [])"
proof -
  let ?W = "set (map (\<lambda>a. bucket_prefix a d) needed)"
  let ?m = "fold (add_candidate pm peers d ?W) (topology_records cache) []"
  have get: "hm_get (select_storers pm cache needed d red peers) p
      = map_option (\<lambda>cands. map (to_member p) (sort_key candidate_key cands)) (hm_get ?m p)"
    by (simp add: select_storers_def Let_def hm_get_map_values [where f = "\<lambda>p cands. map (to_member p) (sort_key candidate_key cands)"])
  have "hm_get_or ?m [] p = (if p \<in> ?W then bucket_candidates pm peers d p (topology_records cache) else [])"
    using fold_add_candidate [of pm peers d ?W "topology_records cache" "[]" p] by (simp add: hm_get_or_def)
  then show ?thesis
    using get by (cases "hm_get ?m p") (auto simp: hm_get_or_def split: if_splits)
qed

section \<open>Dispatcher lemmas\<close>

abbreviation cands_of :: "'m dispatch \<Rightarrow> u64 \<Rightarrow> ('m selected \<times> u64) list" where
  "cands_of s p \<equiv> hm_get_or (di_cands s) [] p"

abbreviation used_of :: "'m dispatch \<Rightarrow> u64 \<Rightarrow> ('m selected \<times> u64) list" where
  "used_of s p \<equiv> hm_get_or (di_used s) [] p"

abbreviation recycles_of :: "'m dispatch \<Rightarrow> u64 \<Rightarrow> nat" where
  "recycles_of s p \<equiv> hm_get_or (di_recycles s) 0 p"

abbreviation rate_of :: "'m dispatch \<Rightarrow> u64 \<Rightarrow> u64" where
  "rate_of s p \<equiv> hm_get_or (di_active_rate s) 0 p"

abbreviation active_of :: "'m dispatch \<Rightarrow> u64 \<Rightarrow> nat" where
  "active_of s p \<equiv> hm_get_or (di_active_n s) 0 p"

definition dispatch_wf :: "'m dispatch \<Rightarrow> bool" where
  "dispatch_wf s \<longleftrightarrow> hm_wf (di_cands s) \<and> hm_wf (di_used s)"

lemma hm_get_or_remove [hm_simps]: "hm_get_or (hm_remove k m) d k' = (if k' = k then d else hm_get_or m d k')"
  by (simp add: hm_get_or_def hm_get_remove)

lemma hm_mem_get_or: "hm_wf m \<Longrightarrow> (k, v) \<in> set m \<Longrightarrow> hm_get_or m d k = v"
  by (simp add: hm_get_or_def hm_get_Some_iff [symmetric])

lemma hm_get_or_mem: "hm_get_or m d k \<noteq> d \<Longrightarrow> (k, hm_get_or m d k) \<in> set m"
  by (auto simp: hm_get_or_def dest: map_of_SomeD split: option.splits)

lemma recycle_bucket_fields:
  "cands_of (recycle_bucket p s) q = (if q = p then used_of s p else cands_of s q)"
  "used_of (recycle_bucket p s) q = (if q = p then [] else used_of s q)"
  "recycles_of (recycle_bucket p s) q = (if q = p then recycles_of s p + 1 else recycles_of s q)"
  "di_active_rate (recycle_bucket p s) = di_active_rate s"
  "di_active_n (recycle_bucket p s) = di_active_n s"
  "dispatch_wf s \<Longrightarrow> dispatch_wf (recycle_bucket p s)"
  by (simp_all add: recycle_bucket_def Let_def hm_simps dispatch_wf_def)

lemma fold_recycle_fields:
  "distinct ps \<Longrightarrow> cands_of (fold recycle_bucket ps s) q = (if q \<in> set ps then used_of s q else cands_of s q)"
  "distinct ps \<Longrightarrow> used_of (fold recycle_bucket ps s) q = (if q \<in> set ps then [] else used_of s q)"
  "distinct ps \<Longrightarrow> recycles_of (fold recycle_bucket ps s) q = (if q \<in> set ps then recycles_of s q + 1 else recycles_of s q)"
  "di_active_rate (fold recycle_bucket ps s) = di_active_rate s"
  "di_active_n (fold recycle_bucket ps s) = di_active_n s"
  "dispatch_wf s \<Longrightarrow> dispatch_wf (fold recycle_bucket ps s)"
  by (induction ps arbitrary: s) (auto simp: recycle_bucket_fields)

definition refills :: "work_pool \<Rightarrow> 'm dispatch \<Rightarrow> u64 \<Rightarrow> bool" where
  "refills pool s p \<longleftrightarrow> used_of s p \<noteq> [] \<and> cands_of s p = [] \<and> active_of s p = 0
     \<and> 30 \<le> remaining pool p \<and> recycles_of s p < 3"

lemma refill_list:
  assumes "dispatch_wf s"
  shows "distinct (map fst (filter (wants_refill pool s) (di_used s)))"
    "q \<in> set (map fst (filter (wants_refill pool s) (di_used s))) \<longleftrightarrow> refills pool s q"
proof -
  have wf: "hm_wf (di_used s)" using assms by (simp add: dispatch_wf_def)
  then show "distinct (map fst (filter (wants_refill pool s) (di_used s)))"
    by (simp add: hm_wf_def distinct_map_filter)
  have "q \<in> set (map fst (filter (wants_refill pool s) (di_used s)))
      \<longleftrightarrow> (\<exists>v. (q, v) \<in> set (di_used s) \<and> wants_refill pool s (q, v))"
    by force
  also have "\<dots> \<longleftrightarrow> refills pool s q"
    using hm_mem_get_or [OF wf, of q _ "[]"] hm_get_or_mem [of "di_used s" "[]" q]
    by (auto simp: wants_refill_def refills_def)
  finally show "q \<in> set (map fst (filter (wants_refill pool s) (di_used s))) \<longleftrightarrow> refills pool s q" .
qed

lemma recycle_fields:
  assumes "dispatch_wf s"
  shows "cands_of (recycle pool s) q = (if refills pool s q then used_of s q else cands_of s q)"
    "used_of (recycle pool s) q = (if refills pool s q then [] else used_of s q)"
    "recycles_of (recycle pool s) q = (if refills pool s q then recycles_of s q + 1 else recycles_of s q)"
    "di_active_rate (recycle pool s) = di_active_rate s"
    "di_active_n (recycle pool s) = di_active_n s"
    "dispatch_wf (recycle pool s)"
  unfolding recycle_def
  by (simp_all only: fold_recycle_fields(1-3) [OF refill_list(1) [OF assms]] refill_list(2) [OF assms]
      fold_recycle_fields(4,5) fold_recycle_fields(6) [OF assms])

lemma best_bucket_spec:
  assumes "best_bucket pool s best cands = Some (c, p)"
  shows "(best = Some (c, p) \<or> (\<exists>v. (p, v) \<in> set cands \<and> eligible pool s (p, v) \<and> c = bucket_crit pool s p))
    \<and> (\<forall>q w. (q, w) \<in> set cands \<longrightarrow> eligible pool s (q, w) \<longrightarrow> bucket_crit pool s q \<le> c)
    \<and> (\<forall>b. best = Some b \<longrightarrow> fst b \<le> c)"
  using assms
proof (induction pool s best cands rule: best_bucket.induct)
  case (2 pool s best q v cands)
  show ?case
  proof (cases "eligible pool s (q, v)")
    case True
    let ?b = "case best of None \<Rightarrow> Some (bucket_crit pool s q, q)
      | Some (c, x) \<Rightarrow> if c < bucket_crit pool s q then Some (bucket_crit pool s q, q) else best"
    have "bucket_crit pool s q \<le> fst (the ?b)" "?b \<noteq> None" "\<And>b. best = Some b \<Longrightarrow> fst b \<le> fst (the ?b)"
      by (auto split: option.split)
    moreover have "best_bucket pool s ?b cands = Some (c, p)"
      using "2.prems" True by (simp add: Let_def)
    ultimately show ?thesis
      using "2.IH"(2) True by (fastforce split: option.splits if_splits)
  next
    case False
    then show ?thesis using "2.IH"(1) "2.prems" by auto
  qed
qed simp

lemma best_bucket_None:
  "best_bucket pool s best cands = None \<longleftrightarrow> best = None \<and> (\<forall>q w. (q, w) \<in> set cands \<longrightarrow> \<not> eligible pool s (q, w))"
  by (induction pool s best cands rule: best_bucket.induct) (auto simp: Let_def split: option.splits if_splits)

lemma dispatch_next_cases:
  assumes "dispatch_wf s" "dispatch_next pool s = (r, s')"
  obtains (none) "r = None" "s' = recycle pool s"
      "\<And>q. \<not> eligible pool (recycle pool s) (q, cands_of (recycle pool s) q)"
  | (some) p sel rate rest where "r = Some (sel, rate)"
      "cands_of (recycle pool s) p = (sel, rate) # rest"
      "eligible pool (recycle pool s) (p, cands_of (recycle pool s) p)"
      "\<And>q. eligible pool (recycle pool s) (q, cands_of (recycle pool s) q) \<Longrightarrow>
         bucket_crit pool (recycle pool s) q \<le> bucket_crit pool (recycle pool s) p"
      "dial p (recycle pool s) = (Some (sel, rate), s')"
proof -
  let ?s = "recycle pool s"
  have wf: "hm_wf (di_cands ?s)" using recycle_fields(6) [OF assms(1)] by (simp add: dispatch_wf_def)
  have mem: "(q, cands_of ?s q) \<in> set (di_cands ?s)" if "eligible pool ?s (q, cands_of ?s q)" for q
    using that by (intro hm_get_or_mem) (simp add: eligible_def)
  show thesis
  proof (cases "best_bucket pool ?s None (di_cands ?s)")
    case None
    then show thesis
      using assms(2) mem none best_bucket_None [of pool ?s None "di_cands ?s"]
      by (auto simp: dispatch_next_def Let_def)
  next
    case (Some cp)
    then obtain c p where cp: "best_bucket pool ?s None (di_cands ?s) = Some (c, p)" by (cases cp) auto
    from best_bucket_spec [OF cp] obtain v where v: "(p, v) \<in> set (di_cands ?s)" "eligible pool ?s (p, v)"
      and c: "c = bucket_crit pool ?s p"
      and top: "\<And>q w. (q, w) \<in> set (di_cands ?s) \<Longrightarrow> eligible pool ?s (q, w) \<Longrightarrow> bucket_crit pool ?s q \<le> c"
      by auto
    have pv: "cands_of ?s p = v" using hm_mem_get_or [OF wf v(1)] .
    with v(2) obtain sel rate rest where cons: "v = (sel, rate) # rest" by (cases v) (auto simp: eligible_def)
    have "dispatch_next pool s = dial p ?s" using cp by (simp add: dispatch_next_def Let_def)
    then have "dial p ?s = (Some (sel, rate), s')" "r = Some (sel, rate)"
      using assms(2) pv cons by (auto simp: dial_def)
    then show thesis using some pv cons v(2) top mem c by metis
  qed
qed

section \<open>Dial accounting\<close>

text \<open>
  The scheduler's loop over the dispatcher: a granted candidate becomes an in-flight connection
  \<open>(prefix, rate)\<close>; when the connection ends \<open>done\<close> is called with the same pair. \<open>D\<close> counts the
  dials per bucket. The pool may change arbitrarily between steps.
\<close>

type_synonym 'm dispatch_run = "'m dispatch \<times> (u64 \<Rightarrow> nat) \<times> (u64 \<times> u64) multiset"

inductive dispatch_step :: "'m dispatch_run \<Rightarrow> 'm dispatch_run \<Rightarrow> bool" where
  dialed: "dispatch_next pool s = (Some (sel, rate), s') \<Longrightarrow> p = se_prefix sel \<Longrightarrow>
     dispatch_step (s, D, F) (s', D(p := D p + 1), add_mset (p, rate) F)"
| idle: "dispatch_next pool s = (None, s') \<Longrightarrow> dispatch_step (s, D, F) (s', D, F)"
| ended: "(p, rate) \<in># F \<Longrightarrow> dispatch_step (s, D, F) (dispatch_done p rate s, D, F - {#(p, rate)#})"

inductive_cases dispatch_stepE: "dispatch_step (s, D, F) (s', D', F')"

definition in_bucket :: "u64 \<Rightarrow> (u64 \<times> u64) multiset \<Rightarrow> u64 multiset" where
  "in_bucket p F = image_mset snd (filter_mset (\<lambda>x. fst x = p) F)"

definition member_ok :: "u64 \<Rightarrow> 'm selected \<times> u64 \<Rightarrow> bool" where
  "member_ok p m \<longleftrightarrow> se_prefix (fst m) = p \<and> unat (snd m) \<le> 2 ^ 32"

definition bucket_inv :: "nat \<Rightarrow> u64 \<Rightarrow> 'm dispatch_run \<Rightarrow> bool" where
  "bucket_inv N p run = (case run of (s, D, F) \<Rightarrow>
     length (cands_of s p) + length (used_of s p) = N
     \<and> recycles_of s p \<le> 3
     \<and> D p + length (cands_of s p) + (3 - recycles_of s p) * N = 4 * N
     \<and> active_of s p = size (in_bucket p F)
     \<and> size (in_bucket p F) \<le> length (used_of s p)
     \<and> unat (rate_of s p) = (\<Sum>r \<in># in_bucket p F. unat (max r 1))
     \<and> (\<forall>r \<in># in_bucket p F. unat r \<le> 2 ^ 32)
     \<and> list_all (member_ok p) (cands_of s p) \<and> list_all (member_ok p) (used_of s p))"

lemma in_bucket_add [simp]:
  "in_bucket p (add_mset (q, r) F) = (if q = p then add_mset r (in_bucket p F) else in_bucket p F)"
  by (simp add: in_bucket_def)

lemma in_bucket_remove:
  assumes "(q, r) \<in># F"
  shows "in_bucket p F = (if q = p then add_mset r (in_bucket p (F - {#(q, r)#})) else in_bucket p (F - {#(q, r)#}))"
  using in_bucket_add [of p q r "F - {#(q, r)#}"] assms by simp

lemma in_bucket_empty [simp]: "in_bucket p {#} = {#}"
  by (simp add: in_bucket_def)

lemma recycle_inv:
  assumes "dispatch_wf s" "bucket_inv N p (s, D, F)"
  shows "bucket_inv N p (recycle pool s, D, F)"
proof (cases "refills pool s p")
  case True
  then have "cands_of s p = []" "active_of s p = 0" "recycles_of s p < 3" by (simp_all add: refills_def)
  moreover from this obtain k where "3 - recycles_of s p = Suc k" "3 - (recycles_of s p + 1) = k"
    by (metis Suc_diff_Suc Suc_eq_plus1)
  ultimately show ?thesis
    using assms True by (auto simp: bucket_inv_def recycle_fields)
next
  case False
  then show ?thesis using assms by (simp add: bucket_inv_def recycle_fields)
qed

lemma dial_fields:
  assumes "dial p s = (Some (sel, rate), s')" "cands_of s p = (sel, rate) # rest"
  shows "cands_of s' q = (if q = p then rest else cands_of s q)"
    "used_of s' q = (if q = p then used_of s p @ [(sel, rate)] else used_of s q)"
    "recycles_of s' q = recycles_of s q"
    "rate_of s' q = (if q = p then rate_of s p + max rate 1 else rate_of s q)"
    "active_of s' q = (if q = p then active_of s p + 1 else active_of s q)"
    "dispatch_wf s \<Longrightarrow> dispatch_wf s'"
  using assms by (auto simp: dial_def hm_simps dispatch_wf_def)

lemma sum_rates_bound:
  assumes "\<forall>r \<in># B. unat r \<le> 2 ^ 32" "size B \<le> n"
  shows "(\<Sum>r \<in># B. unat (max r (1 :: u64))) \<le> n * 2 ^ 32"
proof -
  have "unat (max r (1 :: u64)) \<le> 2 ^ 32" if "r \<in># B" for r
    using assms(1) that by (auto simp: max_def)
  then have "(\<Sum>r \<in># B. unat (max r (1 :: u64))) \<le> (\<Sum>r \<in># B. 2 ^ 32)"
    by (intro sum_mset_mono) auto
  also have "\<dots> \<le> n * 2 ^ 32" using assms(2) by simp
  finally show ?thesis .
qed

lemma dial_inv:
  assumes "dial p s = (Some (sel, rate), s')" "cands_of s p = (sel, rate) # rest"
    and "bucket_inv N p (s, D, F)" "N < 2 ^ 32"
  shows "bucket_inv N p (s', D(p := D p + 1), add_mset (p, rate) F)"
proof -
  note f = dial_fields [OF assms(1,2)]
  from assms(3) have len: "length (used_of s p) < N" and ok: "unat rate \<le> 2 ^ 32"
    and sz: "size (in_bucket p F) \<le> length (used_of s p)"
    and small: "\<forall>r \<in># in_bucket p F. unat r \<le> 2 ^ 32"
    and eq: "unat (rate_of s p) = (\<Sum>r \<in># in_bucket p F. unat (max r 1))"
    by (auto simp: bucket_inv_def assms(2) member_ok_def)
  have "unat (rate_of s p) \<le> length (used_of s p) * 2 ^ 32"
    using sum_rates_bound [OF small sz] eq by simp
  also have "\<dots> \<le> (2 ^ 32 - 2) * 2 ^ 32" using len assms(4) by (intro mult_right_mono) auto
  finally have "unat (rate_of s p) \<le> (2 ^ 32 - 2) * 2 ^ 32" .
  moreover have "unat (max rate 1) \<le> 2 ^ 32" using ok by (auto simp: max_def)
  ultimately have "unat (rate_of s p + max rate 1) = unat (rate_of s p) + unat (max rate 1)"
    by (intro unat_add_no_overflow) simp
  with assms(2,3) ok f show ?thesis by (auto simp: bucket_inv_def)
qed

lemma done_fields:
  "cands_of (dispatch_done p rate s) q = cands_of s q"
  "used_of (dispatch_done p rate s) q = used_of s q"
  "recycles_of (dispatch_done p rate s) q = recycles_of s q"
  "rate_of (dispatch_done p rate s) q = (if q = p then sat_sub (rate_of s p) (max rate 1) else rate_of s q)"
  "active_of (dispatch_done p rate s) q = (if q = p then active_of s p - 1 else active_of s q)"
  "dispatch_wf s \<Longrightarrow> dispatch_wf (dispatch_done p rate s)"
  by (auto simp: dispatch_done_def Let_def hm_get_or_def hm_get_insert dispatch_wf_def sat_sub_def split: option.split)

lemma done_inv:
  assumes "(q, rate) \<in># F" "bucket_inv N p (s, D, F)"
  shows "bucket_inv N p (dispatch_done q rate s, D, F - {#(q, rate)#})"
  using assms(2) in_bucket_remove [OF assms(1), of p]
  by (auto simp: bucket_inv_def done_fields unat_sat_sub)

definition dispatch_inv :: "(u64 \<Rightarrow> nat) \<Rightarrow> 'm dispatch_run \<Rightarrow> bool" where
  "dispatch_inv N run \<longleftrightarrow> dispatch_wf (fst run) \<and> (\<forall>p. bucket_inv (N p) p run)"

lemma bucket_inv_other:
  assumes "bucket_inv N p (s, D, F)" "q \<noteq> p"
    and "cands_of s' p = cands_of s p" "used_of s' p = used_of s p" "recycles_of s' p = recycles_of s p"
      "rate_of s' p = rate_of s p" "active_of s' p = active_of s p"
  shows "bucket_inv N p (s', D(q := x), add_mset (q, r) F)"
  using assms by (simp add: bucket_inv_def)

lemma dispatch_step_inv:
  assumes "dispatch_step (s, D, F) (s', D', F')" "dispatch_inv N (s, D, F)" "\<And>p. N p < 2 ^ 32"
  shows "dispatch_inv N (s', D', F')"
  using assms(1)
proof cases
  case (dialed pool sel rate p)
  have wf: "dispatch_wf s" and inv: "\<And>q. bucket_inv (N q) q (s, D, F)"
    using assms(2) by (simp_all add: dispatch_inv_def)
  let ?s = "recycle pool s"
  have rinv: "\<And>q. bucket_inv (N q) q (?s, D, F)" by (rule recycle_inv [OF wf inv])
  obtain p0 rest where c: "cands_of ?s p0 = (sel, rate) # rest" and d: "dial p0 ?s = (Some (sel, rate), s')"
    by (rule dispatch_next_cases [OF wf dialed(3)]) auto
  have p0: "p0 = p" using rinv [of p0] c dialed(4) by (simp add: bucket_inv_def member_ok_def)
  have "bucket_inv (N q) q (s', D(p := D p + 1), add_mset (p, rate) F)" for q
  proof (cases "q = p")
    case True
    then show ?thesis using dial_inv [OF d c] rinv assms(3) p0 by simp
  next
    case False
    then show ?thesis
      using dial_fields [OF d c] p0 rinv [of q] by (intro bucket_inv_other [of _ _ ?s]) auto
  qed
  then show ?thesis
    using dialed dial_fields(6) [OF d c] recycle_fields(6) [OF wf] by (simp add: dispatch_inv_def)
next
  case (idle pool)
  then have "s' = recycle pool s"
    using assms(2) by (auto simp: dispatch_inv_def elim: dispatch_next_cases [of s pool None s'])
  then show ?thesis
    using assms(2) idle by (auto simp: dispatch_inv_def intro!: recycle_inv recycle_fields(6))
next
  case (ended p rate)
  then show ?thesis
    using assms(2) by (auto simp: dispatch_inv_def intro!: done_inv done_fields(6))
qed

lemma dispatch_new_inv:
  assumes "hm_wf cands" "\<And>p. list_all (member_ok p) (hm_get_or cands [] p)"
  shows "dispatch_inv (\<lambda>p. length (hm_get_or cands [] p)) (dispatch_new cands, (\<lambda>_. 0), {#})"
  using assms by (simp add: dispatch_inv_def dispatch_wf_def bucket_inv_def dispatch_new_def)
    (simp add: hm_get_or_def)

lemma dispatch_reachable_inv:
  assumes "dispatch_step\<^sup>*\<^sup>* (dispatch_new cands, (\<lambda>_. 0), {#}) run"
    and "hm_wf cands" "\<And>p. list_all (member_ok p) (hm_get_or cands [] p)"
    and "\<And>p. length (hm_get_or cands [] p) < 2 ^ 32"
  shows "dispatch_inv (\<lambda>p. length (hm_get_or cands [] p)) run"
  using assms(1)
proof (induction rule: rtranclp_induct)
  case base
  show ?case by (rule dispatch_new_inv [OF assms(2,3)])
next
  case (step x y)
  then show ?case
    using dispatch_step_inv [of "fst x" "fst (snd x)" "snd (snd x)" "fst y" "fst (snd y)" "snd (snd y)"] assms(4) by simp
qed

section \<open>Criticality\<close>

lemma unat_ucast_u64_u128 [simp]: "unat (ucast (w :: u64) :: u128) = unat w"
  using u64_less [of w] by (simp add: unsigned_ucast_eq take_bit_nat_eq_self)

lemma unat_half_max: "unat ((- 1 :: u128) div 2) = 2 ^ 127 - 1"
  by (simp add: unat_div unat_minus_one_word)

lemma unat_criticality_idle: "rem < 2 ^ 64 \<Longrightarrow> unat (criticality rem 0) = 2 ^ 127 - 1 + rem"
  by (simp add: criticality_def Let_def unat_word_ariths unat_half_max unat_of_nat)

lemma criticality_served_less:
  assumes "rem < 2 ^ 64" "rate \<noteq> 0"
  shows "unat (criticality rem rate) < 2 ^ 127 - 1"
proof -
  have "(ucast rate :: u128) \<noteq> 0"
    using assms(2) by (metis unat_ucast_u64_u128 unat_eq_zero)
  then have "unat (criticality rem rate) = unat (sat_mul (of_nat rem :: u128) 10000) div unat rate"
    by (simp add: criticality_def Let_def unat_div)
  also have "\<dots> \<le> unat (sat_mul (of_nat rem :: u128) 10000)" by (rule div_le_dividend)
  also have "\<dots> \<le> rem * 10000"
    using assms(1) by (simp add: unat_sat_mul unat_of_nat)
  also have "\<dots> < 2 ^ 127 - 1" using assms(1) by simp
  finally show ?thesis .
qed

lemma criticality_le_idle:
  assumes "rem < 2 ^ 64" "rem' < 2 ^ 64" "criticality rem 0 \<le> criticality rem' rate"
  shows "rate = 0 \<and> rem \<le> rem'"
  using assms unat_criticality_idle [of rem] unat_criticality_idle [of rem'] criticality_served_less [of rem' rate]
  by (cases "rate = 0") (simp_all add: word_le_nat_alt)

section \<open>Popping\<close>

fun pool_pops :: "u64 list \<Rightarrow> work_pool \<Rightarrow> (u64 \<times> swarm_address) list \<times> work_pool" where
  "pool_pops [] b = ([], b)"
| "pool_pops (p # ps) b =
     (case pool_pop p b of
        (None, b1) \<Rightarrow> pool_pops ps b1
      | (Some a, b1) \<Rightarrow> (case pool_pops ps b1 of (out, b2) \<Rightarrow> ((p, a) # out, b2)))"

lemma pool_pops_conserve:
  "pool_pops ps b = (out, b') \<Longrightarrow> hm_wf b \<Longrightarrow> pool_chunks b = mset (map snd out) + pool_chunks b' \<and> hm_wf b'"
proof (induction ps b arbitrary: out b' rule: pool_pops.induct)
  case (2 p ps b)
  obtain r b1 where pop: "pool_pop p b = (r, b1)" by force
  show ?case
  proof (cases r)
    case None
    then show ?thesis using 2 pop pool_pop_None [of p b b1] by auto
  next
    case (Some a)
    then show ?thesis
      using "2.prems" "2.IH"(2) pop pool_pop_Some(1,2) [of p b a b1] by (auto split: prod.splits)
  qed
qed simp

section \<open>Member order\<close>

lemma complement_antimono: "(a :: u64) \<le> b \<Longrightarrow> - 1 - b \<le> - 1 - a"
proof -
  have c: "unat (- 1 - w :: u64) = 2 ^ 64 - 1 - unat w" for w
    using unat_sub [of w "- 1"] by (simp add: unat_minus_one_word)
  show "a \<le> b \<Longrightarrow> - 1 - b \<le> - 1 - a" unfolding word_le_nat_alt c by simp
qed

lemma candidate_key_fst: "fst (candidate_key c) = fst c"
  by (cases c) (simp add: candidate_key_def)

lemma members_sorted:
  "sorted_wrt (\<lambda>x y. snd y \<le> snd x) (map (to_member p) (sort_key candidate_key cs))"
proof -
  have "sorted_wrt (\<lambda>x y. candidate_key x \<le> candidate_key y) (sort_key candidate_key cs)"
    using sorted_sort_key [of candidate_key cs] by (simp add: sorted_wrt_map)
  then have "sorted_wrt (\<lambda>x y. snd (to_member p y) \<le> snd (to_member p x)) (sort_key candidate_key cs)"
  proof (rule sorted_wrt_mono_rel [rotated])
    fix x y :: "'a candidate"
    assume "candidate_key x \<le> candidate_key y"
    then have "fst x \<le> fst y" by (auto simp: less_eq_prod_def candidate_key_fst)
    then show "snd (to_member p y) \<le> snd (to_member p x)"
      by (cases x; cases y) (simp add: to_member_def complement_antimono)
  qed
  then show ?thesis by (simp add: sorted_wrt_map)
qed

lemma mem_members:
  assumes "(sel, rate) \<in> set (hm_get_or (select_storers pm cache needed d red peers) [] p)"
  obtains r c where "r \<in> set (topology_records cache)" "bucket_prefix (nr_overlay r) d = p"
    "candidate_of pm peers r = Some c" "(sel, rate) = to_member p c" "p \<in> (\<lambda>a. bucket_prefix a d) ` set needed"
  using assms
  by (auto simp: select_storers_bucket bucket_candidates_def map_filter_def split: if_splits)

lemma member_of_candidate:
  assumes "candidate_of pm peers r = Some c" "(sel, rate) = to_member p c"
  shows "se_overlay sel = nr_overlay r \<and> se_prefix sel = p \<and>
    rate = eff_rate (hm_get_or peers peer_default (nr_overlay r)) \<and>
    (\<exists>u \<in> set (nr_underlays r). public_dialable pm u = Some (se_underlay sel))"
  using assms
  by (auto simp: candidate_of_def to_member_def Let_def peerstate_get_def hm_get_or_def dest!: find_map_SomeD)

lemma eff_rate_bound: "unat (eff_rate ps) \<le> 2 ^ 32"
proof -
  have "unat (ps_service_cps_x10 ps) < 2 ^ LENGTH(32)" by (rule unsigned_less)
  then show ?thesis
    by (simp add: eff_rate_def ASSUMED_CPS_X10_def unsigned_ucast_eq take_bit_nat_eq_self)
qed

lemma select_members_ok:
  "list_all (member_ok p) (hm_get_or (select_storers pm cache needed d red peers) [] p)"
  unfolding list_all_iff
proof
  fix m
  assume "m \<in> set (hm_get_or (select_storers pm cache needed d red peers) [] p)"
  then obtain r c where "candidate_of pm peers r = Some c" "(fst m, snd m) = to_member p c"
    using mem_members [of "fst m" "snd m"] by (metis prod.collapse)
  then show "member_ok p m"
    using member_of_candidate [of pm peers r c "fst m" "snd m" p] by (simp add: member_ok_def eff_rate_bound [simplified])
qed

lemma select_storers_wf: "hm_wf (select_storers pm cache needed d red peers)"
  by (simp add: select_storers_def Let_def hm_wf_fold_add
      hm_wf_map_values [where f = "\<lambda>p cands. map (to_member p) (sort_key candidate_key cands)"])

section \<open>A sample bucket\<close>

definition sample_addr :: swarm_address where "sample_addr = replicate 32 0xAA"

definition sample_cache :: topology_cache where
  "sample_cache = \<lparr>tc_reference = sample_addr, tc_nodes = [(sample_addr,
     \<lparr>nr_overlay = sample_addr, nr_underlays = [''/ip4/10.0.0.1'', ''/ip4/1.2.3.4''], nr_rtt_ms = None,
      nr_last_seen_tick = 0, nr_dialed_ok = True\<rparr>)]\<rparr>"

definition sample_member :: "nat \<Rightarrow> string selected \<times> u64" where
  "sample_member d = (\<lparr>se_underlay = ''/ip4/1.2.3.4'', se_overlay = sample_addr, se_prefix = bucket_prefix sample_addr d\<rparr>, 140)"

lemma sample_candidates:
  "bucket_candidates Some [] d (bucket_prefix sample_addr d) (topology_records sample_cache)
     = [(- 1 - 140, 1, - 1, - 1, ''/ip4/1.2.3.4'', sample_addr)]"
  by (simp add: bucket_candidates_def sample_cache_def topology_records_def map_filter_simps candidate_of_def
      public_dialable_def starts_with_def eff_rate_def ASSUMED_CPS_X10_def lambda_class_def peer_default_def
      peerstate_get_def Let_def)

lemma sample_select:
  "hm_get_or (select_storers Some sample_cache [sample_addr] d red []) [] (bucket_prefix sample_addr d) = [sample_member d]"
  by (simp add: select_storers_bucket sample_candidates to_member_def sample_member_def)

lemma sample_cache_inv: "topology_inv sample_cache"
  by (simp add: topology_inv_def sample_cache_def hm_wf_def wf_addr_def sample_addr_def)

definition sample_dispatch :: "string dispatch" where
  "sample_dispatch = dispatch_new [(5, [(\<lparr>se_underlay = ''a'', se_overlay = [], se_prefix = 5\<rparr>, 140)])]"

lemma sample_next:
  "dispatch_next [(5, [[7]])] sample_dispatch =
    (Some (\<lparr>se_underlay = ''a'', se_overlay = [], se_prefix = 5\<rparr>, 140),
     snd (dispatch_next [(5, [[7]])] sample_dispatch))"
  by (simp add: dispatch_next_def sample_dispatch_def dispatch_new_def recycle_def eligible_def remaining_def
      hm_get_or_def dial_def Let_def)

section \<open>Properties\<close>

text \<open>
  C32 Routing loses no chunk and duplicates none: the needed chunks are exactly the ones put into
  work buckets, the ones sent to the fallback and the ones counted as dropped, and each bucket
  holds exactly the needed chunks with its prefix, in order.
\<close>
theorem route_partition:
  "mset needed = pool_chunks (rt_buckets (route d C only needed))
     + mset (filter (\<lambda>a. bucket_prefix a d \<notin> C) needed)
   \<and> rt_fallback (route d C only needed) = (if only then [] else filter (\<lambda>a. bucket_prefix a d \<notin> C) needed)
   \<and> size (pool_chunks (rt_buckets (route d C only needed))) + length (rt_fallback (route d C only needed))
       + rt_dropped (route d C only needed) = length needed
   \<and> hm_get_or (rt_buckets (route d C only needed)) [] p
       = (if p \<in> C then filter (\<lambda>a. bucket_prefix a d = p) needed else [])"
proof -
  let ?r = "\<lparr>rt_buckets = [], rt_fallback = [], rt_dropped = 0\<rparr>"
  let ?in = "filter (\<lambda>a. bucket_prefix a d \<in> C) needed" and ?out = "filter (\<lambda>a. bucket_prefix a d \<notin> C) needed"
  have part: "mset needed = mset ?in + mset ?out"
    by (simp only: mset_filter) (rule multiset_partition)
  have len: "length ?in + length ?out = length needed"
    by (rule sum_length_filter_compl)
  have pool: "pool_chunks (rt_buckets (route d C only needed)) = mset ?in"
    using fold_route(2) [of ?r d C only needed] by (simp add: route_def pool_chunks_def)
  have fb: "rt_fallback (route d C only needed) = (if only then [] else ?out)"
    and dr: "rt_dropped (route d C only needed) = (if only then length ?out else 0)"
    using fold_route(3,4) [of ?r d C only needed] by (simp_all add: route_def)
  have bk: "hm_get_or (rt_buckets (route d C only needed)) [] p
      = (if p \<in> C then filter (\<lambda>a. bucket_prefix a d = p) needed else [])"
    using route_bucket [of d C only needed ?r p] by (simp add: route_def hm_get_or_def)
  show ?thesis
    unfolding pool fb dr bk using part len by (intro conjI) (simp_all only: size_mset, auto)
qed

text \<open>
  Work stealing hands out every chunk at most once: whatever the order in which connections pop
  from the shared buckets, the popped chunks together with what is left, and with what the final
  drain returns, are exactly the chunks that were routed.
\<close>
theorem work_stealing_exactly_once:
  assumes "hm_wf b" "pool_pops ps b = (out, b1)" "drain_all b1 = (stranded, b2)"
  shows "pool_chunks b = mset (map snd out) + mset stranded \<and> pool_chunks b2 = {#}"
  using pool_pops_conserve [OF assms(2,1)] drain_all_chunks [OF assms(3)] by simp

theorem work_stealing_exactly_once_witness:
  "pool_chunks [(1, [[7], [8]]), (2, [[9]])] = mset (map snd [(1, [8]), (2, [9])]) + mset [[7]]"
  using work_stealing_exactly_once [of "[(1, [[7], [8]]), (2, [[9]])]" "[1, 2, 2]" "[(1, [8]), (2, [9])]"
      "[(1, [[7]]), (2, [])]" "[[7]]" "[]"]
  by (simp add: hm_wf_def pool_pop_def hm_insert_def drain_all_def)

text \<open>
  C33 Every storer selected for a bucket is a cached node with a public dialable underlay that is
  duty-bound to hold every needed chunk of the bucket (proximity at least the depth), and the
  bucket's members are ordered by effective bandwidth, best first.
\<close>
theorem select_storers_duty:
  assumes "topology_inv cache" "d \<le> MAX_PO" "list_all wf_addr needed"
    and "(sel, rate) \<in> set (hm_get_or (select_storers pm cache needed d red peers) [] p)"
  shows "(\<exists>r. topology_get cache (se_overlay sel) = Some r \<and>
      (\<exists>u \<in> set (nr_underlays r). public_dialable pm u = Some (se_underlay sel)))
    \<and> se_prefix sel = p
    \<and> rate = eff_rate (hm_get_or peers peer_default (se_overlay sel))
    \<and> list_all (\<lambda>a. bucket_prefix a d = p \<longrightarrow> d \<le> proximity (se_overlay sel) a) needed
    \<and> (\<exists>a \<in> set needed. bucket_prefix a d = p)
    \<and> sorted_wrt (\<lambda>x y. snd y \<le> snd x) (hm_get_or (select_storers pm cache needed d red peers) [] p)"
proof -
  obtain r c where r: "r \<in> set (topology_records cache)" "bucket_prefix (nr_overlay r) d = p"
    and c: "candidate_of pm peers r = Some c" "(sel, rate) = to_member p c"
    and p: "p \<in> (\<lambda>a. bucket_prefix a d) ` set needed"
    by (rule mem_members [OF assms(4)])
  note m = member_of_candidate [OF c]
  have "wf_addr (nr_overlay r)" by (rule records_wf [OF assms(1) r(1)])
  then have "list_all (\<lambda>a. bucket_prefix a d = p \<longrightarrow> d \<le> proximity (se_overlay sel) a) needed"
    using assms(2,3) r(2) m by (auto simp: list_all_iff bucket_prefix_eq_iff_proximity [symmetric])
  moreover have "sorted_wrt (\<lambda>x y. snd y \<le> snd x) (hm_get_or (select_storers pm cache needed d red peers) [] p)"
    by (simp add: select_storers_bucket members_sorted)
  ultimately show ?thesis
    using m r records_get [OF assms(1), of r] p by auto
qed

theorem select_storers_duty_witness:
  "8 \<le> proximity (se_overlay (fst (sample_member 8))) sample_addr \<and> se_overlay (fst (sample_member 8)) = sample_addr"
proof -
  have m: "(fst (sample_member 8), snd (sample_member 8))
      \<in> set (hm_get_or (select_storers Some sample_cache [sample_addr] 8 2 []) [] (bucket_prefix sample_addr 8))"
    by (simp add: sample_select)
  have wf: "list_all wf_addr [sample_addr]" by (simp add: wf_addr_def sample_addr_def)
  have d: "(8::nat) \<le> MAX_PO" by (simp add: MAX_PO_def)
  from select_storers_duty [OF sample_cache_inv d wf m]
  show ?thesis by (simp add: sample_member_def)
qed

text \<open>
  The dispatcher dials the best unused candidate of a bucket that has work, and no other bucket
  that could be dialed is more critical. It declines only when no bucket has work, an unused
  candidate and a need for help.
\<close>
theorem dispatch_next_most_critical:
  assumes "dispatch_wf s" "dispatch_next pool s = (r, s')"
  shows "case r of
      None \<Rightarrow> (\<forall>q. \<not> eligible pool (recycle pool s) (q, cands_of (recycle pool s) q))
    | Some (sel, rate) \<Rightarrow> (\<exists>p rest. cands_of (recycle pool s) p = (sel, rate) # rest
        \<and> cands_of s' p = rest \<and> 0 < remaining pool p
        \<and> (\<forall>q. eligible pool (recycle pool s) (q, cands_of (recycle pool s) q) \<longrightarrow>
             bucket_crit pool (recycle pool s) q \<le> bucket_crit pool (recycle pool s) p))"
  using assms
proof (cases rule: dispatch_next_cases)
  case none
  then show ?thesis by simp
next
  case (some p sel rate rest)
  then have "0 < remaining pool p" by (simp add: eligible_def)
  with some dial_fields(1) [OF some(5,2)] show ?thesis by auto
qed

theorem dispatch_next_most_critical_witness:
  "\<exists>p rest. cands_of (recycle [(5, [[7]])] sample_dispatch) p
     = (\<lparr>se_underlay = ''a'', se_overlay = [], se_prefix = 5\<rparr>, 140) # rest \<and> 0 < remaining [(5, [[7]])] p"
proof -
  have "dispatch_wf sample_dispatch" by (simp add: dispatch_wf_def sample_dispatch_def dispatch_new_def hm_wf_def)
  from dispatch_next_most_critical [OF this sample_next] show ?thesis by auto
qed

text \<open>
  A bucket with work and no active member outranks every bucket that is being served, however
  slowly, and among unserved buckets the one with the most remaining chunks wins.
\<close>
theorem dispatch_idle_buckets_first:
  assumes "bucket_crit pool s q \<le> bucket_crit pool s p" "hm_get_or (di_active_rate s) 0 q = 0"
    and "remaining pool p < 2 ^ 64" "remaining pool q < 2 ^ 64"
  shows "hm_get_or (di_active_rate s) 0 p = 0 \<and> remaining pool q \<le> remaining pool p"
  using criticality_le_idle [of "remaining pool q" "remaining pool p"] assms by (simp add: bucket_crit_def)

theorem dispatch_idle_buckets_first_witness:
  "remaining [(1, [[7], [8]]), (2, [[9]])] 2 \<le> remaining [(1, [[7], [8]]), (2, [[9]])] 1"
  using dispatch_idle_buckets_first [of "[(1, [[7], [8]]), (2, [[9]])]" "dispatch_new []" 2 1]
  by (simp add: bucket_crit_def criticality_def remaining_def dispatch_new_def hm_get_or_def word_le_nat_alt
      unat_word_ariths unat_half_max Let_def)

text \<open>
  Over a whole run, with recycling of exhausted buckets and any changes of the pool, each bucket
  is dialed at most four times its number of candidates, and its active count and active rate are
  exactly those of its connections in flight.
\<close>
theorem dispatch_dials_bounded:
  assumes "dispatch_step\<^sup>*\<^sup>* (dispatch_new cands, (\<lambda>_. 0), {#}) (s, D, F)"
    and "cands = select_storers pm cache needed d red peers"
    and "\<And>p. length (hm_get_or cands [] p) < 2 ^ 32"
  shows "D p \<le> 4 * length (hm_get_or cands [] p) \<and>
    active_of s p = size (in_bucket p F) \<and> unat (rate_of s p) = (\<Sum>r \<in># in_bucket p F. unat (max r 1))"
proof -
  have "dispatch_inv (\<lambda>p. length (hm_get_or cands [] p)) (s, D, F)"
    using assms by (intro dispatch_reachable_inv [OF assms(1)]) (auto simp: select_storers_wf select_members_ok)
  then have "bucket_inv (length (hm_get_or cands [] p)) p (s, D, F)" by (simp add: dispatch_inv_def)
  then show ?thesis by (simp add: bucket_inv_def)
qed

theorem dispatch_dials_bounded_witness:
  "\<exists>s. dispatch_next [(bucket_prefix sample_addr 8, [sample_addr])]
        (dispatch_new (select_storers Some sample_cache [sample_addr] 8 2 [])) = (Some (sample_member 8), s)
     \<and> active_of s (bucket_prefix sample_addr 8) = 1"
proof -
  let ?p = "bucket_prefix sample_addr 8"
  let ?c = "select_storers Some sample_cache [sample_addr] 8 2 []"
  let ?s = "dispatch_new ?c"
  have other: "hm_get_or ?c [] q = []" if "q \<noteq> ?p" for q
    using that by (simp add: select_storers_bucket)
  have wf: "dispatch_wf ?s" by (simp add: dispatch_wf_def dispatch_new_def select_storers_wf)
  have norec: "recycle [(?p, [sample_addr])] ?s = ?s" by (simp add: recycle_def dispatch_new_def)
  have "cands_of ?s ?p = [sample_member 8]" by (simp add: dispatch_new_def sample_select)
  then have el: "eligible [(?p, [sample_addr])] ?s (?p, cands_of ?s ?p)"
    by (simp add: eligible_def remaining_def dispatch_new_def hm_get_or_def)
  obtain r s where nx: "dispatch_next [(?p, [sample_addr])] ?s = (r, s)" by force
  have "r = Some (sample_member 8)"
    using wf nx
  proof (cases rule: dispatch_next_cases)
    case none
    then show ?thesis using el norec by metis
  next
    case (some p sel rate rest)
    then have "cands_of ?s p = (sel, rate) # rest" by (simp only: norec)
    then show ?thesis using some(1) other [of p] by (cases "p = ?p") (auto simp: dispatch_new_def sample_select)
  qed
  with nx have nx2: "dispatch_next [(?p, [sample_addr])] ?s = (Some (fst (sample_member 8), 140), s)"
    by (simp add: sample_member_def)
  have pre: "?p = se_prefix (fst (sample_member 8))" by (simp add: sample_member_def)
  have step: "dispatch_step (?s, \<lambda>_. 0, {#}) (s, (\<lambda>_. 0)(?p := 0 + 1), {#(?p, 140)#})"
    by (rule dispatch_step.dialed [OF nx2 pre])
  have "length (hm_get_or ?c [] q) < 2 ^ 32" for q
    by (cases "q = ?p") (simp_all add: other sample_select)
  from dispatch_dials_bounded [OF r_into_rtranclp [of dispatch_step, OF step] refl this, of ?p]
  show ?thesis using nx \<open>r = Some (sample_member 8)\<close> by simp
qed

end
