(* ===== verification/Store.thy ===== *)
theory Store
  imports Resume
begin

text \<open>
  The on-disk chunk store (\<^verbatim>\<open>rust/ds-net/src/store.rs\<close>): an append-only data file, an in-memory
  index from address to offset and length, and a sidecar index file rewritten through a temporary
  file and a rename. The disk holds the data file's bytes and the text of the sidecar and of its
  temporary file; \<open>put_fault\<close> and \<open>flush_fault\<close> pick the system call that fails. The mutex makes
  every operation one atomic step. The \<open>hex\<close> crate is a parameter.
\<close>

section \<open>State\<close>

type_synonym chunk_index = "(swarm_address, u64 \<times> u32) hash_map"

record store_inner =
  si_end :: u64
  si_index :: chunk_index
  si_dirty :: nat

record store_disk =
  sd_data :: bytes
  sd_index :: "string option"
  sd_index_tmp :: "string option"

definition INDEX_MAGIC :: string where "INDEX_MAGIC = ''directswarm-chunkstore v1''"
definition FLUSH_EVERY :: nat where "FLUSH_EVERY = 2048"

datatype put_fault = PutOk | SeekFails | DataWriteFails nat

datatype flush_fault =
  FlushOk | DataSyncFails | TmpCreateFails | TmpWriteFails nat | TmpSyncFails | TmpRenameFails

datatype store_error = SeekError | WriteError | ChunkTooLarge | NotFound | ReadError | FlushError flush_fault

section \<open>Index file\<close>

definition render_index_row :: "(bytes \<Rightarrow> string) \<Rightarrow> swarm_address \<times> u64 \<times> u32 \<Rightarrow> string" where
  "render_index_row hex_encode row =
     (case row of (addr, off, len) \<Rightarrow>
        hex_encode addr @ CHR '','' # show_uint off @ CHR '','' # show_uint len)"

definition index_text :: "(bytes \<Rightarrow> string) \<Rightarrow> store_inner \<Rightarrow> string" where
  "index_text hex_encode g =
     unlines ([INDEX_MAGIC, ''end='' @ show_uint (si_end g)] @ map (render_index_row hex_encode) (si_index g))"

definition parse_index_row ::
  "(nat \<Rightarrow> string \<Rightarrow> bytes option) \<Rightarrow> u64 \<Rightarrow> string \<Rightarrow> (swarm_address \<times> u64 \<times> u32) option" where
  "parse_index_row hex_decode data_end line =
     (case split_on (CHR '','') line of
        addr_hex # off # len # _ \<Rightarrow>
          (case hex_decode 32 addr_hex of
             None \<Rightarrow> None
           | Some addr \<Rightarrow>
               (case (parse_uint off, parse_uint len) of
                  (Some off', Some len') \<Rightarrow>
                    if off' + ucast (len' :: u32) \<le> data_end then Some (addr, off', len') else None
                | _ \<Rightarrow> None))
      | _ \<Rightarrow> None)"

definition load_index :: "(nat \<Rightarrow> string \<Rightarrow> bytes option) \<Rightarrow> string option \<Rightarrow> u64 \<Rightarrow> chunk_index" where
  "load_index hex_decode file data_end =
     (case file of
        None \<Rightarrow> []
      | Some txt \<Rightarrow>
          (case str_lines txt of
             [] \<Rightarrow> []
           | l # ls \<Rightarrow>
               if l \<noteq> INDEX_MAGIC then []
               else foldl (\<lambda>m line. case parse_index_row hex_decode data_end line of
                                      None \<Rightarrow> m | Some (a, v) \<Rightarrow> hm_insert a v m) [] (tl ls)))"

section \<open>Operations\<close>

definition store_open :: "(nat \<Rightarrow> string \<Rightarrow> bytes option) \<Rightarrow> store_disk \<Rightarrow> store_inner" where
  "store_open hex_decode d =
     (let end = of_nat (length (sd_data d))
      in \<lparr>si_end = end, si_index = load_index hex_decode (sd_index d) end, si_dirty = 0\<rparr>)"

definition store_len :: "store_inner \<Rightarrow> nat" where
  "store_len g = length (si_index g)"

definition store_is_empty :: "store_inner \<Rightarrow> bool" where
  "store_is_empty g \<longleftrightarrow> store_len g = 0"

definition store_contains :: "swarm_address \<Rightarrow> store_inner \<Rightarrow> bool" where
  "store_contains addr g \<longleftrightarrow> hm_get (si_index g) addr \<noteq> None"

definition write_at :: "nat \<Rightarrow> bytes \<Rightarrow> bytes \<Rightarrow> bytes" where
  "write_at off wire data =
     take off (data @ replicate (off - length data) 0) @ wire @ drop (off + length wire) data"

definition flush_locked ::
  "flush_fault \<Rightarrow> (bytes \<Rightarrow> string) \<Rightarrow> store_inner \<times> store_disk \<Rightarrow>
   (store_error, unit) result \<times> store_inner \<times> store_disk" where
  "flush_locked fault hex_encode gd =
     (case gd of (g, d) \<Rightarrow>
      let body = index_text hex_encode g in
      case fault of
        DataSyncFails \<Rightarrow> (Inl (FlushError fault), g, d)
      | TmpCreateFails \<Rightarrow> (Inl (FlushError fault), g, d)
      | TmpWriteFails n \<Rightarrow> (Inl (FlushError fault), g, d\<lparr>sd_index_tmp := Some (take n body)\<rparr>)
      | TmpSyncFails \<Rightarrow> (Inl (FlushError fault), g, d\<lparr>sd_index_tmp := Some body\<rparr>)
      | TmpRenameFails \<Rightarrow> (Inl (FlushError fault), g, d\<lparr>sd_index_tmp := Some body\<rparr>)
      | FlushOk \<Rightarrow> (Inr (), g\<lparr>si_dirty := 0\<rparr>, d\<lparr>sd_index := Some body, sd_index_tmp := None\<rparr>))"

definition store_put ::
  "put_fault \<Rightarrow> flush_fault \<Rightarrow> (bytes \<Rightarrow> string) \<Rightarrow> swarm_address \<Rightarrow> bytes \<Rightarrow> store_inner \<times> store_disk \<Rightarrow>
   (store_error, unit) result \<times> store_inner \<times> store_disk" where
  "store_put fault ffault hex_encode addr wire gd =
     (case gd of (g, d) \<Rightarrow>
      if hm_get (si_index g) addr \<noteq> None then (Inr (), g, d)
      else
        let offset = si_end g in
        case fault of
          SeekFails \<Rightarrow> (Inl SeekError, g, d)
        | DataWriteFails n \<Rightarrow>
            (Inl WriteError, g, d\<lparr>sd_data := write_at (unat offset) (take n wire) (sd_data d)\<rparr>)
        | PutOk \<Rightarrow>
            let d1 = d\<lparr>sd_data := write_at (unat offset) wire (sd_data d)\<rparr> in
            (case try_word (length wire) of
               None \<Rightarrow> (Inl ChunkTooLarge, g, d1)
             | Some (len :: u32) \<Rightarrow>
                 let g1 = g\<lparr>si_end := si_end g + ucast len,
                            si_index := hm_insert addr (offset, len) (si_index g),
                            si_dirty := si_dirty g + 1\<rparr>
                 in if FLUSH_EVERY \<le> si_dirty g1
                    then (Inr (), snd (flush_locked ffault hex_encode (g1, d1)))
                    else (Inr (), g1, d1)))"

definition store_get :: "swarm_address \<Rightarrow> store_inner \<times> store_disk \<Rightarrow> (store_error, bytes) result" where
  "store_get addr gd =
     (case hm_get (si_index (fst gd)) addr of
        None \<Rightarrow> Inl NotFound
      | Some (offset, len) \<Rightarrow>
          if unat offset + unat len \<le> length (sd_data (snd gd))
          then Inr (take (unat len) (drop (unat offset) (sd_data (snd gd))))
          else Inl ReadError)"

definition store_flush ::
  "flush_fault \<Rightarrow> (bytes \<Rightarrow> string) \<Rightarrow> store_inner \<times> store_disk \<Rightarrow>
   (store_error, unit) result \<times> store_inner \<times> store_disk" where
  "store_flush fault hex_encode gd = flush_locked fault hex_encode gd"

text \<open>Both removals ignore their errors; \<open>rd\<close> and \<open>ri\<close> say which of them takes effect.\<close>

definition store_cleanup :: "bool \<Rightarrow> bool \<Rightarrow> store_disk \<Rightarrow> (store_error, unit) result \<times> store_disk" where
  "store_cleanup rd ri d =
     (Inr (), d\<lparr>sd_data := (if rd then [] else sd_data d), sd_index := (if ri then None else sd_index d)\<rparr>)"

definition with_ext :: "string \<Rightarrow> string \<Rightarrow> string" where
  "with_ext base ext = base @ ''.'' @ ext"

definition store_fetch :: "store_inner \<times> store_disk \<Rightarrow> swarm_address \<Rightarrow> (store_error, bytes) result" where
  "store_fetch gd addr = store_get addr gd"

section \<open>Index file round trip\<close>

definition index_row_ok :: "u64 \<Rightarrow> swarm_address \<times> u64 \<times> u32 \<Rightarrow> bool" where
  "index_row_ok data_end row \<longleftrightarrow>
     (case row of (addr, off, len) \<Rightarrow> length addr = 32 \<and> unat off + unat len \<le> unat data_end)"

lemma unat_ucast_u32 [simp]: "unat (ucast (l :: u32) :: u64) = unat l"
proof -
  have "unat l < 2 ^ LENGTH(32)" by (rule unsigned_less)
  then show ?thesis by (simp add: unsigned_ucast_eq take_bit_nat_eq_self)
qed

lemma off_len_le:
  assumes "unat (off :: u64) + unat (l :: u32) \<le> unat (e :: u64)"
  shows "off + ucast l \<le> e"
proof -
  have "unat (off + ucast l) = unat off + unat l"
    using unat_add_no_overflow [of off "ucast l"] assms u64_less [of e] by simp
  with assms show ?thesis by (simp add: word_le_nat_alt)
qed

sublocale hex_codec \<subseteq> index_rows: row_format "index_row_ok data_end" "render_index_row hex_encode"
  "parse_index_row hex_decode data_end" for data_end
proof
  fix row
  assume "index_row_ok data_end row"
  then obtain a off l where row: "row = (a, off, l)" and a: "length a = 32"
    and le: "unat off + unat l \<le> unat data_end"
    by (cases row) (auto simp: index_row_ok_def)
  have "hex_decode 32 (hex_encode a) = Some a"
    using decode_encode [of a] a by simp
  with le show "parse_index_row hex_decode data_end (render_index_row hex_encode row) = Some row"
    by (simp add: row render_index_row_def parse_index_row_def split_on_append encode_no_sep
        split_on_no_sep off_len_le)
  show "NL \<notin> set (render_index_row hex_encode row)" "CR \<notin> set (render_index_row hex_encode row)"
    using encode_no_sep [of a]
    by (auto simp: row render_index_row_def dest: decimal_no_sep [OF decimal_show_uint, THEN notE])
      (auto simp: NL_def CR_def)
qed

lemma foldl_rows:
  "foldl (\<lambda>m line. case p line of None \<Rightarrow> m | Some (a, v) \<Rightarrow> hm_insert a v m) out ls
     = foldl (\<lambda>m (a, v). hm_insert a v m) out (read_rows p ls)"
  by (induction ls arbitrary: out) (auto split: option.split)

lemma INDEX_MAGIC_line: "NL \<notin> set INDEX_MAGIC" "CR \<notin> set INDEX_MAGIC"
  by (simp_all add: INDEX_MAGIC_def NL_def CR_def)

context hex_codec
begin

lemma index_text_lines:
  assumes "list_all (index_row_ok data_end) (si_index g)"
  shows "str_lines (index_text hex_encode g) =
    [INDEX_MAGIC, ''end='' @ show_uint (si_end g)] @ map (render_index_row hex_encode) (si_index g)"
  unfolding index_text_def
  using decimal_no_sep(1,2) [OF decimal_show_uint [of "si_end g"]] INDEX_MAGIC_line
  by (intro index_rows.file_lines [OF _ assms]) (auto simp: NL_def CR_def)

lemma load_index_text:
  assumes "list_all (index_row_ok data_end) (si_index g)" "hm_wf (si_index g)"
  shows "hm_get (load_index hex_decode (Some (index_text hex_encode g)) data_end) = hm_get (si_index g)"
  using assms(2) index_rows.read_back [OF assms(1)]
  by (auto simp: load_index_def index_text_lines [OF assms(1)] foldl_rows hm_get_of_list_wf
      hm_of_list_def [symmetric])

end

section \<open>Invariant and abstract view\<close>

definition store_inv :: "store_inner \<times> store_disk \<Rightarrow> bool" where
  "store_inv gd \<longleftrightarrow> (case gd of (g, d) \<Rightarrow>
     hm_wf (si_index g) \<and> list_all (index_row_ok (si_end g)) (si_index g)
     \<and> unat (si_end g) \<le> length (sd_data d))"

definition store_view :: "store_inner \<times> store_disk \<Rightarrow> swarm_address \<Rightarrow> bytes option" where
  "store_view gd addr =
     map_option (\<lambda>(off, len). take (unat len) (drop (unat off) (sd_data (snd gd)))) (hm_get (si_index (fst gd)) addr)"

definition put_fits :: "swarm_address \<Rightarrow> bytes \<Rightarrow> store_inner \<times> store_disk \<Rightarrow> bool" where
  "put_fits addr wire gd \<longleftrightarrow>
     length addr = 32 \<and> length wire < 2 ^ 32 \<and> unat (si_end (fst gd)) + length wire < 2 ^ 64"

lemma index_row_bound:
  assumes "store_inv (g, d)" "hm_get (si_index g) a = Some (off, l)"
  shows "length a = 32" "unat off + unat l \<le> unat (si_end g)" "unat off + unat l \<le> length (sd_data d)"
proof -
  have "(a, off, l) \<in> set (si_index g)"
    using assms by (auto dest: map_of_SomeD)
  with assms(1) have "index_row_ok (si_end g) (a, off, l)"
    by (auto simp: store_inv_def list_all_iff)
  with assms(1) show "length a = 32" "unat off + unat l \<le> unat (si_end g)"
    "unat off + unat l \<le> length (sd_data d)"
    by (auto simp: index_row_ok_def store_inv_def)
qed

lemma store_get_view:
  "store_inv gd \<Longrightarrow> store_get a gd = (case store_view gd a of None \<Rightarrow> Inl NotFound | Some w \<Rightarrow> Inr w)"
  by (cases gd) (auto simp: store_get_def store_view_def dest: index_row_bound split: option.split)

lemma take_write_at: "n \<le> off \<Longrightarrow> off \<le> length data \<Longrightarrow> take n (write_at off w data) = take n data"
  by (simp add: write_at_def min_def)

lemma length_write_at: "off \<le> length data \<Longrightarrow> length (write_at off w data) = max (length data) (off + length w)"
  by (simp add: write_at_def max_def)

lemma write_at_read: "off \<le> length data \<Longrightarrow> take (length w) (drop off (write_at off w data)) = w"
  by (simp add: write_at_def)

lemma take_drop_prefix:
  assumes "take n xs = take n ys" "off + l \<le> n"
  shows "take l (drop off xs) = take l (drop off ys)"
proof -
  have "take l (drop off zs) = drop off (take (off + l) (take n zs))" for zs :: "'a list"
    using assms(2) by (simp add: take_drop min_def add.commute)
  then show ?thesis using assms(1) by (simp only:)
qed

lemma view_prefix:
  assumes "store_inv (g, d)" "take (unat (si_end g)) (sd_data d') = take (unat (si_end g)) (sd_data d)"
  shows "store_view (g, d') = store_view (g, d)"
proof
  fix a
  show "store_view (g, d') a = store_view (g, d) a"
    using take_drop_prefix [OF assms(2)] index_row_bound [OF assms(1), of a]
    by (auto simp: store_view_def split: option.split intro!: option.map_cong0)
qed

lemma flush_locked_frame:
  assumes "flush_locked f h (g, d) = (r, g', d')"
  shows "si_end g' = si_end g \<and> si_index g' = si_index g \<and> sd_data d' = sd_data d"
  using assms by (cases f) (auto simp: flush_locked_def Let_def)

lemma flush_keeps:
  assumes "flush_locked f h (g, d) = (r, g', d')"
  shows "store_inv (g', d') = store_inv (g, d)" "store_view (g', d') = store_view (g, d)"
  using flush_locked_frame [OF assms] by (auto simp: store_inv_def store_view_def)

definition append_chunk :: "swarm_address \<Rightarrow> bytes \<Rightarrow> store_inner \<times> store_disk \<Rightarrow> store_inner \<times> store_disk" where
  "append_chunk addr wire gd =
     (case gd of (g, d) \<Rightarrow>
       (g\<lparr>si_end := si_end g + of_nat (length wire),
          si_index := hm_insert addr (si_end g, of_nat (length wire)) (si_index g),
          si_dirty := si_dirty g + 1\<rparr>,
        d\<lparr>sd_data := write_at (unat (si_end g)) wire (sd_data d)\<rparr>))"

lemma index_row_ok_mono: "index_row_ok e r \<Longrightarrow> unat e \<le> unat e' \<Longrightarrow> index_row_ok e' r"
  by (cases r) (auto simp: index_row_ok_def)

lemma append_chunk_inv:
  assumes "store_inv gd" "put_fits addr wire gd"
  shows "store_inv (append_chunk addr wire gd)"
proof -
  obtain g d where gd: "gd = (g, d)" by force
  have e: "unat (si_end g + of_nat (length wire)) = unat (si_end g) + length wire"
    using assms(2) unat_add_no_overflow [of "si_end g" "of_nat (length wire)"]
    by (simp add: gd put_fits_def unat_of_nat)
  have "index_row_ok (si_end g + of_nat (length wire)) r"
    if "r \<in> set (hm_insert addr (si_end g, of_nat (length wire)) (si_index g))" for r
  proof -
    have "r \<in> set (si_index g) \<or> r = (addr, si_end g, of_nat (length wire))"
      using that assms(1) hm_get_Some_iff [of "hm_insert addr (si_end g, of_nat (length wire)) (si_index g)" "fst r" "snd r"]
        hm_get_Some_iff [of "si_index g" "fst r" "snd r"]
      by (auto simp: gd store_inv_def hm_get_insert split: if_splits)
    then show ?thesis
    proof
      assume "r \<in> set (si_index g)"
      with assms(1) have "index_row_ok (si_end g) r" by (auto simp: gd store_inv_def list_all_iff)
      then show ?thesis by (rule index_row_ok_mono) (simp add: e)
    next
      assume "r = (addr, si_end g, of_nat (length wire))"
      with assms(2) e show ?thesis by (simp add: index_row_ok_def gd put_fits_def unat_of_nat)
    qed
  qed
  with assms(1) e show ?thesis
    by (auto simp: gd append_chunk_def store_inv_def list_all_iff length_write_at)
qed

lemma append_chunk_view:
  assumes inv: "store_inv gd" and fits: "put_fits addr wire gd" and new: "hm_get (si_index (fst gd)) addr = None"
  shows "store_view (append_chunk addr wire gd) = (store_view gd)(addr \<mapsto> wire)"
proof
  fix a
  obtain g d where gd: "gd = (g, d)" by force
  have le: "unat (si_end g) \<le> length (sd_data d)" using inv by (simp add: gd store_inv_def)
  have len: "unat (of_nat (length wire) :: u32) = length wire"
    using fits by (simp add: put_fits_def unat_of_nat)
  have "take (unat (si_end g)) (write_at (unat (si_end g)) wire (sd_data d)) = take (unat (si_end g)) (sd_data d)"
    using le by (simp add: take_write_at)
  then have "store_view (g, d\<lparr>sd_data := write_at (unat (si_end g)) wire (sd_data d)\<rparr>) a = store_view (g, d) a"
    using view_prefix [of g d "d\<lparr>sd_data := write_at (unat (si_end g)) wire (sd_data d)\<rparr>"] inv by (simp add: gd)
  then show "store_view (append_chunk addr wire gd) a = ((store_view gd)(addr \<mapsto> wire)) a"
    using le by (simp add: gd append_chunk_def store_view_def hm_get_insert len write_at_read)
qed

lemma store_put_new:
  assumes "hm_get (si_index g) addr = None" "length wire < 2 ^ 32"
  shows "store_put PutOk ff h addr wire (g, d) =
    (Inr (), if FLUSH_EVERY \<le> si_dirty g + 1
             then snd (flush_locked ff h (append_chunk addr wire (g, d))) else append_chunk addr wire (g, d))"
proof -
  have "try_word (length wire) = Some (of_nat (length wire) :: u32)"
    using assms(2) by (simp add: try_word_def)
  moreover have "(ucast (of_nat (length wire) :: u32) :: u64) = of_nat (length wire)"
    using assms(2) by (simp add: unsigned_of_nat take_bit_nat_eq_self)
  ultimately show ?thesis
    using assms(1) by (simp add: store_put_def append_chunk_def Let_def)
qed

lemma store_put_dup:
  "hm_get (si_index (fst gd)) addr \<noteq> None \<Longrightarrow> store_put f ff h addr wire gd = (Inr (), gd)"
  by (cases gd) (simp add: store_put_def)

lemma store_view_None: "store_view gd a = None \<longleftrightarrow> hm_get (si_index (fst gd)) a = None"
  by (simp add: store_view_def)

lemma store_put_ok:
  assumes inv: "store_inv gd" and fits: "put_fits addr wire gd"
    and put: "store_put PutOk ff h addr wire gd = (r, gd')"
  shows "r = Inr ()" "store_inv gd'"
    "store_view gd' = (case store_view gd addr of None \<Rightarrow> (store_view gd)(addr \<mapsto> wire) | Some _ \<Rightarrow> store_view gd)"
proof -
  obtain g d where gd: "gd = (g, d)" by force
  have "r = Inr () \<and> store_inv gd' \<and>
    store_view gd' = (case store_view gd addr of None \<Rightarrow> (store_view gd)(addr \<mapsto> wire) | Some _ \<Rightarrow> store_view gd)"
  proof (cases "hm_get (si_index g) addr")
    case None
    obtain g1 d1 where ap: "append_chunk addr wire (g, d) = (g1, d1)" by force
    obtain r2 g2 d2 where fl: "flush_locked ff h (g1, d1) = (r2, g2, d2)" by (metis prod.exhaust)
    from append_chunk_inv [OF inv fits] append_chunk_view [OF inv fits] None
    have "store_inv (g1, d1)" "store_view (g1, d1) = (store_view gd)(addr \<mapsto> wire)"
      by (simp_all add: gd ap)
    moreover have "store_view gd addr = None" using None by (simp add: gd store_view_None)
    ultimately show ?thesis
      using put store_put_new [OF None, of wire ff h d] fits flush_keeps [OF fl]
      by (auto simp: gd put_fits_def ap fl split: if_splits)
  next
    case (Some v)
    then have "store_view gd addr \<noteq> None" by (simp add: gd store_view_None)
    with Some put inv show ?thesis
      using store_put_dup [of gd addr PutOk ff h wire] by (auto simp: gd)
  qed
  then show "r = Inr ()" "store_inv gd'"
    "store_view gd' = (case store_view gd addr of None \<Rightarrow> (store_view gd)(addr \<mapsto> wire) | Some _ \<Rightarrow> store_view gd)"
    by simp_all
qed

lemma store_put_fault:
  assumes inv: "store_inv gd" and "f \<noteq> PutOk" and put: "store_put f ff h addr wire gd = (r, gd')"
  shows "store_inv gd'" "store_view gd' = store_view gd"
proof -
  obtain g d where gd: "gd = (g, d)" by force
  have le: "unat (si_end g) \<le> length (sd_data d)" using inv by (simp add: gd store_inv_def)
  have same: "store_view (g, d\<lparr>sd_data := write_at (unat (si_end g)) w (sd_data d)\<rparr>) = store_view (g, d)" for w
    using inv le by (intro view_prefix) (simp_all add: gd take_write_at)
  have "store_inv gd' \<and> store_view gd' = store_view gd"
    using put assms(2) inv le same
    by (cases f; cases "hm_get (si_index g) addr")
      (auto simp: gd store_put_def Let_def store_inv_def length_write_at)
  then show "store_inv gd'" "store_view gd' = store_view gd" by simp_all
qed

section \<open>The store as a first-wins map\<close>

text \<open>
  What the fetch layer relies on: a store with an abstract map, where a \<open>put\<close> keeps the first
  value of a key and a \<open>get\<close> reads the map.
\<close>

locale first_wins_store =
  fixes inv :: "'s \<Rightarrow> bool"
    and view :: "'s \<Rightarrow> 'k \<Rightarrow> 'v option"
    and fits :: "'k \<Rightarrow> 'v \<Rightarrow> 's \<Rightarrow> bool"
    and put :: "'k \<Rightarrow> 'v \<Rightarrow> 's \<Rightarrow> 's"
    and get :: "'k \<Rightarrow> 's \<Rightarrow> 'v option"
  assumes put_inv: "inv s \<Longrightarrow> fits k v s \<Longrightarrow> inv (put k v s)"
    and put_view: "inv s \<Longrightarrow> fits k v s \<Longrightarrow>
      view (put k v s) = (case view s k of None \<Rightarrow> (view s)(k \<mapsto> v) | Some _ \<Rightarrow> view s)"
    and get_view: "inv s \<Longrightarrow> get k s = view s k"
begin

fun put_all :: "('k \<times> 'v) list \<Rightarrow> 's \<Rightarrow> 's" where
  "put_all [] s = s"
| "put_all ((k, v) # kvs) s = put_all kvs (put k v s)"

fun fits_all :: "('k \<times> 'v) list \<Rightarrow> 's \<Rightarrow> bool" where
  "fits_all [] s \<longleftrightarrow> True"
| "fits_all ((k, v) # kvs) s \<longleftrightarrow> fits k v s \<and> fits_all kvs (put k v s)"

lemma put_all_view:
  "inv s \<Longrightarrow> fits_all kvs s \<Longrightarrow> inv (put_all kvs s) \<and>
   view (put_all kvs s) k = (case view s k of Some v \<Rightarrow> Some v | None \<Rightarrow> map_of kvs k)"
  by (induction kvs arbitrary: s) (auto simp: put_inv put_view split: option.split)

lemma get_put_all:
  "inv s \<Longrightarrow> fits_all kvs s \<Longrightarrow>
   get k (put_all kvs s) = (case get k s of Some v \<Rightarrow> Some v | None \<Rightarrow> map_of kvs k)"
  using put_all_view [of s kvs k] by (simp add: get_view)

end

definition store_puts :: "(bytes \<Rightarrow> string) \<Rightarrow> swarm_address \<Rightarrow> bytes \<Rightarrow> store_inner \<times> store_disk \<Rightarrow> store_inner \<times> store_disk" where
  "store_puts h addr wire gd = snd (store_put PutOk FlushOk h addr wire gd)"

definition store_lookup :: "swarm_address \<Rightarrow> store_inner \<times> store_disk \<Rightarrow> bytes option" where
  "store_lookup addr gd = (case store_get addr gd of Inl _ \<Rightarrow> None | Inr w \<Rightarrow> Some w)"

interpretation chunks: first_wins_store store_inv store_view put_fits "store_puts h" store_lookup for h
proof
  fix s k v
  assume "store_inv s" "put_fits k v s"
  then show "store_inv (store_puts h k v s)"
    and "store_view (store_puts h k v s) = (case store_view s k of None \<Rightarrow> (store_view s)(k \<mapsto> v) | Some _ \<Rightarrow> store_view s)"
    using store_put_ok(2,3) [of s k v FlushOk h _ "store_puts h k v s"]
    unfolding store_puts_def by (metis prod.collapse)+
next
  fix s k
  assume "store_inv s"
  then show "store_lookup k s = store_view s k"
    by (simp add: store_lookup_def store_get_view split: option.split)
qed

section \<open>Sessions\<close>

text \<open>
  The calls of a session on the store, with the fault each runs into, and the map they are to act
  on: a \<open>put\<close> keeps the first chunk of an address, a faulty one changes nothing.
\<close>

datatype store_op =
  OpPut put_fault flush_fault swarm_address bytes
| OpGet swarm_address
| OpContains swarm_address
| OpLen
| OpFlush flush_fault

datatype store_reply = Done "(store_error, unit) result" | Chunk "(store_error, bytes) result" | Present bool | Count nat

fun store_op_step :: "(bytes \<Rightarrow> string) \<Rightarrow> store_op \<Rightarrow> store_inner \<times> store_disk \<Rightarrow> store_reply \<times> store_inner \<times> store_disk" where
  "store_op_step h (OpPut f ff addr wire) gd = apfst Done (store_put f ff h addr wire gd)"
| "store_op_step h (OpGet addr) gd = (Chunk (store_get addr gd), gd)"
| "store_op_step h (OpContains addr) gd = (Present (store_contains addr (fst gd)), gd)"
| "store_op_step h OpLen gd = (Count (store_len (fst gd)), gd)"
| "store_op_step h (OpFlush ff) gd = apfst Done (store_flush ff h gd)"

fun map_op_step :: "store_op \<Rightarrow> (swarm_address \<rightharpoonup> bytes) \<Rightarrow> store_reply \<times> (swarm_address \<rightharpoonup> bytes)" where
  "map_op_step (OpPut f ff addr wire) m =
     (case m addr of
        Some _ \<Rightarrow> (Done (Inr ()), m)
      | None \<Rightarrow> (case f of
                   PutOk \<Rightarrow> (Done (Inr ()), m(addr \<mapsto> wire))
                 | SeekFails \<Rightarrow> (Done (Inl SeekError), m)
                 | DataWriteFails _ \<Rightarrow> (Done (Inl WriteError), m)))"
| "map_op_step (OpGet addr) m = (Chunk (case m addr of Some w \<Rightarrow> Inr w | None \<Rightarrow> Inl NotFound), m)"
| "map_op_step (OpContains addr) m = (Present (m addr \<noteq> None), m)"
| "map_op_step OpLen m = (Count (card (dom m)), m)"
| "map_op_step (OpFlush ff) m = (Done (if ff = FlushOk then Inr () else Inl (FlushError ff)), m)"

fun op_bytes :: "store_op \<Rightarrow> nat" where
  "op_bytes (OpPut f ff addr wire) = length wire"
| "op_bytes _ = 0"

fun op_fits :: "store_op \<Rightarrow> bool" where
  "op_fits (OpPut f ff addr wire) \<longleftrightarrow> length addr = 32 \<and> length wire < 2 ^ 32"
| "op_fits _ \<longleftrightarrow> True"

definition session_ok :: "store_op list \<Rightarrow> store_inner \<times> store_disk \<Rightarrow> bool" where
  "session_ok ops gd \<longleftrightarrow> store_inv gd \<and> list_all op_fits ops \<and> unat (si_end (fst gd)) + sum_list (map op_bytes ops) < 2 ^ 64"

lemma store_put_end:
  assumes "put_fits addr wire gd" "store_put f ff h addr wire gd = (r, gd')"
  shows "unat (si_end (fst gd')) \<le> unat (si_end (fst gd)) + length wire"
proof -
  obtain g d where gd: "gd = (g, d)" by force
  have fl: "si_end (fst (snd (flush_locked ff h x))) = si_end (fst x)" for x
    using flush_locked_frame by (cases x) (metis fst_conv prod.collapse)
  have e: "unat (si_end g + of_nat (length wire)) = unat (si_end g) + length wire"
    using assms(1) unat_add_no_overflow [of "si_end g" "of_nat (length wire)"] by (simp add: gd put_fits_def unat_of_nat)
  show ?thesis
  proof (cases "hm_get (si_index g) addr = None \<and> f = PutOk")
    case True
    then have "si_end (fst gd') = si_end g + of_nat (length wire)"
      using assms store_put_new [of g addr wire ff h d] by (auto simp: gd put_fits_def append_chunk_def fl split: if_splits)
    then show ?thesis by (simp add: gd e)
  next
    case False
    then have "fst gd' = g" using assms(2) by (cases f) (auto simp: gd store_put_def Let_def split: if_splits)
    then show ?thesis by (simp add: gd)
  qed
qed

lemma store_put_fault_reply:
  "hm_get (si_index (fst gd)) addr = None \<Longrightarrow>
   fst (store_put f ff h addr wire gd) \<in> (case f of PutOk \<Rightarrow> UNIV | SeekFails \<Rightarrow> {Inl SeekError} | DataWriteFails _ \<Rightarrow> {Inl WriteError})"
  by (cases gd; cases f) (simp_all add: store_put_def Let_def)

lemma store_put_refines:
  assumes "store_inv gd" "put_fits addr wire gd"
  shows "map_op_step (OpPut f ff addr wire) (store_view gd)
    = (fst (store_op_step h (OpPut f ff addr wire) gd), store_view (snd (store_op_step h (OpPut f ff addr wire) gd)))"
proof (cases "store_view gd addr")
  case (Some w)
  then show ?thesis using store_put_dup [of gd addr f ff h wire] store_view_None [of gd addr] by simp
next
  case None
  then have new: "hm_get (si_index (fst gd)) addr = None" by (simp add: store_view_None)
  obtain r gd' where put: "store_put f ff h addr wire gd = (r, gd')" by (metis prod.exhaust)
  show ?thesis
    using store_put_ok [OF assms, of ff h r gd'] store_put_fault [OF assms(1) _ put] store_put_fault_reply [OF new, of f ff h wire]
      put None by (cases f) auto
qed

lemma store_view_dom: "dom (store_view gd) = hm_keys (si_index (fst gd))"
  by (simp add: dom_def store_view_def hm_get_None)

interpretation session: refinement store_view session_ok "store_op_step h" map_op_step for h
proof
  fix x xs gd
  assume ok: "session_ok (x # xs) gd"
  then have inv: "store_inv gd" by (simp add: session_ok_def)
  obtain g d where gd: "gd = (g, d)" by force
  show "map_op_step x (store_view gd) = (fst (store_op_step h x gd), store_view (snd (store_op_step h x gd)))"
  proof (cases x)
    case (OpPut f ff addr wire)
    with ok have "put_fits addr wire gd" by (simp add: session_ok_def put_fits_def)
    then show ?thesis using store_put_refines [OF inv] unfolding OpPut by blast
  next
    case (OpGet addr)
    then show ?thesis by (simp add: store_get_view [OF inv] split: option.split)
  next
    case (OpContains addr)
    then show ?thesis by (simp add: store_contains_def store_view_None)
  next
    case OpLen
    then show ?thesis using inv hm_length [of "si_index g"] by (simp add: store_len_def store_view_dom gd store_inv_def)
  next
    case (OpFlush ff)
    obtain r gd' where fl: "flush_locked ff h (g, d) = (r, gd')" by (metis prod.exhaust)
    then have "r = (if ff = FlushOk then Inr () else Inl (FlushError ff))" by (cases ff) (auto simp: flush_locked_def Let_def)
    then show ?thesis using OpFlush fl flush_keeps(2) [of ff h g d r "fst gd'" "snd gd'"] by (simp add: store_flush_def gd)
  qed
  show "session_ok xs (snd (store_op_step h x gd))"
  proof (cases x)
    case (OpPut f ff addr wire)
    with ok have fits: "put_fits addr wire gd" by (simp add: session_ok_def put_fits_def)
    obtain r gd' where put: "store_put f ff h addr wire gd = (r, gd')" by (metis prod.exhaust)
    have "store_inv gd'" using store_put_ok(2) [OF inv fits] store_put_fault(1) [OF inv _ put] put by (cases "f = PutOk") auto
    then show ?thesis using ok store_put_end [OF fits put] OpPut put by (simp add: session_ok_def)
  next
    case (OpFlush ff)
    obtain r g' d' where fl: "flush_locked ff h (g, d) = (r, g', d')" by (metis prod.exhaust)
    then show ?thesis using ok OpFlush flush_keeps(1) [OF fl] flush_locked_frame [OF fl] by (simp add: session_ok_def store_flush_def gd)
  qed (use ok in \<open>simp_all add: session_ok_def\<close>)
qed

section \<open>Reopening\<close>

lemma flush_reopen_view:
  assumes hex: "hex_codec henc hdec" and inv: "store_inv (g, d)"
    and flushed: "flush_locked FlushOk henc (g, d) = (r, g', d')"
    and disk: "sd_index dk = sd_index d'" "length (sd_data dk) < 2 ^ 64"
      "unat (si_end g) \<le> length (sd_data dk)"
      "take (unat (si_end g)) (sd_data dk) = take (unat (si_end g)) (sd_data d)"
  shows "store_inv (store_open hdec dk, dk)" "store_view (store_open hdec dk, dk) = store_view (g, d)"
proof -
  let ?e = "of_nat (length (sd_data dk)) :: u64"
  have idx: "sd_index dk = Some (index_text henc g)"
    using flushed disk(1) by (auto simp: flush_locked_def)
  have e: "unat ?e = length (sd_data dk)" using disk(2) by (simp add: unat_of_nat)
  have rows: "list_all (index_row_ok ?e) (si_index g)" and wf: "hm_wf (si_index g)"
    using inv disk(3) e by (auto simp: store_inv_def list_all_iff intro: index_row_ok_mono)
  have get: "hm_get (si_index (store_open hdec dk)) = hm_get (si_index g)"
    using hex_codec.load_index_text [OF hex rows wf] by (simp add: store_open_def Let_def idx)
  have wf': "hm_wf (si_index (store_open hdec dk))"
    by (simp add: store_open_def Let_def load_index_def foldl_rows hm_wf_foldl_insert split: option.split list.split)
  have "set (si_index (store_open hdec dk)) = set (si_index g)"
    using get wf wf' map_of_inject_set by (metis hm_wf_def)
  with rows wf' e show "store_inv (store_open hdec dk, dk)"
    by (simp add: store_inv_def list_all_iff, simp add: store_open_def Let_def)
  have "store_view (store_open hdec dk, dk) = store_view (g, dk)"
    using get by (auto simp: store_view_def)
  also have "\<dots> = store_view (g, d)"
    by (rule view_prefix [OF inv disk(4)])
  finally show "store_view (store_open hdec dk, dk) = store_view (g, d)" .
qed

lemma store_put_prefix:
  assumes "store_inv (g, d)" "store_put f ff h addr wire (g, d) = (r, g', d')"
  shows "take (unat (si_end g)) (sd_data d') = take (unat (si_end g)) (sd_data d)"
    "length (sd_data d) \<le> length (sd_data d')"
proof -
  have le: "unat (si_end g) \<le> length (sd_data d)" using assms(1) by (simp add: store_inv_def)
  have fl: "sd_data (snd (snd (flush_locked ff h gd))) = sd_data (snd gd)" for gd
    using flush_locked_frame by (cases gd) (metis prod.collapse snd_conv)
  have "sd_data d' = sd_data d \<or> sd_data d' \<in> range (\<lambda>w. write_at (unat (si_end g)) w (sd_data d))"
    using arg_cong [OF assms(2), of "\<lambda>x. sd_data (snd (snd x))", symmetric]
    by (simp add: store_put_def Let_def fl split: if_splits put_fault.splits option.splits)
  with le show "take (unat (si_end g)) (sd_data d') = take (unat (si_end g)) (sd_data d)"
    "length (sd_data d) \<le> length (sd_data d')"
    by (auto simp: take_write_at length_write_at)
qed

section \<open>Properties\<close>

text \<open>
  A \<open>put\<close> whose system calls succeed returns without error, keeps the store invariant, and makes
  the chunk readable unless the address was present, whose first copy stays; every other address
  reads as before, also when the periodic index flush inside the \<open>put\<close> fails.
\<close>
theorem store_put_first_wins:
  assumes "store_inv gd" "put_fits addr wire gd" "store_put PutOk ff h addr wire gd = (r, gd')"
  shows "r = Inr () \<and> store_inv gd' \<and>
    store_get a gd' = (if a \<noteq> addr then store_get a gd
                       else case store_get addr gd of Inr w \<Rightarrow> Inr w | Inl _ \<Rightarrow> Inr wire)"
  using store_put_ok [OF assms] assms(1) by (auto simp: store_get_view split: option.split)

theorem store_put_first_wins_witness:
  "\<exists>gd. store_put PutOk FlushOk render_root (replicate 32 1) [7, 8]
       (\<lparr>si_end = 0, si_index = [], si_dirty = 0\<rparr>, \<lparr>sd_data = [], sd_index = None, sd_index_tmp = None\<rparr>)
       = (Inr (), gd) \<and> store_get (replicate 32 1) gd = Inr [7, 8] \<and> store_get [] gd = Inl NotFound"
proof -
  let ?gd = "(\<lparr>si_end = 0, si_index = [], si_dirty = 0\<rparr>, \<lparr>sd_data = [], sd_index = None, sd_index_tmp = None\<rparr>)"
  obtain r gd where put: "store_put PutOk FlushOk render_root (replicate 32 1) [7, 8] ?gd = (r, gd)"
    by (metis prod.exhaust)
  have inv: "store_inv ?gd" and fits: "put_fits (replicate 32 1) [7, 8] ?gd"
    by (simp_all add: store_inv_def put_fits_def)
  from store_put_first_wins [OF inv fits put, of "replicate 32 1"] store_put_first_wins [OF inv fits put, of "[]"] put
  show ?thesis by (simp add: store_get_def)
qed



text \<open>
  A \<open>put\<close> that fails in the seek or part-way through the write returns the error and changes
  no readable chunk: the partial bytes lie beyond the recorded end and the next \<open>put\<close> overwrites them.
\<close>
theorem store_put_failure_harmless:
  assumes "store_inv gd" "store_get addr gd = Inl NotFound" "f \<noteq> PutOk"
    and "store_put f ff h addr wire gd = (r, gd')"
  shows "r \<noteq> Inr () \<and> store_inv gd' \<and> store_get a gd' = store_get a gd"
proof -
  have "hm_get (si_index (fst gd)) addr = None"
    using assms(2) by (auto simp: store_get_def split: option.splits if_splits)
  then have "r \<noteq> Inr ()"
    using assms(3,4) by (cases gd; cases f) (auto simp: store_put_def Let_def)
  then show ?thesis
    using store_put_fault [OF assms(1,3,4)] assms(1) by (simp add: store_get_view)
qed

theorem store_put_failure_harmless_witness:
  "store_get (replicate 32 1) (\<lparr>si_end = 0, si_index = [], si_dirty = 0\<rparr>,
      \<lparr>sd_data = [7], sd_index = None, sd_index_tmp = None\<rparr>) = Inl NotFound"
  using store_put_failure_harmless [of
      "(\<lparr>si_end = 0, si_index = [], si_dirty = 0\<rparr>, \<lparr>sd_data = [], sd_index = None, sd_index_tmp = None\<rparr>)"
      "replicate 32 1" "DataWriteFails 1" FlushOk render_root "[7, 8]" "Inl WriteError"
      "(\<lparr>si_end = 0, si_index = [], si_dirty = 0\<rparr>, \<lparr>sd_data = [7], sd_index = None, sd_index_tmp = None\<rparr>)"
      "replicate 32 1"]
  by (simp add: store_inv_def store_get_def store_put_def write_at_def)

text \<open>
  C14 Crash recovery: after a successful index flush, let one more \<open>put\<close> run into any fault and the
  process die before another index reaches the disk, with the data file torn anywhere at or after
  the flushed end. Reopening the store yields exactly the chunks of the flush, with their bytes.
\<close>
theorem store_crash_recovery:
  assumes "hex_codec henc hdec" "store_inv (g, d)"
    and "store_flush FlushOk henc (g, d) = (Inr (), g1, d1)"
    and "store_put f ff henc addr wire (g1, d1) = (r, g2, d2)"
    and "unat (si_end g) \<le> n" "n \<le> length (sd_data d2)" "n < 2 ^ 64"
    and "dk = \<lparr>sd_data = take n (sd_data d2), sd_index = sd_index d1, sd_index_tmp = tmp\<rparr>"
  shows "store_get a (store_open hdec dk, dk) = store_get a (g, d)"
proof -
  have fl: "flush_locked FlushOk henc (g, d) = (Inr (), g1, d1)"
    using assms(3) by (simp add: store_flush_def)
  have inv1: "store_inv (g1, d1)" using flush_keeps(1) [OF fl] assms(2) by simp
  have "take (unat (si_end g)) (sd_data d2) = take (unat (si_end g)) (sd_data d)"
    using store_put_prefix(1) [OF inv1 assms(4)] flush_locked_frame [OF fl] by simp
  then have "store_inv (store_open hdec dk, dk)" "store_view (store_open hdec dk, dk) = store_view (g, d)"
    using assms(5-8) by (intro flush_reopen_view [OF assms(1,2) fl]; simp add: min_def)+
  then show ?thesis using assms(2) by (simp add: store_get_view)
qed

definition sample_disk :: "bytes \<Rightarrow> store_disk" where
  "sample_disk bs = \<lparr>sd_data = bs, sd_index = Some (index_text render_root
      \<lparr>si_end = 2, si_index = [(replicate 32 1, 0, 2)], si_dirty = 1\<rparr>), sd_index_tmp = None\<rparr>"

theorem store_crash_recovery_witness:
  "store_get (replicate 32 1) (store_open parse_hex_pairs (sample_disk [7, 8, 9]), sample_disk [7, 8, 9]) = Inr [7, 8]"
proof -
  let ?g = "\<lparr>si_end = 2, si_index = [(replicate 32 1, 0, 2)], si_dirty = 1\<rparr>"
  let ?d = "\<lparr>sd_data = [7, 8], sd_index = None, sd_index_tmp = None\<rparr>"
  have fl: "store_flush FlushOk render_root (?g, ?d) = (Inr (), ?g\<lparr>si_dirty := 0\<rparr>, sample_disk [7, 8])"
    by (simp add: store_flush_def flush_locked_def sample_disk_def)
  have put: "store_put (DataWriteFails 1) FlushOk render_root (replicate 32 3) [9, 9] (?g\<lparr>si_dirty := 0\<rparr>, sample_disk [7, 8])
      = (Inl WriteError, ?g\<lparr>si_dirty := 0\<rparr>, sample_disk [7, 8, 9])"
    by (simp add: store_put_def sample_disk_def write_at_def)
  have "store_inv (?g, ?d)" by (simp add: store_inv_def hm_wf_def index_row_ok_def)
  from store_crash_recovery [OF own_hex.hex_codec_axioms this fl put, of 3 "sample_disk [7, 8, 9]" None "replicate 32 1"]
  show ?thesis by (simp add: store_get_def sample_disk_def)
qed

text \<open>
  The torn-file guard of the index loader adds offset and length with wrap-around: a row whose
  sum passes \<open>2\<^sup>6\<^sup>4\<close> is accepted for a data file of any length, so its address counts as stored
  while reading it fails.
\<close>
theorem load_index_guard_wraps:
  assumes "hex_codec henc hdec" "length a = 32"
  shows "parse_index_row hdec data_end (render_index_row henc (a, - 1, 1)) = Some (a, - 1, 1) \<and>
    (let g = \<lparr>si_end = data_end, si_index = [(a, - 1, 1)], si_dirty = 0\<rparr>
     in store_contains a g \<and> (length (sd_data d) < 2 ^ 64 \<longrightarrow> store_get a (g, d) = Inl ReadError))"
proof -
  have "hdec 32 (henc a) = Some a"
    using hex_codec.decode_encode [OF assms(1), of a] assms(2) by simp
  moreover have "(- 1 :: u64) + ucast (1 :: u32) \<le> data_end" by simp
  ultimately show ?thesis
    by (simp add: parse_index_row_def render_index_row_def split_on_append split_on_no_sep
        hex_codec.encode_no_sep [OF assms(1)] store_contains_def store_get_def unat_minus_one_word Let_def)
qed

theorem load_index_guard_wraps_witness:
  "parse_index_row parse_hex_pairs 0 (render_index_row render_root (replicate 32 1, - 1, 1)) = Some (replicate 32 1, - 1, 1)"
  using load_index_guard_wraps [OF own_hex.hex_codec_axioms, of "replicate 32 1" 0] by simp

end
