(* ===== verification/Pacer.thy ===== *)
theory Pacer
  imports Mirror Cheque Dispatch Store
begin

text \<open>
  The settlement and fetch loop of one scheduled connection (\<^verbatim>\<open>Pacer\<close>, \<^verbatim>\<open>emit\<close>,
  \<^verbatim>\<open>emit_prepay\<close>, \<^verbatim>\<open>refresh\<close> and \<^verbatim>\<open>drive\<close> of \<^verbatim>\<open>rust/ds-net/src/schedule.rs\<close>). Time is a
  millisecond count passed in. The state other connections share (spend counter and ledger, work
  pool, chunk store, fallback queue, counters) is \<open>shared\<close>. Chunk prices
  (\<open>Accounting::peer_price\<close>), chunk retrieval and the pseudosettle exchange are parameters.

  One pass of the drive loop is \<open>drive_iter\<close>. Fetch tasks run concurrently with it: a task is in
  \<open>dv_tasks\<close> from its spawn to its end, \<open>finish_task\<close> is its whole effect, and the input of a pass
  says which tasks end at each point where the loop is suspended. The join set also counts tasks
  that ended and were not reaped yet (\<open>dv_unreaped\<close>).
\<close>

section \<open>Pacer\<close>

definition DEFAULT_THRESHOLD :: u64 where "DEFAULT_THRESHOLD = 1350000"
definition DEFAULT_LAMBDA_MS :: u64 where "DEFAULT_LAMBDA_MS = 3000"
definition LAMBDA_MIN_MS :: u64 where "LAMBDA_MIN_MS = 800"
definition LAMBDA_MAX_MS :: u64 where "LAMBDA_MAX_MS = 25000"
definition DEFAULT_RATE :: u64 where "DEFAULT_RATE = 100000"
definition REFRESH_MIN_INTERVAL :: nat where "REFRESH_MIN_INTERVAL = 1100"
definition CHEQUE_MIN_INTERVAL :: nat where "CHEQUE_MIN_INTERVAL = 500"

record pacer =
  pa_mirror :: mirror
  pa_announced :: "U256 option"
  pa_lambda_ms :: u64
  pa_unvalidated :: "(nat \<times> u64) list"
  pa_rate :: u64
  pa_settled_units :: u64
  pa_prepaid :: u64
  pa_avg_price :: u64
  pa_last_refresh :: "nat option"
  pa_last_cheque :: "nat option"

definition threshold :: "pacer \<Rightarrow> u64" where
  "threshold p =
     (case pa_announced p of
        None \<Rightarrow> DEFAULT_THRESHOLD
      | Some t \<Rightarrow> (case try_word (unat t) of Some w \<Rightarrow> w | None \<Rightarrow> DEFAULT_THRESHOLD))"

definition clamp :: "'a::linorder \<Rightarrow> 'a \<Rightarrow> 'a \<Rightarrow> 'a" where
  "clamp x lo hi = (if x < lo then lo else if hi < x then hi else x)"

definition window :: "pacer \<Rightarrow> nat" where
  "window p = unat (clamp (pa_lambda_ms p) LAMBDA_MIN_MS LAMBDA_MAX_MS * 3 div 2)"

definition unvalidated_sum :: "nat \<Rightarrow> pacer \<Rightarrow> u64 \<times> pacer" where
  "unvalidated_sum now p =
     (let q = dropWhile (\<lambda>(at, _). window p < now - at) (pa_unvalidated p)
      in (sum_list (map snd q), p\<lparr>pa_unvalidated := q\<rparr>))"

definition admit_limit :: "pacer \<Rightarrow> u64 \<Rightarrow> u64" where
  "admit_limit p unval = sat_sub (pa_prepaid p + sat_mul (threshold p) 105 div 100) unval"

definition admit :: "nat \<Rightarrow> u64 \<Rightarrow> pacer \<Rightarrow> bool \<times> pacer" where
  "admit now price p =
     (let (unval, p1) = unvalidated_sum now p;
          (ok, m) = try_reserve price (admit_limit p1 unval) (pa_mirror p1)
      in (ok, p1\<lparr>pa_mirror := m\<rparr>))"

section \<open>Shared state and settlement steps\<close>

record shared =
  sh_spend :: spend_state
  sh_pool :: work_pool
  sh_store :: "store_inner \<times> store_disk"
  sh_fallback :: "swarm_address list"
  sh_direct_bytes :: u64
  sh_direct_ok :: u64
  sh_cheques :: u64
  sh_cheque_plur :: u64
  sh_refresh_units :: u64

record conn_args =
  ca_overlay :: swarm_address
  ca_prefix :: u64
  ca_beneficiary :: bytes
  ca_issuable :: U256
  ca_max_issue_plur :: u64
  ca_pipeline :: nat
  ca_prepay :: bool

definition cheque_for :: "conn_args \<Rightarrow> u64 \<Rightarrow> cheque_emit" where
  "cheque_for a units = \<lparr>ce_beneficiary = ca_beneficiary a, ce_debt_units = units,
     ce_issuable = ca_issuable a, ce_max_issue_plur = ca_max_issue_plur a\<rparr>"

definition rate_or_default :: "u128 \<Rightarrow> u64" where
  "rate_or_default r = (case try_word (unat r) of Some w \<Rightarrow> w | None \<Rightarrow> DEFAULT_RATE)"

definition count_cheque :: "rate_emit_outcome \<Rightarrow> shared \<Rightarrow> shared" where
  "count_cheque r sh = sh\<lparr>sh_cheques := sh_cheques sh + 1,
     sh_cheque_plur := sh_cheque_plur sh + try_from_or_max (eo_plur r)\<rparr>"

definition emit_prepay ::
  "cheque_tools \<Rightarrow> conn_args \<Rightarrow> emit_env \<Rightarrow> nat \<Rightarrow> u64 \<Rightarrow> pacer \<times> shared \<Rightarrow> (emit_error, unit) result \<times> pacer \<times> shared" where
  "emit_prepay tools a env now units ps =
     (case ps of (p, sh) \<Rightarrow>
      case emit_settlement_cheque tools (cheque_for a units) env (sh_spend sh) of
        (Inl err, s) \<Rightarrow> (Inl err, p, sh\<lparr>sh_spend := s\<rparr>)
      | (Inr (r, _), s) \<Rightarrow>
          (Inr (),
           p\<lparr>pa_prepaid := pa_prepaid p + units, pa_settled_units := pa_settled_units p + units,
             pa_unvalidated := pa_unvalidated p @ [(now, units)], pa_last_cheque := Some now,
             pa_rate := rate_or_default (eo_rate r)\<rparr>,
           count_cheque r (sh\<lparr>sh_spend := s\<rparr>)))"

definition emit ::
  "cheque_tools \<Rightarrow> conn_args \<Rightarrow> emit_env \<Rightarrow> nat \<Rightarrow> u64 \<Rightarrow> pacer \<times> shared \<Rightarrow> (emit_error, unit) result \<times> pacer \<times> shared" where
  "emit tools a env now units ps =
     (case ps of (p, sh) \<Rightarrow>
      case emit_settlement_cheque tools (cheque_for a units) env (sh_spend sh) of
        (Inl err, s) \<Rightarrow> (Inl err, p, sh\<lparr>sh_spend := s\<rparr>)
      | (Inr (r, _), s) \<Rightarrow>
          (Inr (),
           p\<lparr>pa_mirror := credit units (pa_mirror p), pa_settled_units := pa_settled_units p + units,
             pa_unvalidated := pa_unvalidated p @ [(now, units)], pa_last_cheque := Some now,
             pa_rate := rate_or_default (eo_rate r)\<rparr>,
           count_cheque r (sh\<lparr>sh_spend := s\<rparr>)))"

definition refresh :: "u64 option \<Rightarrow> nat \<Rightarrow> pacer \<times> shared \<Rightarrow> pacer \<times> shared" where
  "refresh accepted now ps =
     (case ps of (p, sh) \<Rightarrow>
      let debt = sat_sub (mi_balance (pa_mirror p)) (pa_prepaid p);
          (p1, sh1) =
            (if 0 < debt then
               case accepted of
                 Some n \<Rightarrow>
                   if 0 < n then
                     (p\<lparr>pa_mirror := credit n (pa_mirror p), pa_settled_units := pa_settled_units p + n\<rparr>,
                      sh\<lparr>sh_refresh_units := sh_refresh_units sh + n\<rparr>)
                   else (p, sh)
               | None \<Rightarrow> (p, sh)
             else (p, sh))
      in (p1\<lparr>pa_last_refresh := Some now\<rparr>, sh1))"

section \<open>Drive loop\<close>

type_synonym task = "swarm_address \<times> u64"
type_synonym net_outcome = "bytes option \<times> put_fault \<times> flush_fault"

record drive_state =
  dv_pacer :: pacer
  dv_tasks :: "task list"
  dv_unreaped :: nat
  dv_pending :: "swarm_address option"
  dv_spend_stop :: bool
  dv_bucket_drained :: bool
  dv_finishing :: bool
  dv_sweep_attempts :: nat
  dv_shared :: shared

definition tasks_len :: "drive_state \<Rightarrow> nat" where
  "tasks_len st = length (dv_tasks st) + dv_unreaped st"

definition send_fallback :: "swarm_address \<Rightarrow> shared \<Rightarrow> shared" where
  "send_fallback addr sh = sh\<lparr>sh_fallback := sh_fallback sh @ [addr]\<rparr>"

definition finish_task :: "(bytes \<Rightarrow> string) \<Rightarrow> (swarm_address \<Rightarrow> net_outcome) \<Rightarrow> nat \<Rightarrow> drive_state \<Rightarrow> drive_state" where
  "finish_task henc net i st =
     (if i < length (dv_tasks st) then
        let (addr, price) = dv_tasks st ! i;
            p = dv_pacer st; sh = dv_shared st;
            tasks' = take i (dv_tasks st) @ drop (Suc i) (dv_tasks st)
        in case net addr of
             (Some data, pf, ff) \<Rightarrow>
               st\<lparr>dv_tasks := tasks', dv_unreaped := dv_unreaped st + 1,
                  dv_pacer := p\<lparr>pa_mirror := apply_price price (pa_mirror p)\<rparr>,
                  dv_shared := sh\<lparr>sh_store := snd (store_put pf ff henc addr data (sh_store sh)),
                    sh_direct_bytes := sh_direct_bytes sh + of_nat (length data),
                    sh_direct_ok := sh_direct_ok sh + 1\<rparr>\<rparr>
           | (None, _, _) \<Rightarrow>
               st\<lparr>dv_tasks := tasks', dv_unreaped := dv_unreaped st + 1,
                  dv_pacer := p\<lparr>pa_mirror := release price (pa_mirror p)\<rparr>,
                  dv_shared := send_fallback addr sh\<rparr>
      else st)"

definition finish_tasks ::
  "(bytes \<Rightarrow> string) \<Rightarrow> (swarm_address \<Rightarrow> net_outcome) \<Rightarrow> nat list \<Rightarrow> drive_state \<Rightarrow> drive_state" where
  "finish_tasks henc net is st = fold (finish_task henc net) is st"

definition take_pending :: "drive_state \<Rightarrow> drive_state" where
  "take_pending st =
     (case dv_pending st of
        None \<Rightarrow> st
      | Some addr \<Rightarrow> st\<lparr>dv_pending := None, dv_shared := send_fallback addr (dv_shared st)\<rparr>)"

definition drive_residual :: "drive_state \<Rightarrow> u64" where
  "drive_residual st = sat_sub (mi_balance (pa_mirror (dv_pacer st))) (pa_prepaid (dv_pacer st))"

definition spend_check :: "conn_args \<Rightarrow> drive_state \<Rightarrow> drive_state" where
  "spend_check a st =
     (if dv_spend_stop st then st
      else
        let m = pa_mirror (dv_pacer st);
            unpaid = sat_sub (mi_balance m + mi_reserved m) (pa_prepaid (dv_pacer st));
            projected = (ucast (sp_issued (sh_spend (dv_shared st))) :: u128) + ucast unpaid * ucast (pa_rate (dv_pacer st))
        in if ucast (ca_max_issue_plur a) * 92 div 100 < projected then st\<lparr>dv_spend_stop := True\<rparr> else st)"

definition next_chunk :: "conn_args \<Rightarrow> drive_state \<Rightarrow> swarm_address option \<times> drive_state" where
  "next_chunk a st =
     (case dv_pending st of
        Some addr \<Rightarrow> (Some addr, st\<lparr>dv_pending := None\<rparr>)
      | None \<Rightarrow>
          (case pool_pop (ca_prefix a) (sh_pool (dv_shared st)) of
             (r, b) \<Rightarrow> (r, st\<lparr>dv_shared := (dv_shared st)\<lparr>sh_pool := b\<rparr>\<rparr>)))"

definition work_left :: "conn_args \<Rightarrow> drive_state \<Rightarrow> nat" where
  "work_left a st = remaining (sh_pool (dv_shared st)) (ca_prefix a) + (if dv_pending st = None then 0 else 1)"

lemma next_chunk_less:
  assumes "next_chunk a st = (Some addr, st')"
  shows "work_left a st' < work_left a st"
proof (cases "dv_pending st")
  case None
  obtain r b where pop: "pool_pop (ca_prefix a) (sh_pool (dv_shared st)) = (r, b)" by force
  with assms None have "r = Some addr" "st' = st\<lparr>dv_shared := (dv_shared st)\<lparr>sh_pool := b\<rparr>\<rparr>"
    by (auto simp: next_chunk_def)
  with pop None show ?thesis
    by (auto simp: work_left_def pool_pop_def remaining_def hm_get_insert split: option.splits if_splits)
qed (use assms in \<open>auto simp: next_chunk_def work_left_def\<close>)

function admit_loop ::
  "(swarm_address \<Rightarrow> swarm_address \<Rightarrow> u64) \<Rightarrow> conn_args \<Rightarrow> nat \<Rightarrow> drive_state \<Rightarrow> drive_state" where
  "admit_loop peer_price a now st =
     (if ca_pipeline a \<le> tasks_len st then st
      else case next_chunk a st of
        (None, st1) \<Rightarrow> st1\<lparr>dv_bucket_drained := True\<rparr>
      | (Some addr, st1) \<Rightarrow>
          if store_contains addr (fst (sh_store (dv_shared st1))) then admit_loop peer_price a now st1
          else
            let price = peer_price (ca_overlay a) addr;
                p1 = (dv_pacer st1)\<lparr>pa_avg_price := max price 1\<rparr>;
                (ok, p2) = admit now price p1;
                st2 = st1\<lparr>dv_pacer := p2\<rparr>
            in if \<not> ok then st2\<lparr>dv_pending := Some addr\<rparr>
               else admit_loop peer_price a now (st2\<lparr>dv_tasks := dv_tasks st2 @ [(addr, price)]\<rparr>))"
  by pat_completeness auto
termination
proof (relation "measure (\<lambda>(_, a, _, st). work_left a st)")
  show "wf (measure (\<lambda>(_, a, _, st). work_left a st))" by simp
qed (auto dest!: next_chunk_less [OF sym] simp: work_left_def)

declare admit_loop.simps [simp del]

record drive_input =
  in_now :: nat
  in_alive :: bool
  in_wind_down :: bool
  in_net :: "swarm_address \<Rightarrow> net_outcome"
  in_done_admitted :: "nat list"
  in_refresh :: "u64 option"
  in_done_refreshed :: "nat list"
  in_env :: emit_env
  in_done_emitted :: "nat list"

definition due :: "nat \<Rightarrow> nat \<Rightarrow> nat option \<Rightarrow> bool" where
  "due now interval at = (case at of None \<Rightarrow> True | Some t \<Rightarrow> interval \<le> now - t)"

definition drive_refresh :: "(bytes \<Rightarrow> string) \<Rightarrow> drive_input \<Rightarrow> drive_state \<Rightarrow> drive_state" where
  "drive_refresh henc inp st =
     (if due (in_now inp) REFRESH_MIN_INTERVAL (pa_last_refresh (dv_pacer st)) then
        (case refresh (in_refresh inp) (in_now inp) (dv_pacer st, dv_shared st) of
           (p, sh) \<Rightarrow> finish_tasks henc (in_net inp) (in_done_refreshed inp) (st\<lparr>dv_pacer := p, dv_shared := sh\<rparr>))
      else st)"

definition prepay_target :: "conn_args \<Rightarrow> drive_state \<Rightarrow> u64" where
  "prepay_target a st =
     (let p = dv_pacer st;
          slice = sat_mul (pa_avg_price p) 250;
          left = of_nat (remaining (sh_pool (dv_shared st)) (ca_prefix a) + tasks_len st
                   + (if dv_pending st = None then 0 else 1)) * pa_avg_price p
      in mi_balance (pa_mirror p) + min left slice)"

definition drive_prepay ::
  "cheque_tools \<Rightarrow> (bytes \<Rightarrow> string) \<Rightarrow> conn_args \<Rightarrow> drive_input \<Rightarrow> drive_state \<Rightarrow> drive_state" where
  "drive_prepay tools henc a inp st =
     (let p = dv_pacer st; desired = prepay_target a st in
      if due (in_now inp) CHEQUE_MIN_INTERVAL (pa_last_cheque p)
         \<and> pa_prepaid p + sat_mul (pa_avg_price p) 10 < desired then
        (case emit_prepay tools a (in_env inp) (in_now inp) (desired - pa_prepaid p) (p, dv_shared st) of
           (_, p1, sh1) \<Rightarrow> finish_tasks henc (in_net inp) (in_done_emitted inp) (st\<lparr>dv_pacer := p1, dv_shared := sh1\<rparr>))
      else st)"

definition drive_cheque ::
  "cheque_tools \<Rightarrow> (bytes \<Rightarrow> string) \<Rightarrow> conn_args \<Rightarrow> drive_input \<Rightarrow> bool \<Rightarrow> drive_state \<Rightarrow> u64 option \<times> drive_state" where
  "drive_cheque tools henc a inp halted st =
     (let unpaid = drive_residual st;
          cheque_due = due (in_now inp) CHEQUE_MIN_INTERVAL (pa_last_cheque (dv_pacer st));
          want = (if dv_finishing st \<or> halted then 0 < unpaid \<and> cheque_due
                  else threshold (dv_pacer st) div 5 \<le> unpaid \<and> cheque_due)
      in if \<not> want then (None, st)
         else case emit tools a (in_env inp) (in_now inp) unpaid (dv_pacer st, dv_shared st) of
           (r, p1, sh1) \<Rightarrow>
             let st1 = finish_tasks henc (in_net inp) (in_done_emitted inp) (st\<lparr>dv_pacer := p1, dv_shared := sh1\<rparr>)
             in case r of
                  Inr _ \<Rightarrow> (None, st1)
                | Inl err \<Rightarrow>
                    if dv_finishing st1 then
                      let st2 = st1\<lparr>dv_sweep_attempts := dv_sweep_attempts st1 + 1\<rparr>
                      in if 3 \<le> dv_sweep_attempts st2 then (Some (drive_residual st2), st2) else (None, st2)
                    else (None, st1))"

definition drive_transition :: "bool \<Rightarrow> drive_state \<Rightarrow> u64 option \<times> drive_state" where
  "drive_transition halted st =
     (let st1 = (if \<not> dv_finishing st \<and> dv_pending st = None \<and> tasks_len st = 0 \<and> (dv_bucket_drained st \<or> halted)
                 then st\<lparr>dv_finishing := True\<rparr> else st)
      in if dv_finishing st1 \<and> tasks_len st1 = 0 \<and> drive_residual st1 = 0 then (Some 0, st1) else (None, st1))"

definition drive_iter ::
  "cheque_tools \<Rightarrow> (bytes \<Rightarrow> string) \<Rightarrow> (swarm_address \<Rightarrow> swarm_address \<Rightarrow> u64) \<Rightarrow> conn_args \<Rightarrow>
   drive_input \<Rightarrow> drive_state \<Rightarrow> u64 option \<times> drive_state" where
  "drive_iter tools henc peer_price a inp st0 =
     (if \<not> in_alive inp then
        let st1 = finish_tasks henc (in_net inp) (replicate (length (dv_tasks st0)) 0) st0;
            st2 = take_pending (st1\<lparr>dv_unreaped := 0\<rparr>)
        in (Some (drive_residual st2), st2)
      else
        let st1 = spend_check a st0;
            halted = (dv_spend_stop st1 \<or> in_wind_down inp);
            st2 = (if halted then take_pending st1 else st1);
            st3 = (if dv_finishing st2 \<or> halted then st2 else admit_loop peer_price a (in_now inp) st2);
            st4 = (finish_tasks henc (in_net inp) (in_done_admitted inp) st3)\<lparr>dv_unreaped := 0\<rparr>;
            st5 = drive_refresh henc inp st4
        in if ca_prepay a \<and> \<not> dv_finishing st5 \<and> \<not> halted
           then drive_transition halted (drive_prepay tools henc a inp st5)
           else case drive_cheque tools henc a inp halted st5 of
                  (Some r, st6) \<Rightarrow> (Some r, st6)
                | (None, st6) \<Rightarrow> drive_transition halted st6)"

section \<open>Exposure\<close>

lemma scaled_threshold_bound: "unat (sat_mul (t :: u64) 105 div 100) \<le> 2 ^ 58"
  "unat (sat_mul (t :: u64) 105 div 100) \<le> unat t * 105 div 100"
  by (simp_all add: unat_div unat_sat_mul)

lemma admit_limit_nat:
  assumes "unat (pa_prepaid p) < 2 ^ 63"
  shows "unat (admit_limit p unval) = unat (pa_prepaid p) + unat (sat_mul (threshold p) 105 div 100) - unat unval"
    "unat (admit_limit p unval) \<le> 2 ^ 64 - 2"
proof -
  have "unat (pa_prepaid p + sat_mul (threshold p) 105 div 100)
      = unat (pa_prepaid p) + unat (sat_mul (threshold p) 105 div 100)"
    using assms scaled_threshold_bound(1) [of "threshold p"] by (intro unat_add_no_overflow) simp
  then show "unat (admit_limit p unval) = unat (pa_prepaid p) + unat (sat_mul (threshold p) 105 div 100) - unat unval"
    by (simp add: admit_limit_def unat_sat_sub)
  then show "unat (admit_limit p unval) \<le> 2 ^ 64 - 2"
    using assms scaled_threshold_bound(1) [of "threshold p"] by simp
qed

lemma unvalidated_sum_fields:
  assumes "unvalidated_sum now p = (u, p1)"
  shows "pa_mirror p1 = pa_mirror p" "pa_prepaid p1 = pa_prepaid p" "threshold p1 = threshold p"
    "pa_unvalidated p1 = dropWhile (\<lambda>(at, _). window p < now - at) (pa_unvalidated p)"
    "u = sum_list (map snd (pa_unvalidated p1))"
  using assms by (auto simp: unvalidated_sum_def Let_def threshold_def)

lemma admit_cases:
  assumes "admit now price p = (ok, p')" "unat (pa_prepaid p) < 2 ^ 63"
  shows "pa_prepaid p' = pa_prepaid p" "threshold p' = threshold p"
    "\<exists>l. unat l \<le> 2 ^ 64 - 2 \<and> try_reserve price l (pa_mirror p) = (ok, pa_mirror p') \<and>
       unat l = unat (pa_prepaid p) + unat (sat_mul (threshold p) 105 div 100) - unat (sum_list (map snd (pa_unvalidated p')))"
proof -
  obtain u p1 where u: "unvalidated_sum now p = (u, p1)" by force
  note f = unvalidated_sum_fields [OF u]
  obtain m where m: "try_reserve price (admit_limit p1 u) (pa_mirror p1) = (ok, m)" "p' = p1\<lparr>pa_mirror := m\<rparr>"
    using assms(1) u by (auto simp: admit_def Let_def split: prod.splits)
  then show "pa_prepaid p' = pa_prepaid p" "threshold p' = threshold p"
    using f by (simp_all add: threshold_def)
  show "\<exists>l. unat l \<le> 2 ^ 64 - 2 \<and> try_reserve price l (pa_mirror p) = (ok, pa_mirror p') \<and>
       unat l = unat (pa_prepaid p) + unat (sat_mul (threshold p) 105 div 100) - unat (sum_list (map snd (pa_unvalidated p')))"
    using admit_limit_nat [of p1 u] assms(2) m f by (intro exI [of _ "admit_limit p1 u"]) simp
qed

end
