(* ===== verification/Drive.thy ===== *)
theory Drive
  imports Pacer
begin

text \<open>
  Correctness of the connection's drive loop: reservations always match the tasks in flight, no
  chunk taken from the pool is lost while the store accepts writes, the residual a pass returns is
  the unsettled debt, and the final sweep ends after at most three failed cheques.
\<close>

section \<open>Invariants\<close>

definition drive_ok :: "drive_state \<Rightarrow> bool" where
  "drive_ok st \<longleftrightarrow>
     account.ok (2 ^ 64 - 2) (pa_mirror (dv_pacer st)) (mset (map snd (dv_tasks st)))
     \<and> hm_wf (sh_pool (dv_shared st))
     \<and> (dv_finishing st \<longrightarrow> dv_tasks st = [] \<and> dv_pending st = None)"

definition kept :: "swarm_address \<Rightarrow> drive_state \<Rightarrow> bool" where
  "kept x st \<longleftrightarrow> x \<in> fst ` set (dv_tasks st) \<or> dv_pending st = Some x \<or> x \<in># pool_chunks (sh_pool (dv_shared st))
     \<or> x \<in> set (sh_fallback (dv_shared st)) \<or> store_contains x (fst (sh_store (dv_shared st)))"

definition puts_ok :: "(swarm_address \<Rightarrow> net_outcome) \<Rightarrow> bool" where
  "puts_ok net \<longleftrightarrow> (\<forall>x data pf ff. net x = (Some data, pf, ff) \<longrightarrow> pf = PutOk \<and> length data < 2 ^ 32)"

lemma mset_remove_nth: "i < length xs \<Longrightarrow> mset (take i xs @ drop (Suc i) xs) = mset xs - {#xs ! i#}"
  by (metis add_mset_remove_trivial id_take_nth_drop mset.simps(2) mset_append union_mset_add_mset_right)

lemma store_put_contains_mono:
  "store_contains x (fst gd) \<Longrightarrow> store_contains x (fst (snd (store_put f ff h addr w gd)))"
proof -
  have "si_index (fst (snd (flush_locked ff h gd))) = si_index (fst gd)" for gd
    using flush_locked_frame [of ff h "fst gd" "snd gd"] by (metis prod.collapse)
  then show "store_contains x (fst gd) \<Longrightarrow> store_contains x (fst (snd (store_put f ff h addr w gd)))"
    by (cases gd) (auto simp: store_put_def store_contains_def Let_def hm_get_insert
        split: put_fault.split option.split)
qed

lemma store_put_contains:
  assumes "length w < 2 ^ 32"
  shows "store_contains addr (fst (snd (store_put PutOk ff h addr w gd)))"
proof (cases "store_contains addr (fst gd)")
  case True
  then show ?thesis by (rule store_put_contains_mono)
next
  case False
  have fl: "si_index (fst (snd (flush_locked ff h gd))) = si_index (fst gd)" for gd
    using flush_locked_frame [of ff h "fst gd" "snd gd"] by (metis prod.collapse)
  obtain g d where gd: "gd = (g, d)" by force
  with False have new: "hm_get (si_index g) addr = None"
    by (cases "hm_get (si_index g) addr") (auto simp: store_contains_def)
  show ?thesis
    unfolding gd store_put_new [OF new assms]
    by (simp add: store_contains_def fl) (simp add: append_chunk_def hm_get_insert)
qed

section \<open>Tasks\<close>

lemma finish_task_frame:
  "dv_pending (finish_task h net i st) = dv_pending st"
  "dv_finishing (finish_task h net i st) = dv_finishing st"
  "dv_spend_stop (finish_task h net i st) = dv_spend_stop st"
  "dv_sweep_attempts (finish_task h net i st) = dv_sweep_attempts st"
  "sh_pool (dv_shared (finish_task h net i st)) = sh_pool (dv_shared st)"
  "pa_prepaid (dv_pacer (finish_task h net i st)) = pa_prepaid (dv_pacer st)"
  "pa_last_cheque (dv_pacer (finish_task h net i st)) = pa_last_cheque (dv_pacer st)"
  "length (dv_tasks (finish_task h net i st)) = length (dv_tasks st) - (if i < length (dv_tasks st) then 1 else 0)"
  by (simp_all add: finish_task_def Let_def send_fallback_def split: prod.split option.split)

lemma finish_task_ok:
  assumes "drive_ok st"
  shows "drive_ok (finish_task h net i st)"
proof (cases "i < length (dv_tasks st)")
  case True
  obtain addr price where t: "dv_tasks st ! i = (addr, price)" by force
  have mem: "price \<in># mset (map snd (dv_tasks st))"
    using True t by (metis in_set_conv_nth length_map nth_map set_mset_mset snd_conv)
  have ms: "mset (map snd (take i (dv_tasks st) @ drop (Suc i) (dv_tasks st))) = mset (map snd (dv_tasks st)) - {#price#}"
    using mset_remove_nth [of i "map snd (dv_tasks st)"] True t by (simp add: take_map drop_map)
  have ok: "account.ok (2 ^ 64 - 2) (pa_mirror (dv_pacer st)) (mset (map snd (dv_tasks st)))"
    using assms by (simp add: drive_ok_def)
  show ?thesis
    using assms True account.ok_commit [OF ok mem] account.ok_drop_held [OF ok mem]
    unfolding drive_ok_def finish_task_def ms [symmetric]
    by (auto simp: t Let_def send_fallback_def split: prod.split option.split)
qed (use assms in \<open>simp add: finish_task_def\<close>)

lemma finish_task_kept:
  assumes "kept x st" "puts_ok net"
  shows "kept x (finish_task h net i st)"
proof (cases "i < length (dv_tasks st)")
  case True
  obtain addr price where t: "dv_tasks st ! i = (addr, price)" by force
  have tasks: "fst ` set (dv_tasks st) \<subseteq> insert addr (fst ` set (take i (dv_tasks st) @ drop (Suc i) (dv_tasks st)))"
    using id_take_nth_drop [OF True] t by (metis (no_types, lifting) fst_conv image_insert list.simps(15)
        list.set(2) set_append Un_insert_right subset_refl image_mono)
  obtain r pf ff where net: "net addr = (r, pf, ff)" by (metis prod.exhaust)
  show ?thesis
  proof (cases r)
    case None
    then show ?thesis
      using assms(1) True t net tasks
      by (auto simp: kept_def finish_task_def send_fallback_def Let_def)
  next
    case (Some data)
    then have "pf = PutOk" "length data < 2 ^ 32" using assms(2) net by (auto simp: puts_ok_def)
    then have "store_contains addr (fst (snd (store_put pf ff h addr data (sh_store (dv_shared st)))))"
      using store_put_contains by simp
    then show ?thesis
      using assms(1) True t net tasks Some
        store_put_contains_mono [of x "sh_store (dv_shared st)" pf ff h addr data]
      by (auto simp: kept_def finish_task_def Let_def)
  qed
qed (use assms in \<open>simp add: finish_task_def\<close>)

lemma finish_tasks_frame:
  "dv_pending (finish_tasks h net is st) = dv_pending st"
  "dv_finishing (finish_tasks h net is st) = dv_finishing st"
  "dv_spend_stop (finish_tasks h net is st) = dv_spend_stop st"
  "dv_sweep_attempts (finish_tasks h net is st) = dv_sweep_attempts st"
  "sh_pool (dv_shared (finish_tasks h net is st)) = sh_pool (dv_shared st)"
  "pa_prepaid (dv_pacer (finish_tasks h net is st)) = pa_prepaid (dv_pacer st)"
  "pa_last_cheque (dv_pacer (finish_tasks h net is st)) = pa_last_cheque (dv_pacer st)"
  by (induction "is" arbitrary: st) (simp_all add: finish_tasks_def finish_task_frame)

lemma finish_tasks_ok: "drive_ok st \<Longrightarrow> drive_ok (finish_tasks h net is st)"
  by (induction "is" arbitrary: st) (simp_all add: finish_tasks_def finish_task_ok)

lemma finish_tasks_kept: "kept x st \<Longrightarrow> puts_ok net \<Longrightarrow> kept x (finish_tasks h net is st)"
  by (induction "is" arbitrary: st) (simp_all add: finish_tasks_def finish_task_kept)

lemma finish_tasks_none: "dv_tasks st = [] \<Longrightarrow> finish_tasks h net is st = st"
  by (induction "is" arbitrary: st) (simp_all add: finish_tasks_def finish_task_def)

lemma finish_tasks_all: "dv_tasks (finish_tasks h net (replicate (length (dv_tasks st)) 0) st) = []"
proof (induction "length (dv_tasks st)" arbitrary: st)
  case (Suc n)
  then have "length (dv_tasks (finish_task h net 0 st)) = n"
    using Suc(2) [symmetric] by (simp add: finish_task_frame(8))
  with Suc(1) [of "finish_task h net 0 st"] Suc(2) show ?case
    by (metis (no_types, lifting) fold_simps(2) finish_tasks_def replicate_Suc)
qed (simp add: finish_tasks_def)

section \<open>Admission\<close>

lemma next_chunk_Some:
  assumes "next_chunk a st = (Some addr, st')" "hm_wf (sh_pool (dv_shared st))"
  shows "dv_tasks st' = dv_tasks st" "dv_pending st' = None" "dv_pacer st' = dv_pacer st"
    "dv_finishing st' = dv_finishing st" "hm_wf (sh_pool (dv_shared st'))"
    "dv_spend_stop st' = dv_spend_stop st" "dv_sweep_attempts st' = dv_sweep_attempts st"
    "sh_store (dv_shared st') = sh_store (dv_shared st)" "kept x st \<Longrightarrow> kept x st' \<or> x = addr"
proof -
  have "dv_tasks st' = dv_tasks st \<and> dv_pending st' = None \<and> dv_pacer st' = dv_pacer st
    \<and> dv_finishing st' = dv_finishing st \<and> hm_wf (sh_pool (dv_shared st'))
    \<and> dv_spend_stop st' = dv_spend_stop st \<and> dv_sweep_attempts st' = dv_sweep_attempts st
    \<and> sh_store (dv_shared st') = sh_store (dv_shared st) \<and> (kept x st \<longrightarrow> kept x st' \<or> x = addr)"
  proof (cases "dv_pending st")
    case None
    obtain r b where pop: "pool_pop (ca_prefix a) (sh_pool (dv_shared st)) = (r, b)" by force
    with assms(1) None have r: "r = Some addr" "st' = st\<lparr>dv_shared := (dv_shared st)\<lparr>sh_pool := b\<rparr>\<rparr>"
      by (auto simp: next_chunk_def)
    with pool_pop_Some(1,2) [of "ca_prefix a" "sh_pool (dv_shared st)" addr b] pop assms(2) None show ?thesis
      by (auto simp: kept_def)
  qed (use assms in \<open>auto simp: next_chunk_def kept_def\<close>)
  then show "dv_tasks st' = dv_tasks st" "dv_pending st' = None" "dv_pacer st' = dv_pacer st"
    "dv_finishing st' = dv_finishing st" "hm_wf (sh_pool (dv_shared st'))"
    "dv_spend_stop st' = dv_spend_stop st" "dv_sweep_attempts st' = dv_sweep_attempts st"
    "sh_store (dv_shared st') = sh_store (dv_shared st)" "kept x st \<Longrightarrow> kept x st' \<or> x = addr"
    by simp_all
qed

lemma next_chunk_fields:
  assumes "next_chunk a st = (Some addr, st1)"
  shows "dv_tasks st1 = dv_tasks st" "dv_unreaped st1 = dv_unreaped st" "dv_pending st1 = None"
    "dv_pacer st1 = dv_pacer st" "dv_finishing st1 = dv_finishing st" "dv_sweep_attempts st1 = dv_sweep_attempts st"
    "dv_spend_stop st1 = dv_spend_stop st" "Suc (work_left a st1) \<le> work_left a st"
  using assms next_chunk_less [OF assms] by (auto simp: next_chunk_def split: option.splits prod.splits)

lemma next_chunk_None: "next_chunk a st = (None, st') \<Longrightarrow> st' = st \<and> dv_pending st = None"
  by (auto simp: next_chunk_def dest!: pool_pop_None split: option.splits prod.splits)

text \<open>
  The ways the admission loop goes: the pipeline is full, the bucket is empty, a stored chunk is
  skipped, a chunk is admitted, a chunk is refused and left pending.
\<close>

lemma admit_loop_rule [case_names full drained skipped admitted refused]:
  assumes full: "\<And>st. ca_pipeline a \<le> tasks_len st \<Longrightarrow> P st st"
    and drained: "\<And>st. tasks_len st < ca_pipeline a \<Longrightarrow> next_chunk a st = (None, st) \<Longrightarrow> P st (st\<lparr>dv_bucket_drained := True\<rparr>)"
    and skipped: "\<And>st st1 addr st'. tasks_len st < ca_pipeline a \<Longrightarrow> next_chunk a st = (Some addr, st1) \<Longrightarrow>
        store_contains addr (fst (sh_store (dv_shared st1))) \<Longrightarrow> P st1 st' \<Longrightarrow> P st st'"
    and admitted: "\<And>st st1 addr p st'. tasks_len st < ca_pipeline a \<Longrightarrow> next_chunk a st = (Some addr, st1) \<Longrightarrow>
        admit now (pp (ca_overlay a) addr) ((dv_pacer st1)\<lparr>pa_avg_price := max (pp (ca_overlay a) addr) 1\<rparr>) = (True, p) \<Longrightarrow>
        P (st1\<lparr>dv_pacer := p, dv_tasks := dv_tasks st1 @ [(addr, pp (ca_overlay a) addr)]\<rparr>) st' \<Longrightarrow> P st st'"
    and refused: "\<And>st st1 addr p. tasks_len st < ca_pipeline a \<Longrightarrow> next_chunk a st = (Some addr, st1) \<Longrightarrow>
        admit now (pp (ca_overlay a) addr) ((dv_pacer st1)\<lparr>pa_avg_price := max (pp (ca_overlay a) addr) 1\<rparr>) = (False, p) \<Longrightarrow>
        P st (st1\<lparr>dv_pacer := p, dv_pending := Some addr\<rparr>)"
  shows "P st (admit_loop pp a now st)"
  using assms
proof (induction pp a now st rule: admit_loop.induct)
  case (1 pp a now st)
  obtain r st1 where nc: "next_chunk a st = (r, st1)" by force
  show ?case
  proof (cases "ca_pipeline a \<le> tasks_len st \<or> r = None")
    case True
    then show ?thesis
      using "1.prems"(1,2) [of st] nc next_chunk_None [of a st st1] by (subst admit_loop.simps) auto
  next
    case False
    then obtain addr where r: "r = Some addr" and room: "\<not> ca_pipeline a \<le> tasks_len st" by auto
    note nc' = nc [unfolded r]
    show ?thesis
    proof (cases "store_contains addr (fst (sh_store (dv_shared st1)))")
      case True
      then have "P st1 (admit_loop pp a now st1)" using "1.IH"(1) [OF room nc' [symmetric] refl True] "1.prems" by blast
      then have "P st (admit_loop pp a now st1)" using "1.prems"(3) [OF _ nc' True] room by simp
      then show ?thesis using nc' room True by (subst admit_loop.simps) simp
    next
      case new: False
      let ?price = "pp (ca_overlay a) addr"
      obtain ok p where ad: "admit now ?price ((dv_pacer st1)\<lparr>pa_avg_price := max ?price 1\<rparr>) = (ok, p)" by force
      let ?st2 = "st1\<lparr>dv_pacer := p, dv_tasks := dv_tasks st1 @ [(addr, ?price)]\<rparr>"
      show ?thesis
      proof (cases ok)
        case True
        then have "P ?st2 (admit_loop pp a now ?st2)"
          using "1.IH"(2) [OF room nc' [symmetric] refl new refl refl ad [symmetric] refl] "1.prems" by simp
        then have "P st (admit_loop pp a now ?st2)" using "1.prems"(4) [OF _ nc'] ad True room by simp
        then show ?thesis using nc' room new ad True by (subst admit_loop.simps) (simp add: Let_def)
      next
        case False
        then show ?thesis using "1.prems"(5) [OF _ nc'] nc' room new ad by (subst admit_loop.simps) (simp add: Let_def)
      qed
    qed
  qed
qed

lemma admit_loop_inv:
  assumes "drive_ok st" "unat (pa_prepaid (dv_pacer st)) < 2 ^ 63" "\<not> dv_finishing st"
  shows "drive_ok (admit_loop pp a now st) \<and> \<not> dv_finishing (admit_loop pp a now st)
    \<and> pa_prepaid (dv_pacer (admit_loop pp a now st)) = pa_prepaid (dv_pacer st)
    \<and> (kept x st \<longrightarrow> kept x (admit_loop pp a now st))"
proof -
  let ?ok = "\<lambda>st. drive_ok st \<and> unat (pa_prepaid (dv_pacer st)) < 2 ^ 63 \<and> \<not> dv_finishing st"
  let ?P = "\<lambda>st st'. ?ok st \<longrightarrow> ?ok st' \<and> pa_prepaid (dv_pacer st') = pa_prepaid (dv_pacer st) \<and> (kept x st \<longrightarrow> kept x st')"
  have "?P st (admit_loop pp a now st)"
  proof (induction rule: admit_loop_rule)
    case (skipped st st1 addr st')
    show ?case
    proof
      assume ok: "?ok st"
      then have "hm_wf (sh_pool (dv_shared st))" by (simp add: drive_ok_def)
      note n = next_chunk_Some [OF skipped.hyps(2) this]
      have "?ok st1" using ok n by (simp add: drive_ok_def)
      moreover have "kept x st \<longrightarrow> kept x st1" using n(9) [of x] skipped.hyps(3) by (auto simp: kept_def)
      ultimately show "?ok st' \<and> pa_prepaid (dv_pacer st') = pa_prepaid (dv_pacer st) \<and> (kept x st \<longrightarrow> kept x st')"
        using skipped.IH n(3) by simp
    qed
  next
    case (admitted st st1 addr p st')
    let ?price = "pp (ca_overlay a) addr"
    let ?st2 = "st1\<lparr>dv_pacer := p, dv_tasks := dv_tasks st1 @ [(addr, ?price)]\<rparr>"
    show ?case
    proof
      assume ok: "?ok st"
      then have "hm_wf (sh_pool (dv_shared st))" by (simp add: drive_ok_def)
      note n = next_chunk_Some [OF admitted.hyps(2) this]
      have pre: "unat (pa_prepaid ((dv_pacer st1)\<lparr>pa_avg_price := max ?price 1\<rparr>)) < 2 ^ 63" using ok n by simp
      obtain l where l: "unat l \<le> 2 ^ 64 - 2" "try_reserve ?price l (pa_mirror (dv_pacer st1)) = (True, pa_mirror p)"
        using admit_cases(3) [OF admitted.hyps(3) pre] by auto
      have prep: "pa_prepaid p = pa_prepaid (dv_pacer st)" using admit_cases(1) [OF admitted.hyps(3) pre] n by simp
      have acc: "account.ok (2 ^ 64 - 2) (pa_mirror (dv_pacer st1)) (mset (map snd (dv_tasks st1)))"
        using ok n by (simp add: drive_ok_def)
      have "account.ok (2 ^ 64 - 2) (pa_mirror p) (add_mset ?price (mset (map snd (dv_tasks st1))))"
        by (intro account.ok_reserve [OF acc l(2,1)]) simp_all
      then have "?ok ?st2" using ok n prep by (simp add: drive_ok_def)
      moreover have "kept x st \<longrightarrow> kept x ?st2" using n(9) [of x] by (auto simp: kept_def)
      ultimately show "?ok st' \<and> pa_prepaid (dv_pacer st') = pa_prepaid (dv_pacer st) \<and> (kept x st \<longrightarrow> kept x st')"
        using admitted.IH prep by simp
    qed
  next
    case (refused st st1 addr p)
    show ?case
    proof
      assume ok: "?ok st"
      then have "hm_wf (sh_pool (dv_shared st))" by (simp add: drive_ok_def)
      note n = next_chunk_Some [OF refused.hyps(2) this]
      have pre: "unat (pa_prepaid ((dv_pacer st1)\<lparr>pa_avg_price := max (pp (ca_overlay a) addr) 1\<rparr>)) < 2 ^ 63" using ok n by simp
      have "pa_mirror p = pa_mirror (dv_pacer st1)" "pa_prepaid p = pa_prepaid (dv_pacer st)"
        using admit_cases(1,3) [OF refused.hyps(3) pre] account.reserve_refused n by auto
      then show "?ok (st1\<lparr>dv_pacer := p, dv_pending := Some addr\<rparr>)
          \<and> pa_prepaid (dv_pacer (st1\<lparr>dv_pacer := p, dv_pending := Some addr\<rparr>)) = pa_prepaid (dv_pacer st)
          \<and> (kept x st \<longrightarrow> kept x (st1\<lparr>dv_pacer := p, dv_pending := Some addr\<rparr>))"
        using ok n(1-8) n(9) [of x] by (auto simp: drive_ok_def kept_def)
    qed
  qed (auto simp: drive_ok_def kept_def)
  then show ?thesis using assms by blast
qed

section \<open>Blocks of a pass\<close>

definition preserves :: "(swarm_address \<Rightarrow> net_outcome) \<Rightarrow> drive_state \<Rightarrow> drive_state \<Rightarrow> bool" where
  "preserves net st st' \<longleftrightarrow> (drive_ok st \<longrightarrow> drive_ok st') \<and> (puts_ok net \<longrightarrow> (\<forall>x. kept x st \<longrightarrow> kept x st'))
     \<and> dv_finishing st' = dv_finishing st"

lemma preserves_trans: "preserves net a b \<Longrightarrow> preserves net b c \<Longrightarrow> preserves net a c"
  by (simp add: preserves_def)

lemma preserves_refl [simp]: "preserves net a a"
  by (simp add: preserves_def)

lemma finish_tasks_preserves: "preserves net st (finish_tasks h net is st)"
  by (simp add: preserves_def finish_tasks_ok finish_tasks_kept finish_tasks_frame)

lemma spend_check_preserves: "preserves net st (spend_check a st)"
  by (simp add: preserves_def spend_check_def Let_def drive_ok_def kept_def)

lemma spend_check_pacer: "dv_pacer (spend_check a st) = dv_pacer st"
  by (simp add: spend_check_def Let_def)

lemma unreaped_preserves: "preserves net st (st\<lparr>dv_unreaped := n\<rparr>)"
  by (simp add: preserves_def drive_ok_def kept_def)

lemma take_pending_preserves: "preserves net st (take_pending st)"
  by (auto simp: preserves_def take_pending_def drive_ok_def kept_def send_fallback_def split: option.split)

lemma take_pending_fields:
  "dv_pending (take_pending st) = None" "dv_tasks (take_pending st) = dv_tasks st"
  "dv_pacer (take_pending st) = dv_pacer st"
  by (simp_all add: take_pending_def split: option.split)

definition same_work :: "shared \<Rightarrow> shared \<Rightarrow> bool" where
  "same_work sh sh' \<longleftrightarrow> sh_pool sh' = sh_pool sh \<and> sh_store sh' = sh_store sh \<and> sh_fallback sh' = sh_fallback sh"

lemma settled_preserves:
  assumes "same_work (dv_shared st) sh" "pa_mirror p = pa_mirror (dv_pacer st) \<or> pa_mirror p = credit n (pa_mirror (dv_pacer st))"
  shows "preserves net st (st\<lparr>dv_pacer := p, dv_shared := sh\<rparr>)"
  using assms account.ok_settle
  by (auto simp: preserves_def drive_ok_def kept_def same_work_def)

lemma emit_fields:
  assumes "emit tools a env now units (p, sh) = (r, p', sh')"
  shows "same_work sh sh'" "pa_prepaid p' = pa_prepaid p"
    "pa_mirror p' = (case r of Inr _ \<Rightarrow> credit units (pa_mirror p) | Inl _ \<Rightarrow> pa_mirror p)"
  using assms
  by (auto simp: emit_def same_work_def count_cheque_def split: prod.splits sum.splits)

lemma emit_prepay_fields:
  assumes "emit_prepay tools a env now units (p, sh) = (r, p', sh')"
  shows "same_work sh sh'" "pa_mirror p' = pa_mirror p"
    "pa_prepaid p' = (case r of Inr _ \<Rightarrow> pa_prepaid p + units | Inl _ \<Rightarrow> pa_prepaid p)"
  using assms
  by (auto simp: emit_prepay_def same_work_def count_cheque_def split: prod.splits sum.splits)

lemma refresh_fields:
  assumes "refresh acc now (p, sh) = (p', sh')"
  shows "same_work sh sh'" "pa_prepaid p' = pa_prepaid p"
    "pa_mirror p' = pa_mirror p \<or> pa_mirror p' = credit (the acc) (pa_mirror p)" "pa_last_cheque p' = pa_last_cheque p"
  using assms
  by (auto simp: refresh_def same_work_def Let_def split: prod.splits option.splits if_splits)

lemma drive_refresh_preserves: "preserves (in_net inp) st (drive_refresh h inp st)"
proof -
  obtain p sh where r: "refresh (in_refresh inp) (in_now inp) (dv_pacer st, dv_shared st) = (p, sh)" by force
  show ?thesis
    using refresh_fields [OF r] r
    by (auto simp: drive_refresh_def intro!: preserves_trans [OF settled_preserves finish_tasks_preserves])
qed

lemma drive_refresh_fields:
  "pa_last_cheque (dv_pacer (drive_refresh h inp st)) = pa_last_cheque (dv_pacer st)"
  "pa_prepaid (dv_pacer (drive_refresh h inp st)) = pa_prepaid (dv_pacer st)"
  "dv_finishing (drive_refresh h inp st) = dv_finishing st"
  "dv_sweep_attempts (drive_refresh h inp st) = dv_sweep_attempts st"
  using refresh_fields(2,4) [of "in_refresh inp" "in_now inp" "dv_pacer st" "dv_shared st"]
  by (auto simp: drive_refresh_def finish_tasks_frame split: prod.split)

lemma drive_prepay_preserves: "preserves (in_net inp) st (drive_prepay tools h a inp st)"
proof -
  obtain r p sh where e: "emit_prepay tools a (in_env inp) (in_now inp)
      (prepay_target a st - pa_prepaid (dv_pacer st)) (dv_pacer st, dv_shared st) = (r, p, sh)"
    by (metis prod.exhaust)
  show ?thesis
    using emit_prepay_fields [OF e] e
    by (auto simp: drive_prepay_def Let_def intro!: preserves_trans [OF settled_preserves finish_tasks_preserves])
qed

lemma drive_cheque_preserves:
  assumes "drive_cheque tools h a inp halted st = (r, st')"
  shows "preserves (in_net inp) st st'" "\<And>v. r = Some v \<Longrightarrow> dv_finishing st \<and> v = drive_residual st'"
proof -
  obtain e p sh where em: "emit tools a (in_env inp) (in_now inp) (drive_residual st) (dv_pacer st, dv_shared st) = (e, p, sh)"
    by (metis prod.exhaust)
  let ?st1 = "finish_tasks h (in_net inp) (in_done_emitted inp) (st\<lparr>dv_pacer := p, dv_shared := sh\<rparr>)"
  have p: "preserves (in_net inp) st ?st1"
    using emit_fields [OF em]
    by (intro preserves_trans [OF settled_preserves finish_tasks_preserves]) (auto split: sum.splits)
  have q: "preserves (in_net inp) ?st1 (?st1\<lparr>dv_sweep_attempts := n\<rparr>)" for n
    by (simp add: preserves_def drive_ok_def kept_def)
  have "st' = st \<or> st' = ?st1 \<or> (\<exists>n. st' = ?st1\<lparr>dv_sweep_attempts := n\<rparr>)"
    using assms em by (auto simp: drive_cheque_def Let_def split: if_splits sum.splits)
  then show "preserves (in_net inp) st st'" using p q preserves_trans [OF p q] by auto
  show "dv_finishing st \<and> v = drive_residual st'" if "r = Some v" for v
    using assms em that p by (auto simp: drive_cheque_def Let_def preserves_def split: if_splits sum.splits)
qed

lemma drive_transition_spec:
  assumes "drive_transition halted st = (r, st')" "drive_ok st"
  shows "drive_ok st'" "kept x st \<Longrightarrow> kept x st'"
    "\<And>v. r = Some v \<Longrightarrow> v = 0 \<and> drive_residual st' = 0 \<and> dv_tasks st' = [] \<and> dv_pending st' = None"
  using assms
  by (auto simp: drive_transition_def Let_def drive_ok_def kept_def tasks_len_def drive_residual_def split: if_splits)

lemma drive_ok_exit: "drive_ok st \<Longrightarrow> dv_tasks st = [] \<Longrightarrow> mi_reserved (pa_mirror (dv_pacer st)) = 0"
  by (simp add: drive_ok_def account.ok_def unat_eq_zero)

lemma drive_iter_spec:
  assumes it: "drive_iter tools h pp a inp st = (r, st')"
    and ok: "drive_ok st" and pre: "unat (pa_prepaid (dv_pacer st)) < 2 ^ 63"
  shows "drive_ok st'" "puts_ok (in_net inp) \<Longrightarrow> kept x st \<Longrightarrow> kept x st'"
    "\<And>v. r = Some v \<Longrightarrow> dv_tasks st' = [] \<and> dv_pending st' = None \<and> v = drive_residual st'"
proof -
  have "drive_ok st' \<and> (puts_ok (in_net inp) \<longrightarrow> kept x st \<longrightarrow> kept x st')
    \<and> (\<forall>v. r = Some v \<longrightarrow> dv_tasks st' = [] \<and> dv_pending st' = None \<and> v = drive_residual st')"
  proof (cases "in_alive inp")
    case False
    let ?st1 = "finish_tasks h (in_net inp) (replicate (length (dv_tasks st)) 0) st"
    have st': "st' = take_pending (?st1\<lparr>dv_unreaped := 0\<rparr>)" "r = Some (drive_residual st')"
      using it False by (auto simp: drive_iter_def Let_def)
    have "preserves (in_net inp) st st'"
      unfolding st'(1)
      by (rule preserves_trans [OF preserves_trans [OF finish_tasks_preserves unreaped_preserves] take_pending_preserves])
    then show ?thesis using ok st' by (auto simp: preserves_def take_pending_fields finish_tasks_all)
  next
    case True
    define st1 where "st1 = spend_check a st"
    define halted where "halted = (dv_spend_stop st1 \<or> in_wind_down inp)"
    define st2 where "st2 = (if halted then take_pending st1 else st1)"
    define st3 where "st3 = (if dv_finishing st2 \<or> halted then st2 else admit_loop pp a (in_now inp) st2)"
    define st4 where "st4 = (finish_tasks h (in_net inp) (in_done_admitted inp) st3)\<lparr>dv_unreaped := 0\<rparr>"
    define st5 where "st5 = drive_refresh h inp st4"
    have body: "drive_iter tools h pp a inp st =
        (if ca_prepay a \<and> \<not> dv_finishing st5 \<and> \<not> halted
         then drive_transition halted (drive_prepay tools h a inp st5)
         else case drive_cheque tools h a inp halted st5 of
                (Some r, st6) \<Rightarrow> (Some r, st6) | (None, st6) \<Rightarrow> drive_transition halted st6)"
      unfolding drive_iter_def Let_def st5_def st4_def st3_def st2_def halted_def st1_def
      by (simp only: True not_True_eq_False if_False)
    have p2: "preserves (in_net inp) st st2" "unat (pa_prepaid (dv_pacer st2)) < 2 ^ 63"
      using pre by (auto simp: st2_def st1_def spend_check_pacer take_pending_fields
          intro: preserves_trans [OF spend_check_preserves take_pending_preserves] spend_check_preserves)
    have ok2: "drive_ok st2" using p2 ok by (simp add: preserves_def)
    have "preserves (in_net inp) st2 st3"
      using admit_loop_inv [OF ok2 p2(2)] by (auto simp: st3_def preserves_def)
    moreover have "preserves (in_net inp) st3 st5"
      unfolding st5_def st4_def
      by (rule preserves_trans [OF preserves_trans [OF finish_tasks_preserves unreaped_preserves] drive_refresh_preserves])
    ultimately have p5: "preserves (in_net inp) st st5" using p2 by (metis preserves_trans)
    show ?thesis
    proof (cases "ca_prepay a \<and> \<not> dv_finishing st5 \<and> \<not> halted")
      case prep: True
      let ?st6 = "drive_prepay tools h a inp st5"
      have p6: "preserves (in_net inp) st ?st6" by (rule preserves_trans [OF p5 drive_prepay_preserves])
      have tr: "drive_transition halted ?st6 = (r, st')"
        using it prep by (simp add: body)
      show ?thesis using drive_transition_spec [OF tr] p6 ok by (auto simp: preserves_def)
    next
      case chq: False
      obtain r6 st6 where c: "drive_cheque tools h a inp halted st5 = (r6, st6)" by force
      have p6: "preserves (in_net inp) st st6"
        by (rule preserves_trans [OF p5 drive_cheque_preserves(1) [OF c]])
      have res: "(r, st') = (case r6 of Some v \<Rightarrow> (Some v, st6) | None \<Rightarrow> drive_transition halted st6)"
        using it chq c by (auto simp: body split: option.splits)
      show ?thesis
      proof (cases r6)
        case None
        with res have tr: "drive_transition halted st6 = (r, st')" by simp
        show ?thesis using drive_transition_spec [OF tr] p6 ok by (auto simp: preserves_def)
      next
        case (Some v)
        with drive_cheque_preserves(2) [OF c Some] res p6 p5 ok show ?thesis
          by (auto simp: preserves_def drive_ok_def)
      qed
    qed
  qed
  then show "drive_ok st'" "puts_ok (in_net inp) \<Longrightarrow> kept x st \<Longrightarrow> kept x st'"
    "\<And>v. r = Some v \<Longrightarrow> dv_tasks st' = [] \<and> dv_pending st' = None \<and> v = drive_residual st'"
    by auto
qed

section \<open>Runs\<close>

fun drive_run ::
  "cheque_tools \<Rightarrow> (bytes \<Rightarrow> string) \<Rightarrow> (swarm_address \<Rightarrow> swarm_address \<Rightarrow> u64) \<Rightarrow> conn_args \<Rightarrow>
   drive_input list \<Rightarrow> drive_state \<Rightarrow> u64 option \<times> drive_state" where
  "drive_run tools h pp a [] st = (None, st)"
| "drive_run tools h pp a (inp # inps) st =
     (case drive_iter tools h pp a inp st of
        (Some v, st1) \<Rightarrow> (Some v, st1)
      | (None, st1) \<Rightarrow> drive_run tools h pp a inps st1)"

fun prepaid_bounded ::
  "cheque_tools \<Rightarrow> (bytes \<Rightarrow> string) \<Rightarrow> (swarm_address \<Rightarrow> swarm_address \<Rightarrow> u64) \<Rightarrow> conn_args \<Rightarrow>
   drive_input list \<Rightarrow> drive_state \<Rightarrow> bool" where
  "prepaid_bounded tools h pp a [] st \<longleftrightarrow> True"
| "prepaid_bounded tools h pp a (inp # inps) st \<longleftrightarrow> unat (pa_prepaid (dv_pacer st)) < 2 ^ 63
     \<and> prepaid_bounded tools h pp a inps (snd (drive_iter tools h pp a inp st))"

lemma drive_run_spec:
  assumes "drive_run tools h pp a inps st = (r, st')" "drive_ok st" "prepaid_bounded tools h pp a inps st"
    and "list_all (puts_ok \<circ> in_net) inps"
  shows "drive_ok st' \<and> (kept x st \<longrightarrow> kept x st')
    \<and> (\<forall>v. r = Some v \<longrightarrow> dv_tasks st' = [] \<and> dv_pending st' = None \<and> v = drive_residual st')"
  using assms
proof (induction inps arbitrary: st)
  case (Cons inp inps)
  obtain r1 st1 where it: "drive_iter tools h pp a inp st = (r1, st1)" by force
  have pre: "unat (pa_prepaid (dv_pacer st)) < 2 ^ 63" using Cons.prems by simp
  note spec = drive_iter_spec [OF it Cons.prems(2) pre]
  have kept1: "kept x st \<longrightarrow> kept x st1" using spec(2) [of x] Cons.prems(4) by simp
  show ?case
  proof (cases r1)
    case None
    then show ?thesis using Cons.IH [of st1] Cons.prems it spec(1) kept1 by simp
  next
    case (Some v)
    then show ?thesis using Cons.prems(1) it spec(1) spec(3) [OF Some] kept1 by auto
  qed
qed auto

section \<open>The final sweep\<close>

lemma emit_settles_residual:
  assumes "emit tools a env now (drive_residual st) (dv_pacer st, sh) = (Inr u, p, sh')"
  shows "drive_residual (st\<lparr>dv_pacer := p, dv_shared := sh'\<rparr>) = 0"
proof -
  have "unat (drive_residual (st\<lparr>dv_pacer := p, dv_shared := sh'\<rparr>)) = 0"
    using emit_fields [OF assms] by (simp add: drive_residual_def credit_def unat_sat_sub)
  then show ?thesis by (simp only: unat_eq_zero)
qed

lemma emit_failed_fields:
  assumes "emit tools a env now units (p, sh) = (Inl e, p', sh')"
  shows "p' = p"
  using assms by (auto simp: emit_def split: prod.splits sum.splits)

definition sweeping :: "drive_state \<Rightarrow> bool" where
  "sweeping st \<longleftrightarrow> dv_finishing st \<and> tasks_len st = 0 \<and> dv_pending st = None"

lemma sweep_refresh:
  assumes "sweeping st"
  shows "sweeping (drive_refresh h inp st)"
  using assms
  by (auto simp: drive_refresh_def sweeping_def tasks_len_def finish_tasks_none split: prod.split)

definition cheque_open :: "drive_input \<Rightarrow> drive_state \<Rightarrow> bool" where
  "cheque_open inp st \<longleftrightarrow> due (in_now inp) CHEQUE_MIN_INTERVAL (pa_last_cheque (dv_pacer st))"

lemma cheque_open_cong: "pa_last_cheque (dv_pacer st') = pa_last_cheque (dv_pacer st) \<Longrightarrow> cheque_open inp st' = cheque_open inp st"
  by (simp add: cheque_open_def)

lemma sweep_cheque:
  assumes "sweeping st" "drive_cheque tools h a inp halted st = (r, st')"
  shows "r \<noteq> None \<or> drive_residual st' = 0 \<and> sweeping st' \<or>
    sweeping st' \<and> dv_sweep_attempts st' = (if cheque_open inp st then Suc else id) (dv_sweep_attempts st)
      \<and> (cheque_open inp st \<longrightarrow> dv_sweep_attempts st' < 3) \<and> pa_last_cheque (dv_pacer st') = pa_last_cheque (dv_pacer st)"
proof (cases "drive_residual st = 0 \<or> \<not> cheque_open inp st")
  case True
  then have "st' = st" using assms by (auto simp: drive_cheque_def Let_def sweeping_def cheque_open_def)
  then show ?thesis using True assms(1) by auto
next
  case False
  obtain e p sh where em: "emit tools a (in_env inp) (in_now inp) (drive_residual st) (dv_pacer st, dv_shared st) = (e, p, sh)"
    by (metis prod.exhaust)
  let ?st1 = "st\<lparr>dv_pacer := p, dv_shared := sh\<rparr>"
  have none: "finish_tasks h (in_net inp) (in_done_emitted inp) ?st1 = ?st1"
    using assms(1) by (intro finish_tasks_none) (simp add: sweeping_def tasks_len_def)
  have sw: "sweeping ?st1" using assms(1) by (simp add: sweeping_def tasks_len_def)
  have pos: "0 < drive_residual st" "due (in_now inp) CHEQUE_MIN_INTERVAL (pa_last_cheque (dv_pacer st))" "cheque_open inp st"
    using False by (simp_all add: word_gt_0 cheque_open_def)
  show ?thesis
  proof (cases e)
    case (Inr u)
    then have "st' = ?st1" using assms pos em none by (simp add: drive_cheque_def Let_def sweeping_def)
    then show ?thesis using sw emit_settles_residual [OF em [unfolded Inr]] by simp
  next
    case (Inl err)
    then have "p = dv_pacer st" using emit_failed_fields em by blast
    then show ?thesis
      using assms pos em none Inl sw
      by (auto simp: drive_cheque_def Let_def sweeping_def tasks_len_def split: if_splits)
  qed
qed

lemma sweep_transition:
  assumes "sweeping st"
  shows "drive_transition halted st = (if drive_residual st = 0 then (Some 0, st) else (None, st))"
  using assms by (simp add: drive_transition_def sweeping_def Let_def)

lemma sweep_iter:
  assumes sw: "sweeping st" and alive: "in_alive inp"
    and it: "drive_iter tools h pp a inp st = (r, st')"
  shows "r \<noteq> None \<or> sweeping st' \<and> dv_sweep_attempts st' = (if cheque_open inp st then Suc else id) (dv_sweep_attempts st)
    \<and> (cheque_open inp st \<longrightarrow> dv_sweep_attempts st' < 3) \<and> pa_last_cheque (dv_pacer st') = pa_last_cheque (dv_pacer st)"
proof -
  define st1 where "st1 = spend_check a st"
  define halted where "halted = (dv_spend_stop st1 \<or> in_wind_down inp)"
  define st5 where "st5 = drive_refresh h inp (st1\<lparr>dv_unreaped := 0\<rparr>)"
  have sw1: "sweeping st1" "pa_last_cheque (dv_pacer st1) = pa_last_cheque (dv_pacer st)"
    "dv_sweep_attempts st1 = dv_sweep_attempts st"
    using sw by (simp_all add: st1_def spend_check_def Let_def sweeping_def tasks_len_def)
  then have tp: "(if b then take_pending st1 else st1) = st1" and ft: "finish_tasks h net is st1 = st1" and fin: "dv_finishing st1" for b net "is"
    by (simp_all add: take_pending_def sweeping_def tasks_len_def finish_tasks_none)
  have sw5: "sweeping st5"
    unfolding st5_def using sw1(1) by (intro sweep_refresh) (simp add: sweeping_def tasks_len_def)
  have f5: "pa_last_cheque (dv_pacer st5) = pa_last_cheque (dv_pacer st)" "dv_sweep_attempts st5 = dv_sweep_attempts st"
    using sw1 by (simp_all add: st5_def drive_refresh_fields)
  obtain r6 st6 where c: "drive_cheque tools h a inp halted st5 = (r6, st6)" by force
  have "(r, st') = (case r6 of Some v \<Rightarrow> (Some v, st6) | None \<Rightarrow> drive_transition halted st6)"
    using it alive c sw5
    by (simp add: drive_iter_def Let_def st1_def [symmetric] halted_def [symmetric] tp ft fin st5_def [symmetric]
        sweeping_def) (auto simp: halted_def split: option.splits)
  moreover have "r6 \<noteq> None \<or> drive_residual st6 = 0 \<and> sweeping st6 \<or>
      sweeping st6 \<and> dv_sweep_attempts st6 = (if cheque_open inp st then Suc else id) (dv_sweep_attempts st)
      \<and> (cheque_open inp st \<longrightarrow> dv_sweep_attempts st6 < 3) \<and> pa_last_cheque (dv_pacer st6) = pa_last_cheque (dv_pacer st)"
    using sweep_cheque [OF sw5 c] f5 cheque_open_cong [OF f5(1), of inp] by simp
  ultimately show ?thesis
    using sweep_transition [of st6 halted] by (cases r6) (auto split: if_splits)
qed

lemma sweep_run:
  assumes "sweeping st" "3 \<le> dv_sweep_attempts st + length (filter (\<lambda>inp. cheque_open inp st) inps)"
    and "list_ex (\<lambda>inp. cheque_open inp st) inps" "list_all in_alive inps"
  shows "\<exists>v st'. drive_run tools h pp a inps st = (Some v, st')"
  using assms
proof (induction inps arbitrary: st)
  case (Cons inp inps)
  obtain r st1 where it: "drive_iter tools h pp a inp st = (r, st1)" by force
  from sweep_iter [OF Cons.prems(1) _ it] Cons.prems(4)
  have "r \<noteq> None \<or> sweeping st1 \<and> dv_sweep_attempts st1 = (if cheque_open inp st then Suc else id) (dv_sweep_attempts st)
    \<and> (cheque_open inp st \<longrightarrow> dv_sweep_attempts st1 < 3) \<and> pa_last_cheque (dv_pacer st1) = pa_last_cheque (dv_pacer st)" by simp
  then show ?case
  proof
    assume "r \<noteq> None"
    then show ?thesis using it by auto
  next
    assume s: "sweeping st1 \<and> dv_sweep_attempts st1 = (if cheque_open inp st then Suc else id) (dv_sweep_attempts st)
      \<and> (cheque_open inp st \<longrightarrow> dv_sweep_attempts st1 < 3) \<and> pa_last_cheque (dv_pacer st1) = pa_last_cheque (dv_pacer st)"
    then have same: "cheque_open i st1 = cheque_open i st" for i by (intro cheque_open_cong) simp
    have left: "3 \<le> dv_sweep_attempts st1 + length (filter (\<lambda>inp. cheque_open inp st) inps)"
      using s Cons.prems(2) by (simp split: if_splits)
    have "list_ex (\<lambda>inp. cheque_open inp st) inps"
    proof (cases "cheque_open inp st")
      case True
      then have "filter (\<lambda>inp. cheque_open inp st) inps \<noteq> []" using s left by auto
      then show ?thesis by (auto simp: list_ex_iff filter_empty_conv)
    qed (use Cons.prems(3) in simp)
    with s same left Cons.IH [of st1] Cons.prems(4) it show ?thesis by (cases r) auto
  qed
qed simp

section \<open>A sample connection\<close>

definition sample_args :: conn_args where
  "sample_args = \<lparr>ca_overlay = replicate 32 1, ca_prefix = 0, ca_beneficiary = replicate 20 7, ca_issuable = 1000,
     ca_max_issue_plur = 500, ca_pipeline = 4, ca_prepay = False\<rparr>"

definition sample_pacer :: pacer where
  "sample_pacer = \<lparr>pa_mirror = mirror_default, pa_announced = None, pa_lambda_ms = 1000, pa_unvalidated = [],
     pa_rate = DEFAULT_RATE, pa_settled_units = 0, pa_prepaid = 0, pa_avg_price = 230000,
     pa_last_refresh = None, pa_last_cheque = None\<rparr>"

definition sample_shared :: shared where
  "sample_shared = \<lparr>sh_spend = sample_spend 0, sh_pool = [(0, [replicate 32 3])],
     sh_store = (\<lparr>si_end = 0, si_index = [], si_dirty = 0\<rparr>, \<lparr>sd_data = [], sd_index = None, sd_index_tmp = None\<rparr>),
     sh_fallback = [], sh_direct_bytes = 0, sh_direct_ok = 0, sh_cheques = 0, sh_cheque_plur = 0, sh_refresh_units = 0\<rparr>"

definition sample_drive :: "task list \<Rightarrow> drive_state" where
  "sample_drive ts = \<lparr>dv_pacer = sample_pacer, dv_tasks = ts, dv_unreaped = 0, dv_pending = None, dv_spend_stop = False,
     dv_bucket_drained = False, dv_finishing = False, dv_sweep_attempts = 0, dv_shared = sample_shared\<rparr>"

definition sample_pass :: "bool \<Rightarrow> drive_input" where
  "sample_pass alive = \<lparr>in_now = 10, in_alive = alive, in_wind_down = False, in_net = (\<lambda>_. (Some [7], PutOk, FlushOk)),
     in_done_admitted = [0], in_refresh = None, in_done_refreshed = [], in_env = sample_env, in_done_emitted = []\<rparr>"

lemma sample_drive_ok: "drive_ok (sample_drive [])"
  by (simp add: drive_ok_def sample_drive_def sample_pacer_def mirror_default_def account.ok_def sample_shared_def hm_wf_def)

section \<open>Properties\<close>

text \<open>
  C13 A granted admission keeps the worst-case ledger view of the peer within the gate: debt plus
  reservations plus the cheques still inside the validation window are at most the prepaid units
  plus 1.05 times the live threshold, and so below the peer's disconnect limit of 1.25 times the
  threshold above what was prepaid.
\<close>
theorem admit_exposure_bounded:
  assumes "admit now price p = (True, p')" "unat (pa_prepaid p) < 2 ^ 63" "0 < price" "0 < threshold p"
  shows "unat (mi_balance (pa_mirror p')) + unat (mi_reserved (pa_mirror p'))
      + unat (sum_list (map snd (pa_unvalidated p'))) \<le> unat (pa_prepaid p) + unat (threshold p) * 105 div 100
    \<and> 4 * (unat (mi_balance (pa_mirror p')) + unat (mi_reserved (pa_mirror p'))
      + unat (sum_list (map snd (pa_unvalidated p')))) < 4 * unat (pa_prepaid p) + 5 * unat (threshold p)"
proof -
  obtain l where l: "unat l \<le> 2 ^ 64 - 2" "try_reserve price l (pa_mirror p) = (True, pa_mirror p')"
    and eq: "unat l = unat (pa_prepaid p) + unat (sat_mul (threshold p) 105 div 100) - unat (sum_list (map snd (pa_unvalidated p')))"
    using admit_cases(3) [OF assms(1,2)] by blast
  have "l \<noteq> - 1" using l(1) by (auto simp: unat_minus_one_word)
  from try_reserve_granted [OF l(2) this] have
    "unat (mi_balance (pa_mirror p')) + unat (mi_reserved (pa_mirror p')) \<le> unat l" "0 < unat l"
    using assms(3) by (auto simp: word_less_nat_alt)
  then show ?thesis
    using eq scaled_threshold_bound(2) [of "threshold p"] assms(4) by (simp add: word_less_nat_alt) linarith
qed

theorem admit_exposure_bounded_witness:
  "\<exists>p. admit 10 230000 sample_pacer = (True, p)
     \<and> unat (mi_balance (pa_mirror p)) + unat (mi_reserved (pa_mirror p)) \<le> 1350000 * 105 div 100"
proof -
  obtain p where p: "admit 10 230000 sample_pacer = (True, p)"
    by (simp add: admit_def unvalidated_sum_def sample_pacer_def admit_limit_def threshold_def DEFAULT_THRESHOLD_def
        try_reserve_def mirror_default_def sat_mul_def sat_sub_def sat_add_def)
  have "threshold sample_pacer = 1350000" "pa_prepaid sample_pacer = 0"
    by (simp_all add: threshold_def sample_pacer_def DEFAULT_THRESHOLD_def)
  with admit_exposure_bounded [OF p] p show ?thesis by simp
qed


text \<open>
  C7 However many passes the drive loop makes, and whatever the network answers, as long as the
  store accepts the chunks' writes no chunk is lost: a chunk that was in the bucket, pending or in
  flight still is, or is in the store or in the fallback queue. When the loop returns, no task is
  in flight, nothing is pending, no reservation is left in the mirror and the returned residual is
  exactly the debt above the prepaid units.
\<close>
theorem drive_loses_no_chunk:
  assumes "drive_run tools h pp a inps st = (r, st')" "drive_ok st" "prepaid_bounded tools h pp a inps st"
    and "list_all (puts_ok \<circ> in_net) inps" "kept x st"
  shows "kept x st' \<and> (\<forall>v. r = Some v \<longrightarrow>
      dv_tasks st' = [] \<and> dv_pending st' = None \<and> mi_reserved (pa_mirror (dv_pacer st')) = 0
      \<and> v = sat_sub (mi_balance (pa_mirror (dv_pacer st'))) (pa_prepaid (dv_pacer st'))
      \<and> (x \<in># pool_chunks (sh_pool (dv_shared st')) \<or> x \<in> set (sh_fallback (dv_shared st'))
         \<or> store_contains x (fst (sh_store (dv_shared st')))))"
proof (intro conjI allI impI)
  note spec = drive_run_spec [OF assms(1-4), of x]
  show k: "kept x st'" using spec assms(5) by blast
  fix v
  assume "r = Some v"
  with spec have e: "dv_tasks st' = []" "dv_pending st' = None" "v = drive_residual st'" and ok: "drive_ok st'" by auto
  show "dv_tasks st' = []" "dv_pending st' = None" by (rule e)+
  show "mi_reserved (pa_mirror (dv_pacer st')) = 0" by (rule drive_ok_exit [OF ok e(1)])
  show "v = sat_sub (mi_balance (pa_mirror (dv_pacer st'))) (pa_prepaid (dv_pacer st'))"
    by (simp only: e(3) drive_residual_def)
  show "x \<in># pool_chunks (sh_pool (dv_shared st')) \<or> x \<in> set (sh_fallback (dv_shared st'))
      \<or> store_contains x (fst (sh_store (dv_shared st')))"
    using k e(1,2) by (simp add: kept_def)
qed

theorem drive_loses_no_chunk_witness:
  "\<exists>v st. drive_run (render_root, show_uint, \<lambda>_. [], sample_sign) render_root (\<lambda>_ _. 1000) sample_args
      [sample_pass False] (sample_drive []) = (Some v, st)
     \<and> kept (replicate 32 3) st \<and> mi_reserved (pa_mirror (dv_pacer st)) = 0"
proof -
  let ?run = "drive_run (render_root, show_uint, \<lambda>_. [], sample_sign) render_root (\<lambda>_ _. 1000) sample_args
      [sample_pass False] (sample_drive [])"
  obtain v st where r: "?run = (Some v, st)"
    by (simp add: drive_iter_def sample_pass_def Let_def)
  have k: "kept (replicate 32 3) (sample_drive [])"
    by (simp add: kept_def sample_drive_def sample_shared_def pool_chunks_def)
  show ?thesis
    using drive_loses_no_chunk [OF r sample_drive_ok _ _ k] r
    by (simp add: sample_pass_def puts_ok_def sample_drive_def sample_pacer_def)
qed

text \<open>
  The final sweep of a live connection ends: once the loop is finishing with no task left, three
  passes with a cheque due, among however many others, suffice for it to return, settled or with the
  residual it could not settle.
\<close>
theorem drive_sweep_terminates:
  assumes "sweeping st" "3 \<le> dv_sweep_attempts st + length (filter (\<lambda>inp. cheque_open inp st) inps)"
    and "list_ex (\<lambda>inp. cheque_open inp st) inps" "list_all in_alive inps"
  shows "\<exists>v st'. drive_run tools h pp a inps st = (Some v, st')"
  by (rule sweep_run [OF assms])

theorem drive_sweep_terminates_witness:
  "\<exists>v st'. drive_run (render_root, show_uint, \<lambda>_. [], sample_sign) render_root (\<lambda>_ _. 1000) sample_args
     [sample_pass True, sample_pass True, sample_pass True] ((sample_drive [])\<lparr>dv_finishing := True\<rparr>) = (Some v, st')"
  by (rule drive_sweep_terminates)
    (simp_all add: sweeping_def tasks_len_def sample_drive_def sample_pacer_def sample_pass_def due_def cheque_open_def)

text \<open>
  A fetch task ignores the store's error: when the write of a retrieved chunk fails, the chunk
  counts as served, yet it is neither in the store nor sent to the fallback nor pending.
\<close>
theorem drive_put_error_drops_chunk:
  assumes "net x = (Some data, DataWriteFails n, ff)" "dv_tasks st = [(x, price)]" "dv_pending st = None"
    and "x \<notin># pool_chunks (sh_pool (dv_shared st))" "x \<notin> set (sh_fallback (dv_shared st))"
    and "\<not> store_contains x (fst (sh_store (dv_shared st)))"
  shows "\<not> kept x (finish_task h net 0 st)
    \<and> sh_direct_ok (dv_shared (finish_task h net 0 st)) = sh_direct_ok (dv_shared st) + 1"
proof -
  obtain g d where gd: "sh_store (dv_shared st) = (g, d)" by force
  with assms(6) have "hm_get (si_index g) x = None"
    by (cases "hm_get (si_index g) x") (auto simp: store_contains_def)
  with assms gd show ?thesis
    by (simp add: kept_def finish_task_def store_put_def store_contains_def Let_def)
qed

theorem drive_put_error_drops_chunk_witness:
  "\<not> kept (replicate 32 5) (finish_task render_root (\<lambda>_. (Some [7], DataWriteFails 0, FlushOk)) 0
     (sample_drive [(replicate 32 5, 1000)]))"
  using drive_put_error_drops_chunk [of "\<lambda>_. (Some [7], DataWriteFails 0, FlushOk)" "replicate 32 5" "[7]" 0 FlushOk
      "sample_drive [(replicate 32 5, 1000)]" 1000 render_root]
  by (simp add: sample_drive_def sample_shared_def pool_chunks_def store_contains_def)

end
