(* ===== verification/Connection.thy ===== *)
theory Connection
  imports Drive
begin

text \<open>
  The life of one scheduled connection around its drive loop: dialing, the measurement of the
  peer's validation latency, the initial prepay, the confirmation that the peer sees no debt, the
  recorded observation and parking (\<^verbatim>\<open>run_connection\<close>, \<^verbatim>\<open>run_established\<close>, \<^verbatim>\<open>measure_lambda\<close> of
  \<^verbatim>\<open>rust/ds-net/src/schedule.rs\<close> and \<^verbatim>\<open>refresh_probe\<close> of \<^verbatim>\<open>rust/ds-net/src/growth.rs\<close>). What the
  network answers is input; the floating-point service rate is a parameter.
\<close>

section \<open>Pseudosettle probe\<close>

datatype probe_error = ProbeOpen | ProbeWrite | ProbeRead io_error | UnparseableAck

record probe_env =
  pe_open :: bool
  pe_writes :: bool
  pe_stream :: bytes

definition refresh_probe :: "probe_env \<Rightarrow> u64 \<Rightarrow> (probe_error, u64) result \<times> bytes" where
  "refresh_probe env attempted =
     (if \<not> pe_open env then (Inl ProbeOpen, [])
      else if \<not> pe_writes env then (Inl ProbeWrite, [])
      else case read_delimited 8192 (pe_stream env) of
        Inl e \<Rightarrow> (Inl (ProbeRead e), [0])
      | Inr (_, tail) \<Rightarrow>
          (case read_delimited 256 tail of
             Inl e \<Rightarrow> (Inl (ProbeRead e), 0 # probe_frame attempted)
           | Inr (ack, _) \<Rightarrow>
               ((case parse_ack_amount ack of Some n \<Rightarrow> Inr n | None \<Rightarrow> Inl UnparseableAck),
                0 # probe_frame attempted)))"

section \<open>Measuring the validation latency\<close>

definition LAMBDA_PROBE_UNITS :: u64 where "LAMBDA_PROBE_UNITS = 50000"

text \<open>
  The first loop builds debt. One pass tells whether the loop goes on; its last component is the
  address it holds when it breaks at a refused reservation, which the code drops. The loop's guard
  is read once per pass: the list holds the liveness flag of each pass, its end is the deadline.
\<close>

definition measure_pass ::
  "(bytes \<Rightarrow> string) \<Rightarrow> (swarm_address \<Rightarrow> swarm_address \<Rightarrow> u64) \<Rightarrow> (swarm_address \<Rightarrow> net_outcome) \<Rightarrow> conn_args \<Rightarrow>
   u64 \<Rightarrow> u64 \<Rightarrow> pacer \<times> shared \<Rightarrow> bool \<times> (pacer \<times> shared) \<times> swarm_address option" where
  "measure_pass henc peer_price net a t target ps =
     (case ps of (p, sh) \<Rightarrow>
      if target \<le> mi_balance (pa_mirror p) then (False, (p, sh), None)
      else case pool_pop (ca_prefix a) (sh_pool sh) of
        (None, b) \<Rightarrow> (False, (p, sh\<lparr>sh_pool := b\<rparr>), None)
      | (Some addr, b) \<Rightarrow>
          let sh1 = sh\<lparr>sh_pool := b\<rparr> in
          if store_contains addr (fst (sh_store sh1)) then (True, (p, sh1), None)
          else
            let price = peer_price (ca_overlay a) addr;
                (ok, m) = try_reserve price (t div 2) (pa_mirror p)
            in if \<not> ok then (False, (p\<lparr>pa_mirror := m\<rparr>, sh1), Some addr)
               else case net addr of
                 (Some data, pf, ff) \<Rightarrow>
                   (True, (p\<lparr>pa_mirror := apply_price price m\<rparr>,
                      sh1\<lparr>sh_store := snd (store_put pf ff henc addr data (sh_store sh1)),
                        sh_direct_bytes := sh_direct_bytes sh1 + of_nat (length data),
                        sh_direct_ok := sh_direct_ok sh1 + 1\<rparr>), None)
               | (None, _, _) \<Rightarrow> (False, (p\<lparr>pa_mirror := release price m\<rparr>, send_fallback addr sh1), None))"

fun measure_fetch ::
  "(pacer \<times> shared \<Rightarrow> bool \<times> (pacer \<times> shared) \<times> swarm_address option) \<Rightarrow> bool list \<Rightarrow>
   pacer \<times> shared \<Rightarrow> (pacer \<times> shared) \<times> swarm_address option" where
  "measure_fetch pass [] ps = (ps, None)"
| "measure_fetch pass (alive # guards) ps =
     (if \<not> alive then (ps, None)
      else case pass ps of
        (True, ps1, d) \<Rightarrow> measure_fetch pass guards ps1
      | (False, ps1, d) \<Rightarrow> (ps1, d))"

text \<open>
  The second loop probes until the peer accepts nothing twice in a row. A pass gives the probe's
  answer and the milliseconds since the cheque; the end of the list is the timeout.
\<close>

definition note_accepted :: "u64 \<Rightarrow> pacer \<times> shared \<Rightarrow> pacer \<times> shared" where
  "note_accepted accepted ps =
     (if 0 < accepted then
        ((fst ps)\<lparr>pa_settled_units := pa_settled_units (fst ps) + accepted\<rparr>,
         (snd ps)\<lparr>sh_refresh_units := sh_refresh_units (snd ps) + accepted\<rparr>)
      else ps)"

definition elapsed_ms :: "nat \<Rightarrow> u64" where
  "elapsed_ms elapsed = (case try_word elapsed of Some w \<Rightarrow> w | None \<Rightarrow> - 1)"

fun probe_loop :: "nat \<Rightarrow> nat \<Rightarrow> (u64 option \<times> nat) list \<Rightarrow> u64 option \<Rightarrow> pacer \<times> shared \<Rightarrow> u64 \<times> pacer \<times> shared" where
  "probe_loop since timeout [] zero_at ps =
     (LAMBDA_MAX_MS, (fst ps)\<lparr>pa_last_refresh := Some (since + timeout)\<rparr>, snd ps)"
| "probe_loop since timeout ((None, elapsed) # rest) zero_at ps = probe_loop since timeout rest zero_at ps"
| "probe_loop since timeout ((Some accepted, elapsed) # rest) zero_at ps =
     (let ps1 = note_accepted accepted ps in
      if accepted \<noteq> 0 then probe_loop since timeout rest None ps1
      else case zero_at of
        Some first \<Rightarrow> (first, (fst ps1)\<lparr>pa_last_refresh := Some (since + elapsed)\<rparr>, snd ps1)
      | None \<Rightarrow> probe_loop since timeout rest (Some (elapsed_ms elapsed)) ps1)"

record measure_input =
  mu_guards :: "bool list"
  mu_net :: "swarm_address \<Rightarrow> net_outcome"
  mu_env :: emit_env
  mu_now :: nat
  mu_probes :: "(probe_env \<times> nat) list"
  mu_timeout :: nat

definition measure_target :: "u64 \<Rightarrow> u64" where
  "measure_target t = max (t * 4 div 10) (LAMBDA_PROBE_UNITS * 6)"

definition probe_answer :: "probe_env \<times> nat \<Rightarrow> u64 option \<times> nat" where
  "probe_answer pr = (case fst (refresh_probe (fst pr) LAMBDA_PROBE_UNITS) of Inr n \<Rightarrow> Some n | Inl _ \<Rightarrow> None, snd pr)"

definition measure_lambda ::
  "cheque_tools \<Rightarrow> (bytes \<Rightarrow> string) \<Rightarrow> (swarm_address \<Rightarrow> swarm_address \<Rightarrow> u64) \<Rightarrow> conn_args \<Rightarrow> measure_input \<Rightarrow>
   pacer \<times> shared \<Rightarrow> u64 option \<times> pacer \<times> shared \<times> swarm_address option" where
  "measure_lambda tools henc peer_price a inp ps =
     (let t = threshold (fst ps) in
      case measure_fetch (measure_pass henc peer_price (mu_net inp) a t (measure_target t)) (mu_guards inp) ps of
        ((p1, sh1), dropped) \<Rightarrow>
          if mi_balance (pa_mirror p1) < LAMBDA_PROBE_UNITS * 4 then (None, p1, sh1, dropped)
          else case emit tools a (mu_env inp) (mu_now inp) (mi_balance (pa_mirror p1)) (p1, sh1) of
            (Inl _, p2, sh2) \<Rightarrow> (None, p2, sh2, dropped)
          | (Inr _, p2, sh2) \<Rightarrow>
              (case probe_loop (mu_now inp) (mu_timeout inp) (map probe_answer (mu_probes inp)) None (p2, sh2) of
                 (l, p3, sh3) \<Rightarrow> (Some l, p3, sh3, dropped)))"

section \<open>An established connection\<close>

record established =
  es_overlay :: swarm_address
  es_beneficiary :: bytes
  es_announced :: "U256 option"
  es_warm_lambda :: "u64 option"

record parked_conn =
  pk_overlay :: swarm_address
  pk_beneficiary :: bytes
  pk_announced :: "U256 option"
  pk_lambda_ms :: u64
  pk_alive :: bool

record conn_world =
  cw_shared :: shared
  cw_peers :: "peer_map \<times> disk"
  cw_parked :: "(swarm_address, parked_conn) hash_map"
  cw_opened :: u64
  cw_zero_confirmed :: u64
  cw_lambdas_measured :: u64
  cw_surplus_parked :: u64

definition new_pacer :: "bool \<Rightarrow> peer_state option \<Rightarrow> established \<Rightarrow> pacer" where
  "new_pacer prepay known e =
     \<lparr>pa_mirror = mirror_default, pa_announced = es_announced e,
      pa_lambda_ms = (case es_warm_lambda e of
          Some l \<Rightarrow> l
        | None \<Rightarrow> (case Option.bind known ps_lambda_ms of Some l \<Rightarrow> l | None \<Rightarrow> DEFAULT_LAMBDA_MS)),
      pa_unvalidated = [], pa_rate = DEFAULT_RATE, pa_settled_units = 0,
      pa_prepaid = (if prepay then (case known of Some k \<Rightarrow> ps_surplus_units k | None \<Rightarrow> 0) else 0),
      pa_avg_price = 230000, pa_last_refresh = None, pa_last_cheque = None\<rparr>"

definition initial_prepay ::
  "cheque_tools \<Rightarrow> conn_args \<Rightarrow> emit_env \<Rightarrow> nat \<Rightarrow> pacer \<times> shared \<Rightarrow> pacer \<times> shared" where
  "initial_prepay tools a env now ps =
     (if ca_prepay a \<and> pa_prepaid (fst ps) < 25 * 230000
      then snd (emit_prepay tools a env now (250 * 230000) ps) else ps)"

definition drive_start :: "pacer \<times> shared \<Rightarrow> drive_state" where
  "drive_start ps = \<lparr>dv_pacer = fst ps, dv_tasks = [], dv_unreaped = 0, dv_pending = None, dv_spend_stop = False,
     dv_bucket_drained = False, dv_finishing = False, dv_sweep_attempts = 0, dv_shared = snd ps\<rparr>"

text \<open>\<open>f64_rate units price millis\<close> is the floating-point quotient of line 1078 as a \<open>u32\<close>.\<close>

definition service_rate :: "(u64 \<Rightarrow> u32 \<Rightarrow> nat \<Rightarrow> u32) \<Rightarrow> nat \<Rightarrow> pacer \<Rightarrow> u32 option" where
  "service_rate f64_rate flow_ms p =
     (if 5000 \<le> flow_ms \<and> pa_avg_price p * 50 \<le> mi_balance (pa_mirror p) then
        Some (f64_rate (mi_balance (pa_mirror p))
          (case try_word (unat (pa_avg_price p)) of Some w \<Rightarrow> w | None \<Rightarrow> 230000) flow_ms)
      else None)"

record established_input =
  ei_measure_lambda :: bool
  ei_measure :: measure_input
  ei_prepay_env :: emit_env
  ei_prepay_now :: nat
  ei_passes :: "drive_input list"
  ei_flow_ms :: nat
  ei_alive_after :: bool
  ei_confirm :: probe_env
  ei_alive_parking :: bool
  ei_now_unix :: u64
  ei_save_fault :: io_fault
  ei_parking :: bool

definition zero_confirmed :: "established_input \<Rightarrow> u64 \<Rightarrow> bool" where
  "zero_confirmed inp residual \<longleftrightarrow> residual = 0 \<and> ei_alive_after inp
     \<and> fst (refresh_probe (ei_confirm inp) LAMBDA_PROBE_UNITS) = Inr 0"

definition observation_of ::
  "(u64 \<Rightarrow> u32 \<Rightarrow> nat \<Rightarrow> u32) \<Rightarrow> conn_args \<Rightarrow> established_input \<Rightarrow> u64 option \<Rightarrow> u64 \<Rightarrow> pacer \<Rightarrow> peer_observation" where
  "observation_of f64_rate a inp measured residual p =
     \<lparr>po_threshold = threshold p, po_lambda_ms = measured, po_settled_units_delta = pa_settled_units p,
      po_service_cps_x10 = service_rate f64_rate (ei_flow_ms inp) p,
      po_surplus_units_abs = (if ca_prepay a then Some (sat_sub (pa_prepaid p) (mi_balance (pa_mirror p))) else None),
      po_clean_close = (residual = 0 \<and> zero_confirmed inp residual)\<rparr>"

definition prepare ::
  "cheque_tools \<Rightarrow> (bytes \<Rightarrow> string) \<Rightarrow> (swarm_address \<Rightarrow> swarm_address \<Rightarrow> u64) \<Rightarrow> conn_args \<Rightarrow> established_input \<Rightarrow>
   established \<Rightarrow> conn_world \<Rightarrow> u64 option \<times> drive_state \<times> swarm_address option" where
  "prepare tools henc peer_price a inp e w =
     (let known = peerstate_get (es_overlay e) (fst (cw_peers w));
          p0 = new_pacer (ca_prepay a) known e;
          (measured, p1, sh1, dropped) =
            (if Option.bind known ps_lambda_ms = None \<and> ei_measure_lambda inp \<and> \<not> ca_prepay a
             then measure_lambda tools henc peer_price a (ei_measure inp) (p0, cw_shared w)
             else (None, p0, cw_shared w, None));
          p2 = (case measured of Some l \<Rightarrow> p1\<lparr>pa_lambda_ms := l\<rparr> | None \<Rightarrow> p1)
      in (measured, drive_start (initial_prepay tools a (ei_prepay_env inp) (ei_prepay_now inp) (p2, sh1)), dropped))"

definition conclude ::
  "(bytes \<Rightarrow> string) \<Rightarrow> (u64 \<Rightarrow> u32 \<Rightarrow> nat \<Rightarrow> u32) \<Rightarrow> conn_args \<Rightarrow> established_input \<Rightarrow> established \<Rightarrow>
   u64 option \<Rightarrow> u64 \<Rightarrow> drive_state \<Rightarrow> conn_world \<Rightarrow> u64 \<times> conn_world" where
  "conclude henc f64_rate a inp e measured residual st w =
     (let p = dv_pacer st;
          parked = sat_sub (pa_prepaid p) (mi_balance (pa_mirror p));
          w1 = w\<lparr>cw_shared := dv_shared st,
                 cw_lambdas_measured := cw_lambdas_measured w + (if measured = None then 0 else 1),
                 cw_zero_confirmed := cw_zero_confirmed w + (if zero_confirmed inp residual then 1 else 0),
                 cw_surplus_parked := cw_surplus_parked w + (if ca_prepay a then parked else 0),
                 cw_peers := peerstate_record (ei_save_fault inp) (ei_now_unix inp) henc (es_overlay e)
                   (observation_of f64_rate a inp measured residual p) (cw_peers w)\<rparr>
      in if ei_parking inp \<and> residual = 0 \<and> ei_alive_parking inp then
           (0, w1\<lparr>cw_parked := hm_insert (es_overlay e)
              \<lparr>pk_overlay = es_overlay e, pk_beneficiary = es_beneficiary e, pk_announced = pa_announced p,
               pk_lambda_ms = pa_lambda_ms p, pk_alive = True\<rparr> (cw_parked w1)\<rparr>)
         else (residual, w1))"

definition run_established ::
  "cheque_tools \<Rightarrow> (bytes \<Rightarrow> string) \<Rightarrow> (swarm_address \<Rightarrow> swarm_address \<Rightarrow> u64) \<Rightarrow> (u64 \<Rightarrow> u32 \<Rightarrow> nat \<Rightarrow> u32) \<Rightarrow>
   conn_args \<Rightarrow> established_input \<Rightarrow> established \<Rightarrow> conn_world \<Rightarrow> (u64 \<times> conn_world) option" where
  "run_established tools henc peer_price f64_rate a inp e w =
     (let a1 = a\<lparr>ca_overlay := es_overlay e, ca_beneficiary := es_beneficiary e\<rparr>;
          (measured, st, _) = prepare tools henc peer_price a1 inp e w
      in case drive_run tools henc peer_price a1 (ei_passes inp) st of
           (None, _) \<Rightarrow> None
         | (Some residual, st') \<Rightarrow> Some (conclude henc f64_rate a1 inp e measured residual st' w))"

section \<open>Dialing\<close>

datatype dial_outcome =
  NoPeerId | SwarmBuildFails | SinksFail | DialRefused | DialTimeout | HandshakeFails
| Shaken swarm_address bytes "U256 option"

definition established_of :: "parked_conn \<Rightarrow> established" where
  "established_of k = \<lparr>es_overlay = pk_overlay k, es_beneficiary = pk_beneficiary k,
     es_announced = pk_announced k, es_warm_lambda = Some (pk_lambda_ms k)\<rparr>"

definition connect :: "parked_conn option \<Rightarrow> swarm_address \<Rightarrow> dial_outcome \<Rightarrow> established option" where
  "connect warm overlay outcome =
     (case warm of
        Some k \<Rightarrow> Some (established_of k)
      | None \<Rightarrow>
          (case outcome of
             Shaken remote eth announced \<Rightarrow>
               if remote \<noteq> overlay then None
               else Some \<lparr>es_overlay = remote, es_beneficiary = eth, es_announced = announced, es_warm_lambda = None\<rparr>
           | _ \<Rightarrow> None))"

definition run_connection ::
  "cheque_tools \<Rightarrow> (bytes \<Rightarrow> string) \<Rightarrow> (swarm_address \<Rightarrow> swarm_address \<Rightarrow> u64) \<Rightarrow> (u64 \<Rightarrow> u32 \<Rightarrow> nat \<Rightarrow> u32) \<Rightarrow>
   conn_args \<Rightarrow> parked_conn option \<Rightarrow> dial_outcome \<Rightarrow> established_input \<Rightarrow> conn_world \<Rightarrow> (u64 \<times> conn_world) option" where
  "run_connection tools henc peer_price f64_rate a warm outcome inp w =
     (case connect warm (ca_overlay a) outcome of
        None \<Rightarrow> Some (0, w)
      | Some e \<Rightarrow>
          run_established tools henc peer_price f64_rate a inp e (w\<lparr>cw_opened := cw_opened w + 1\<rparr>))"

definition take_warm :: "swarm_address \<Rightarrow> conn_world \<Rightarrow> parked_conn option \<times> conn_world" where
  "take_warm overlay w =
     (case hm_get (cw_parked w) overlay of
        None \<Rightarrow> (None, w)
      | Some k \<Rightarrow> (if pk_alive k then Some k else None, w\<lparr>cw_parked := hm_remove overlay (cw_parked w)\<rparr>))"


section \<open>Keeping the chunks\<close>

definition safe :: "swarm_address \<Rightarrow> shared \<Rightarrow> bool" where
  "safe x sh \<longleftrightarrow> x \<in># pool_chunks (sh_pool sh) \<or> x \<in> set (sh_fallback sh) \<or> store_contains x (fst (sh_store sh))"

lemma kept_drive_start: "kept x (drive_start ps) \<longleftrightarrow> safe x (snd ps)"
  by (auto simp: kept_def safe_def drive_start_def)

lemma safe_same_work: "same_work sh sh' \<Longrightarrow> safe x sh' \<longleftrightarrow> safe x sh"
  by (simp add: safe_def same_work_def)

lemma pop_safe:
  assumes "pool_pop pre (sh_pool sh) = (r, b)" "hm_wf (sh_pool sh)"
  shows "hm_wf b" "safe x sh \<Longrightarrow> safe x (sh\<lparr>sh_pool := b\<rparr>) \<or> r = Some x"
proof -
  have "hm_wf b \<and> (safe x sh \<longrightarrow> safe x (sh\<lparr>sh_pool := b\<rparr>) \<or> r = Some x)"
  proof (cases r)
    case None
    then have "b = sh_pool sh" using assms(1) pool_pop_None by simp
    then show ?thesis using assms(2) by (simp add: safe_def)
  next
    case (Some y)
    have "pool_chunks (sh_pool sh) = add_mset y (pool_chunks b)" "hm_wf b"
      using pool_pop_Some(1,2) assms Some by simp_all
    then show ?thesis using Some by (auto simp: safe_def)
  qed
  then show "hm_wf b" "safe x sh \<Longrightarrow> safe x (sh\<lparr>sh_pool := b\<rparr>) \<or> r = Some x" by auto
qed

lemma put_safe:
  "safe x sh \<Longrightarrow> safe x (sh\<lparr>sh_store := snd (store_put pf ff h addr data (sh_store sh)), sh_direct_bytes := n, sh_direct_ok := k\<rparr>)"
  "length data < 2 ^ 32 \<Longrightarrow>
    safe addr (sh\<lparr>sh_store := snd (store_put PutOk ff h addr data (sh_store sh)), sh_direct_bytes := n, sh_direct_ok := k\<rparr>)"
  by (auto simp: safe_def store_put_contains_mono store_put_contains)

lemma fallback_safe: "safe x (send_fallback x sh)" "safe x sh \<Longrightarrow> safe x (send_fallback y sh)"
  by (auto simp: safe_def send_fallback_def)

definition idle_ok :: "pacer \<times> shared \<Rightarrow> bool" where
  "idle_ok ps \<longleftrightarrow> account.ok (2 ^ 64 - 2) (pa_mirror (fst ps)) {#} \<and> hm_wf (sh_pool (snd ps))"

lemma drive_start_ok: "idle_ok ps \<Longrightarrow> drive_ok (drive_start ps)"
  by (simp add: idle_ok_def drive_ok_def drive_start_def)

lemma reserve_half:
  assumes "account.ok (2 ^ 64 - 2) m {#}" "try_reserve price (t div 2) m = (True, m')"
  shows "account.ok (2 ^ 64 - 2) m' {#price#}"
proof -
  have "unat (t div 2) \<le> 2 ^ 64 - 2" using u64_less [of t] by (simp add: unat_div)
  from account.ok_reserve [OF assms this] show ?thesis by simp
qed

lemma measure_pass_spec:
  assumes "measure_pass h pp net a t target (p, sh) = (go, (p', sh'), d)" "idle_ok (p, sh)"
  shows "idle_ok (p', sh') \<and> pa_prepaid p' = pa_prepaid p \<and> (go \<longrightarrow> d = None)
    \<and> (puts_ok net \<longrightarrow> safe x sh \<longrightarrow> safe x sh' \<or> d = Some x)"
proof -
  obtain r b where pop: "pool_pop (ca_prefix a) (sh_pool sh) = (r, b)" by force
  have wf: "hm_wf (sh_pool sh)" and acc: "account.ok (2 ^ 64 - 2) (pa_mirror p) {#}"
    using assms(2) by (simp_all add: idle_ok_def)
  note popped = pop_safe [OF pop wf]
  let ?sh1 = "sh\<lparr>sh_pool := b\<rparr>"
  consider (full) "target \<le> mi_balance (pa_mirror p)"
    | (empty) "\<not> target \<le> mi_balance (pa_mirror p)" "r = None"
    | (stored) addr where "\<not> target \<le> mi_balance (pa_mirror p)" "r = Some addr" "store_contains addr (fst (sh_store sh))"
    | (new) addr where "\<not> target \<le> mi_balance (pa_mirror p)" "r = Some addr" "\<not> store_contains addr (fst (sh_store sh))"
    by (metis option.exhaust)
  then show ?thesis
  proof cases
    case full
    then show ?thesis using assms by (simp add: measure_pass_def)
  next
    case empty
    then have "p' = p" "sh' = ?sh1" "d = None" "\<not> go" using assms(1) pop by (simp_all add: measure_pass_def)
    then show ?thesis using popped(1) popped(2) [of x] acc empty by (simp add: idle_ok_def)
  next
    case stored
    then have "p' = p" "sh' = ?sh1" "d = None" "safe addr sh'"
      using assms(1) pop by (auto simp: measure_pass_def safe_def)
    then show ?thesis using popped(1) popped(2) [of x] acc stored by (auto simp: idle_ok_def)
  next
    case new
    let ?price = "pp (ca_overlay a) addr"
    obtain ok m where res: "try_reserve ?price (t div 2) (pa_mirror p) = (ok, m)" by force
    obtain od pf ff where n: "net addr = (od, pf, ff)" by (metis prod_cases3)
    note step = assms(1) [unfolded measure_pass_def, simplified, simplified new(1) pop new(2,3) res n, simplified]
    show ?thesis
    proof (cases ok)
      case False
      then have "m = pa_mirror p" using account.reserve_refused res by simp
      then have "p' = p" "sh' = ?sh1" "d = Some addr" "\<not> go" using step new False res n pop by (simp_all add: Let_def)
      then show ?thesis using popped(1) popped(2) [of x] acc new by (auto simp: idle_ok_def)
    next
      case True
      have held: "account.ok (2 ^ 64 - 2) m {#?price#}"
        using reserve_half [OF acc] res True by simp
      show ?thesis
      proof (cases od)
        case None
        then have "p' = p\<lparr>pa_mirror := release ?price m\<rparr>" "sh' = send_fallback addr ?sh1" "d = None" "\<not> go"
          using step new True res n pop by (simp_all add: Let_def)
        then show ?thesis
          using popped(1) popped(2) [of x] fallback_safe [of x ?sh1] fallback_safe(1) [of addr ?sh1] new
            account.ok_drop_held [OF held, of ?price]
          by (auto simp: idle_ok_def send_fallback_def)
      next
        case (Some data)
        then have e: "p' = p\<lparr>pa_mirror := apply_price ?price m\<rparr>" "d = None"
          "sh' = ?sh1\<lparr>sh_store := snd (store_put pf ff h addr data (sh_store ?sh1)),
             sh_direct_bytes := sh_direct_bytes sh + of_nat (length data), sh_direct_ok := sh_direct_ok sh + 1\<rparr>"
          using step new True res n pop by (simp_all add: Let_def)
        have put: "puts_ok net \<Longrightarrow> pf = PutOk \<and> length data < 2 ^ 32"
          using n Some by (auto simp: puts_ok_def)
        have "puts_ok net \<Longrightarrow> safe x sh \<Longrightarrow> safe x sh'"
          unfolding e using popped(2) [of x] put_safe(1) [where x = x and sh = "?sh1"] put_safe(2) [where data = data and addr = addr and sh = "?sh1"] put new by auto
        then show ?thesis
          using account.ok_commit [OF held, of ?price] popped(1) e(1,2) by (simp add: idle_ok_def e(3))
      qed
    qed
  qed
qed

lemma measure_fetch_spec:
  assumes "measure_fetch (measure_pass h pp net a t target) gs ps = (ps', d)" "idle_ok ps"
  shows "idle_ok ps' \<and> pa_prepaid (fst ps') = pa_prepaid (fst ps)
    \<and> (puts_ok net \<longrightarrow> safe x (snd ps) \<longrightarrow> safe x (snd ps') \<or> d = Some x)"
  using assms
proof (induction gs arbitrary: ps)
  case (Cons alive gs)
  obtain go ps1 d1 where st: "measure_pass h pp net a t target ps = (go, ps1, d1)" by (metis prod_cases3)
  have spec: "idle_ok ps1 \<and> pa_prepaid (fst ps1) = pa_prepaid (fst ps) \<and> (go \<longrightarrow> d1 = None)
      \<and> (puts_ok net \<longrightarrow> safe x (snd ps) \<longrightarrow> safe x (snd ps1) \<or> d1 = Some x)"
    using measure_pass_spec [of h pp net a t target "fst ps" "snd ps" go "fst ps1" "snd ps1" d1 x] st Cons.prems(2) by simp
  show ?case
    using Cons.IH [of ps1] Cons.prems st spec by (cases alive; cases go) auto
qed simp


lemma note_accepted_fields:
  "pa_mirror (fst (note_accepted n ps)) = pa_mirror (fst ps)" "pa_prepaid (fst (note_accepted n ps)) = pa_prepaid (fst ps)"
  "same_work (snd ps) (snd (note_accepted n ps))"
  by (simp_all add: note_accepted_def same_work_def)

lemma probe_loop_spec:
  "probe_loop since timeout prs z ps = (l, ps') \<Longrightarrow>
    pa_mirror (fst ps') = pa_mirror (fst ps) \<and> pa_prepaid (fst ps') = pa_prepaid (fst ps) \<and> same_work (snd ps) (snd ps')"
proof (induction prs arbitrary: z ps)
  case (Cons pr prs)
  obtain acc el where pr: "pr = (acc, el)" by force
  show ?case
  proof (cases acc)
    case (Some n)
    then show ?thesis
      using Cons.prems Cons.IH [of _ "note_accepted n ps"] pr
      by (cases "n = 0"; cases z) (fastforce simp: Let_def same_work_def note_accepted_def)+
  qed (use Cons pr in simp)
qed (auto simp: same_work_def)

lemma idle_ok_settled:
  assumes "idle_ok (p, sh)" "same_work sh sh'" "pa_mirror p' = pa_mirror p \<or> pa_mirror p' = credit n (pa_mirror p)"
  shows "idle_ok (p', sh')"
  using assms account.ok_settle by (auto simp: idle_ok_def same_work_def)

lemma measure_lambda_spec:
  assumes "measure_lambda tools h pp a inp ps = (l, p', sh', d)" "idle_ok ps"
  shows "idle_ok (p', sh') \<and> pa_prepaid p' = pa_prepaid (fst ps)
    \<and> (puts_ok (mu_net inp) \<longrightarrow> safe x (snd ps) \<longrightarrow> safe x sh' \<or> d = Some x)"
proof -
  let ?t = "threshold (fst ps)"
  obtain p1 sh1 d1 where f: "measure_fetch (measure_pass h pp (mu_net inp) a ?t (measure_target ?t)) (mu_guards inp) ps
      = ((p1, sh1), d1)" by (metis prod.collapse)
  note spec = measure_fetch_spec [OF f assms(2), of x, simplified]
  obtain r p2 sh2 where em: "emit tools a (mu_env inp) (mu_now inp) (mi_balance (pa_mirror p1)) (p1, sh1) = (r, p2, sh2)"
    by (metis prod_cases3)
  note ef = emit_fields [OF em]
  have "pa_mirror p2 = pa_mirror p1 \<or> pa_mirror p2 = credit (mi_balance (pa_mirror p1)) (pa_mirror p1)"
    using ef(3) by (cases r) simp_all
  then have idle2: "idle_ok (p2, sh2)"
    using idle_ok_settled [OF _ ef(1)] spec by blast
  obtain l3 p3 sh3 where pl: "probe_loop (mu_now inp) (mu_timeout inp) (map probe_answer (mu_probes inp)) None (p2, sh2)
      = (l3, p3, sh3)" by (metis prod_cases3)
  note pf = probe_loop_spec [OF pl, simplified]
  have "idle_ok (p3, sh3)" using idle_ok_settled [OF idle2] pf by blast
  moreover have "safe x sh2 = safe x sh1" "safe x sh3 = safe x sh2"
    using safe_same_work ef(1) pf by blast+
  ultimately show ?thesis
    using assms(1) f em pl spec idle2 ef(2) pf
    by (cases "mi_balance (pa_mirror p1) < LAMBDA_PROBE_UNITS * 4"; cases r) (auto simp: measure_lambda_def Let_def)
qed

lemma initial_prepay_spec:
  assumes "idle_ok ps"
  shows "idle_ok (initial_prepay tools a env now ps)"
    "safe x (snd (initial_prepay tools a env now ps)) \<longleftrightarrow> safe x (snd ps)"
    "\<not> ca_prepay a \<Longrightarrow> pa_prepaid (fst (initial_prepay tools a env now ps)) = pa_prepaid (fst ps)"
proof -
  obtain r p sh where em: "emit_prepay tools a env now (250 * 230000) (fst ps, snd ps) = (r, p, sh)" by (metis prod_cases3)
  note ef = emit_prepay_fields [OF em]
  have "idle_ok (p, sh)" using idle_ok_settled [of "fst ps", OF _ ef(1)] assms ef(2) by simp
  then show "idle_ok (initial_prepay tools a env now ps)"
    "safe x (snd (initial_prepay tools a env now ps)) \<longleftrightarrow> safe x (snd ps)"
    "\<not> ca_prepay a \<Longrightarrow> pa_prepaid (fst (initial_prepay tools a env now ps)) = pa_prepaid (fst ps)"
    using assms em safe_same_work [OF ef(1), of x] by (auto simp: initial_prepay_def)
qed

lemma new_pacer_idle: "hm_wf (sh_pool sh) \<Longrightarrow> idle_ok (new_pacer prepay known e, sh)"
  by (simp add: idle_ok_def new_pacer_def mirror_default_def account.ok_def)

lemma prepare_spec:
  assumes "prepare tools h pp a inp e w = (l, st, d)" "hm_wf (sh_pool (cw_shared w))"
  shows "drive_ok st \<and> (puts_ok (mu_net (ei_measure inp)) \<longrightarrow> safe x (cw_shared w) \<longrightarrow> kept x st \<or> d = Some x)
    \<and> (\<not> ei_measure_lambda inp \<or> ca_prepay a \<longrightarrow> d = None)
    \<and> (\<not> ca_prepay a \<longrightarrow> pa_prepaid (dv_pacer st) = 0)"
proof -
  let ?known = "peerstate_get (es_overlay e) (fst (cw_peers w))"
  let ?p0 = "new_pacer (ca_prepay a) ?known e"
  let ?m = "if Option.bind ?known ps_lambda_ms = None \<and> ei_measure_lambda inp \<and> \<not> ca_prepay a
             then measure_lambda tools h pp a (ei_measure inp) (?p0, cw_shared w) else (None, ?p0, cw_shared w, None)"
  obtain p1 sh1 where m: "?m = (l, p1, sh1, d)" using assms(1) by (auto simp: prepare_def Let_def split: prod.splits)
  let ?p2 = "case l of Some l \<Rightarrow> p1\<lparr>pa_lambda_ms := l\<rparr> | None \<Rightarrow> p1"
  have st: "st = drive_start (initial_prepay tools a (ei_prepay_env inp) (ei_prepay_now inp) (?p2, sh1))"
    using assms(1) m by (auto simp: prepare_def Let_def split: prod.splits)
  have idle: "idle_ok (?p0, cw_shared w)" by (rule new_pacer_idle [OF assms(2)])
  have "idle_ok (p1, sh1) \<and> pa_prepaid p1 = pa_prepaid ?p0
      \<and> (puts_ok (mu_net (ei_measure inp)) \<longrightarrow> safe x (cw_shared w) \<longrightarrow> safe x sh1 \<or> d = Some x)
      \<and> (\<not> ei_measure_lambda inp \<or> ca_prepay a \<longrightarrow> d = None)"
    using m idle measure_lambda_spec [of tools h pp a "ei_measure inp" "(?p0, cw_shared w)" l p1 sh1 d x]
    by (auto split: if_splits)
  moreover have "pa_mirror ?p2 = pa_mirror p1" "pa_prepaid ?p2 = pa_prepaid p1" by (simp_all split: option.split)
  moreover have "\<not> ca_prepay a \<Longrightarrow> pa_prepaid ?p0 = 0" by (simp add: new_pacer_def)
  ultimately have two: "idle_ok (?p2, sh1)" "pa_prepaid ?p2 = pa_prepaid ?p0" "\<not> ca_prepay a \<longrightarrow> pa_prepaid ?p0 = 0"
    and dropped: "\<not> ei_measure_lambda inp \<or> ca_prepay a \<longrightarrow> d = None"
      "puts_ok (mu_net (ei_measure inp)) \<longrightarrow> safe x (cw_shared w) \<longrightarrow> safe x sh1 \<or> d = Some x"
    by (simp_all add: idle_ok_def)
  note ip = initial_prepay_spec [OF two(1), where tools = tools and a = a and env = "ei_prepay_env inp" and now = "ei_prepay_now inp"]
  have "drive_ok st" unfolding st by (rule drive_start_ok [OF ip(1)])
  moreover have "kept x st \<longleftrightarrow> safe x sh1" unfolding st by (simp add: kept_drive_start ip(2))
  moreover have "\<not> ca_prepay a \<Longrightarrow> pa_prepaid (dv_pacer st) = 0" using ip(3) two by (simp add: st drive_start_def)
  ultimately show ?thesis using dropped by blast
qed


section \<open>Whole connections\<close>

definition local_args :: "conn_args \<Rightarrow> established \<Rightarrow> conn_args" where
  "local_args a e = a\<lparr>ca_overlay := es_overlay e, ca_beneficiary := es_beneficiary e\<rparr>"

lemma run_established_cases:
  assumes "run_established tools h pp f64 a inp e w = Some (v, w')"
    and "prepare tools h pp (local_args a e) inp e w = (l, st, d)"
  obtains r st' where "drive_run tools h pp (local_args a e) (ei_passes inp) st = (Some r, st')"
    and "(v, w') = conclude h f64 (local_args a e) inp e l r st' w"
proof -
  obtain r st' where run: "drive_run tools h pp (local_args a e) (ei_passes inp) st = (r, st')" by force
  with assms obtain v1 where "r = Some v1" "Some (v, w') = Some (conclude h f64 (local_args a e) inp e l v1 st' w)"
    by (cases r) (simp_all add: run_established_def local_args_def Let_def)
  with run that show thesis by simp
qed

lemma run_established_returns:
  assumes "prepare tools h pp (local_args a e) inp e w = (l, st, d)"
    and "drive_run tools h pp (local_args a e) (ei_passes inp) st = (Some r, st')"
  shows "\<exists>v w'. run_established tools h pp f64 a inp e w = Some (v, w')"
proof -
  have "run_established tools h pp f64 a inp e w = Some (conclude h f64 (local_args a e) inp e l r st' w)"
    using assms by (simp add: run_established_def local_args_def Let_def)
  then show ?thesis by (metis prod.collapse)
qed

lemma conclude_shared: "conclude h f64 a inp e l r st w = (v, w') \<Longrightarrow> cw_shared w' = dv_shared st"
  by (auto simp: conclude_def Let_def split: if_splits)

lemma conclude_peer:
  assumes "conclude h f64 a inp e l r st w = (v, w')"
  shows "peerstate_get (es_overlay e) (fst (cw_peers w')) = Some (merge_observation (ei_now_unix inp)
      (observation_of f64 a inp l r (dv_pacer st)) (hm_get_or (fst (cw_peers w)) peer_default (es_overlay e)))"
  using assms
  by (auto simp: conclude_def Let_def peerstate_record_def record_locked_def peerstate_get_def hm_get_insert split: if_splits)

lemma conclude_parked:
  assumes "conclude h f64 a inp e l r st w = (v, w')"
  shows "v = r" "hm_get (cw_parked w') k = (if k = es_overlay e \<and> ei_parking inp \<and> r = 0 \<and> ei_alive_parking inp
      then Some \<lparr>pk_overlay = es_overlay e, pk_beneficiary = es_beneficiary e, pk_announced = pa_announced (dv_pacer st),
               pk_lambda_ms = pa_lambda_ms (dv_pacer st), pk_alive = True\<rparr>
      else hm_get (cw_parked w) k)"
  using assms by (auto simp: conclude_def Let_def hm_get_insert split: if_splits)

lemma service_rate_zero:
  assumes "mi_balance (pa_mirror p) = 0" "0 < pa_avg_price p" "unat (pa_avg_price p) < 2 ^ 58"
  shows "service_rate f64 ms p = None"
proof -
  have "unat (pa_avg_price p * 50) = unat (pa_avg_price p) * 50"
    using assms(3) unat_mult_lem [of "pa_avg_price p" 50] by simp
  then have "0 < pa_avg_price p * 50" using assms(2) by (simp add: word_less_nat_alt)
  then show ?thesis using assms(1) by (auto simp: service_rate_def)
qed


section \<open>Postpaid connections\<close>

definition postpaid :: "pacer \<Rightarrow> bool" where
  "postpaid p \<longleftrightarrow> pa_prepaid p = 0 \<and> 0 < pa_avg_price p \<and> unat (pa_avg_price p) < 2 ^ 58"

lemma finish_tasks_postpaid: "postpaid (dv_pacer (finish_tasks h net is st)) = postpaid (dv_pacer st)"
proof -
  have one: "postpaid (dv_pacer (finish_task h net i st)) = postpaid (dv_pacer st)" for i st
    by (auto simp: finish_task_def postpaid_def Let_def split: prod.split option.split)
  show ?thesis
    by (induction "is" arbitrary: st) (simp_all add: finish_tasks_def one)
qed

lemma admit_postpaid:
  assumes "admit now price p = (ok, p')"
  shows "postpaid p' = postpaid p"
  using assms by (auto simp: admit_def unvalidated_sum_def Let_def postpaid_def split: prod.splits)

lemma admit_loop_postpaid:
  assumes "postpaid (dv_pacer st)" "\<And>c. unat (pp (ca_overlay a) c) < 2 ^ 58"
  shows "postpaid (dv_pacer (admit_loop pp a now st))"
proof -
  have av: "postpaid (p\<lparr>pa_avg_price := max (pp (ca_overlay a) c) 1\<rparr>)" if "postpaid p" for p c
    using that assms(2) [of c] by (auto simp: postpaid_def max_def word_less_nat_alt word_le_nat_alt)
  have "postpaid (dv_pacer st) \<longrightarrow> postpaid (dv_pacer (admit_loop pp a now st))"
    by (induction rule: admit_loop_rule) (auto simp: next_chunk_fields(4) dest!: admit_postpaid dest: av)
  then show ?thesis using assms(1) by blast
qed

lemma refresh_postpaid:
  assumes "refresh acc now (p, sh) = (p', sh')"
  shows "postpaid p' = postpaid p"
  using assms by (auto simp: refresh_def postpaid_def Let_def split: option.splits if_splits)

lemma emit_postpaid:
  assumes "emit tools a env now units (p, sh) = (r, p', sh')"
  shows "postpaid p' = postpaid p"
  using assms by (auto simp: emit_def postpaid_def split: prod.splits sum.splits)

lemma drive_iter_postpaid:
  assumes "drive_iter tools h pp a inp st = (r, st')" "postpaid (dv_pacer st)" "\<not> ca_prepay a"
    and "\<And>c. unat (pp (ca_overlay a) c) < 2 ^ 58"
  shows "postpaid (dv_pacer st')"
proof (cases "in_alive inp")
  case False
  then show ?thesis using assms(1,2)
    by (auto simp: drive_iter_def Let_def take_pending_fields finish_tasks_postpaid)
next
  case True
  let ?st1 = "spend_check a st"
  let ?halted = "dv_spend_stop ?st1 \<or> in_wind_down inp"
  let ?st2 = "if ?halted then take_pending ?st1 else ?st1"
  let ?st3 = "if dv_finishing ?st2 \<or> ?halted then ?st2 else admit_loop pp a (in_now inp) ?st2"
  let ?st4 = "(finish_tasks h (in_net inp) (in_done_admitted inp) ?st3)\<lparr>dv_unreaped := 0\<rparr>"
  let ?st5 = "drive_refresh h inp ?st4"
  have p1: "postpaid (dv_pacer ?st1)" using assms(2) by (simp add: spend_check_pacer)
  have p2: "postpaid (dv_pacer ?st2)" using assms(2) by (simp add: take_pending_fields spend_check_pacer)
  then have "postpaid (dv_pacer ?st3)" using admit_loop_postpaid [OF p1, of pp a "in_now inp"] assms(4) by simp
  then have p4: "postpaid (dv_pacer ?st4)" by (simp add: finish_tasks_postpaid)
  obtain pr shr where rf: "refresh (in_refresh inp) (in_now inp) (dv_pacer ?st4, dv_shared ?st4) = (pr, shr)" by force
  have p5: "postpaid (dv_pacer ?st5)"
    using p4 refresh_postpaid [OF rf] rf by (simp add: drive_refresh_def finish_tasks_postpaid)
  obtain r6 st6 where c: "drive_cheque tools h a inp ?halted ?st5 = (r6, st6)" by force
  obtain em p1 sh1 where e: "emit tools a (in_env inp) (in_now inp) (drive_residual ?st5) (dv_pacer ?st5, dv_shared ?st5)
      = (em, p1, sh1)" by (metis prod_cases3)
  have "postpaid p1" using p5 emit_postpaid [OF e] by simp
  then have p6: "postpaid (dv_pacer st6)"
    using c e p5 by (auto simp: drive_cheque_def Let_def finish_tasks_postpaid split: sum.splits if_splits)
  have "(case drive_cheque tools h a inp ?halted ?st5 of
           (Some r, st6) \<Rightarrow> (Some r, st6) | (None, st6) \<Rightarrow> drive_transition ?halted st6) = (r, st')"
    using assms(1,3) True by (simp add: drive_iter_def Let_def)
  then show ?thesis
    using c p6 by (cases r6) (auto simp: drive_transition_def Let_def split: if_splits)
qed

lemma drive_run_postpaid:
  assumes "drive_run tools h pp a inps st = (r, st')" "postpaid (dv_pacer st)" "\<not> ca_prepay a"
    and "\<And>c. unat (pp (ca_overlay a) c) < 2 ^ 58"
  shows "postpaid (dv_pacer st')"
  using assms(1,2)
proof (induction inps arbitrary: st)
  case (Cons inp inps)
  obtain r1 st1 where it: "drive_iter tools h pp a inp st = (r1, st1)" by force
  have "postpaid (dv_pacer st1)" by (rule drive_iter_postpaid [OF it Cons.prems(2) assms(3,4)])
  then show ?case using Cons it by (cases r1) auto
qed simp


section \<open>A sample connection\<close>

definition sample_probe :: probe_env where
  "sample_probe = \<lparr>pe_open = True, pe_writes = True, pe_stream = [0, 0]\<rparr>"

definition sample_run :: established_input where
  "sample_run = \<lparr>ei_measure_lambda = False,
     ei_measure = \<lparr>mu_guards = [], mu_net = (\<lambda>_. (None, PutOk, FlushOk)), mu_env = sample_env, mu_now = 0, mu_probes = [],
       mu_timeout = 25000\<rparr>,
     ei_prepay_env = sample_env\<lparr>ev_stream := []\<rparr>, ei_prepay_now = 0, ei_passes = [sample_pass False], ei_flow_ms = 100,
     ei_alive_after = False, ei_confirm = sample_probe, ei_alive_parking = False, ei_now_unix = 5,
     ei_save_fault = NoFault, ei_parking = False\<rparr>"

definition sample_peer :: established where
  "sample_peer = \<lparr>es_overlay = replicate 32 1, es_beneficiary = replicate 20 7, es_announced = None, es_warm_lambda = None\<rparr>"

definition sample_world :: conn_world where
  "sample_world = \<lparr>cw_shared = sample_shared, cw_peers = ([], \<lparr>dk_file = None, dk_tmp = None\<rparr>), cw_parked = [], cw_opened = 0,
     cw_zero_confirmed = 0, cw_lambdas_measured = 0, cw_surplus_parked = 0\<rparr>"

abbreviation sample_tools :: cheque_tools where
  "sample_tools \<equiv> (render_root, show_uint, \<lambda>_. [], sample_sign)"

lemma sample_prepare:
  "prepare sample_tools h pp (local_args a sample_peer) sample_run sample_peer sample_world
    = (None, drive_start (initial_prepay sample_tools (local_args a sample_peer) (sample_env\<lparr>ev_stream := []\<rparr>) 0
        (new_pacer (ca_prepay a) None sample_peer, sample_shared)), None)"
  by (simp add: prepare_def sample_run_def sample_world_def peerstate_get_def Let_def local_args_def)

lemma dead_pass: "\<exists>r st'. drive_run tools h pp a [sample_pass False] st = (Some r, st')"
  by (simp add: drive_iter_def sample_pass_def Let_def)

lemma sample_passes: "ei_passes sample_run = [sample_pass False]"
  by (simp add: sample_run_def)

lemma dead_pass_puts: "list_all (puts_ok \<circ> in_net) [sample_pass False]"
  by (simp add: sample_pass_def puts_ok_def)

lemma sample_world_wf: "hm_wf (sh_pool (cw_shared sample_world))"
  by (simp add: sample_world_def sample_shared_def hm_wf_def)

lemma sample_world_safe: "safe (replicate 32 3) (cw_shared sample_world)"
  by (simp add: safe_def sample_world_def sample_shared_def pool_chunks_def)

lemma emit_prepay_no_headers:
  "snd (emit_prepay sample_tools a (sample_env\<lparr>ev_stream := []\<rparr>) now u (p, sample_shared)) = (p, sample_shared)"
  by (simp add: emit_prepay_def emit_settlement_cheque_def cheque_amount_def sample_env_def read_delimited_def)

section \<open>Properties\<close>



text \<open>
  The latency measurement drops the chunk it has just taken from the pool when the reservation
  is refused: it is not in the pool, not in the store and not sent to the fallback afterwards, and
  the loop ends. With the default threshold and a price of 230000 this is the third chunk.
\<close>
theorem measure_lambda_drops_chunk:
  assumes "pool_pop (ca_prefix a) (sh_pool sh) = (Some x, b)" "mi_balance (pa_mirror p) < target"
    and "\<not> store_contains x (fst (sh_store sh))" "x \<notin># pool_chunks b" "x \<notin> set (sh_fallback sh)"
    and "fst (try_reserve (pp (ca_overlay a) x) (t div 2) (pa_mirror p)) = False"
  shows "measure_fetch (measure_pass h pp net a t target) (True # guards) (p, sh) = ((p, sh\<lparr>sh_pool := b\<rparr>), Some x)
    \<and> \<not> safe x (sh\<lparr>sh_pool := b\<rparr>)"
proof -
  obtain m where res: "try_reserve (pp (ca_overlay a) x) (t div 2) (pa_mirror p) = (False, m)"
    using assms(6) by (metis prod.collapse)
  then have "m = pa_mirror p" using account.reserve_refused by simp
  with res have "measure_pass h pp net a t target (p, sh) = (False, (p, sh\<lparr>sh_pool := b\<rparr>), Some x)"
    using assms(1,2,3) by (simp add: measure_pass_def Let_def)
  then show ?thesis using assms by (simp add: safe_def)
qed

theorem measure_lambda_drops_chunk_witness:
  "\<not> safe (replicate 32 3) (snd (fst (measure_fetch
     (measure_pass render_root (\<lambda>_ _. 230000) (\<lambda>_. (None, PutOk, FlushOk)) sample_args 1350000 (measure_target 1350000))
     [True] (sample_pacer\<lparr>pa_mirror := \<lparr>mi_balance = 460000, mi_reserved = 0\<rparr>\<rparr>, sample_shared))))"
proof -
  have pop: "pool_pop (ca_prefix sample_args) (sh_pool sample_shared) = (Some (replicate 32 3), [(0, [])])"
    by (simp add: pool_pop_def sample_args_def sample_shared_def hm_insert_def)
  show ?thesis
    using measure_lambda_drops_chunk [OF pop, where p = "sample_pacer\<lparr>pa_mirror := \<lparr>mi_balance = 460000, mi_reserved = 0\<rparr>\<rparr>"
        and t = 1350000 and target = "measure_target 1350000" and pp = "\<lambda>_ _. 230000" and h = render_root
        and net = "\<lambda>_. (None, PutOk, FlushOk)" and guards = "[]"]
    by (simp add: measure_target_def LAMBDA_PROBE_UNITS_def sample_shared_def store_contains_def pool_chunks_def
        try_reserve_def sat_add_def)
qed

text \<open>
  The prepaid surplus is carried from one connection to the next: what a prepaying connection
  has paid and not consumed is what the next connection to the peer starts with, and what it
  returns as residual is what it consumed and has not paid.
\<close>
theorem surplus_carried_over:
  assumes "run_established tools h pp f64 a inp e w = Some (v, w')" "ca_prepay a"
    and "prepare tools h pp (local_args a e) inp e w = (l, st, d)"
    and "drive_run tools h pp (local_args a e) (ei_passes inp) st = (Some r, st')"
    and "hm_wf (sh_pool (cw_shared w))" "prepaid_bounded tools h pp (local_args a e) (ei_passes inp) st"
    and "list_all (puts_ok \<circ> in_net) (ei_passes inp)"
  shows "int (unat (pa_prepaid (dv_pacer st'))) - int (unat (mi_balance (pa_mirror (dv_pacer st'))))
    = int (unat (pa_prepaid (new_pacer True (peerstate_get (es_overlay e) (fst (cw_peers w'))) e2))) - int (unat v)"
proof -
  obtain r1 st1 where "drive_run tools h pp (local_args a e) (ei_passes inp) st = (Some r1, st1)"
    and "(v, w') = conclude h f64 (local_args a e) inp e l r1 st1 w"
    by (rule run_established_cases [OF assms(1,3)])
  then have fin: "conclude h f64 (local_args a e) inp e l r st' w = (v, w')" using assms(4) by simp
  have "v = sat_sub (mi_balance (pa_mirror (dv_pacer st'))) (pa_prepaid (dv_pacer st'))"
    using conclude_parked(1) [OF fin] drive_run_spec [OF assms(4) _ assms(6,7)] prepare_spec [OF assms(3,5)]
    by (auto simp: drive_residual_def)
  moreover have "pa_prepaid (new_pacer True (peerstate_get (es_overlay e) (fst (cw_peers w'))) e2)
      = sat_sub (pa_prepaid (dv_pacer st')) (mi_balance (pa_mirror (dv_pacer st')))"
    using conclude_peer [OF fin] assms(2)
    by (simp add: new_pacer_def merge_observation_def observation_of_def local_args_def)
  ultimately show ?thesis by (simp only: unat_sat_sub)
qed

theorem surplus_carried_over_witness:
  "\<exists>v w' (st' :: drive_state). run_established sample_tools render_root (\<lambda>_ _. 1000) (\<lambda>_ _ _. 0) (sample_args\<lparr>ca_prepay := True\<rparr>)
      sample_run sample_peer sample_world = Some (v, w')
    \<and> int (unat (pa_prepaid (dv_pacer st'))) - int (unat (mi_balance (pa_mirror (dv_pacer st'))))
      = int (unat (pa_prepaid (new_pacer True (peerstate_get (es_overlay sample_peer) (fst (cw_peers w'))) sample_peer))) - int (unat v)"
proof -
  let ?a = "sample_args\<lparr>ca_prepay := True\<rparr>"
  let ?la = "local_args ?a sample_peer"
  let ?st = "drive_start (initial_prepay sample_tools ?la (sample_env\<lparr>ev_stream := []\<rparr>) 0
      (new_pacer True None sample_peer, sample_shared))"
  have prep: "prepare sample_tools render_root (\<lambda>_ _. 1000) ?la sample_run sample_peer sample_world = (None, ?st, None)"
    using sample_prepare [of render_root "\<lambda>_ _. 1000" ?a] by simp
  obtain r st' where d: "drive_run sample_tools render_root (\<lambda>_ _. 1000) ?la (ei_passes sample_run) ?st = (Some r, st')"
    unfolding sample_passes using dead_pass by blast
  obtain v w' where run: "run_established sample_tools render_root (\<lambda>_ _. 1000) (\<lambda>_ _ _. 0) ?a sample_run
      sample_peer sample_world = Some (v, w')"
    using run_established_returns [OF prep d] by blast
  have "pa_prepaid (dv_pacer ?st) = 0"
    by (simp add: drive_start_def initial_prepay_def new_pacer_def emit_prepay_no_headers)
  then have bounded: "prepaid_bounded sample_tools render_root (\<lambda>_ _. 1000) ?la (ei_passes sample_run) ?st"
    by (simp add: sample_run_def)
  have puts: "list_all (puts_ok \<circ> in_net) (ei_passes sample_run)"
    unfolding sample_passes by (rule dead_pass_puts)
  have "ca_prepay ?a" by simp
  from surplus_carried_over [OF run this prep d sample_world_wf bounded puts, of sample_peer] run show ?thesis by blast
qed

text \<open>
  The service rate of a connection is computed from the mirror's debt after the drive loop. On a
  connection without prepay that ends settled this debt is zero, so no rate is ever recorded for
  the peer, however many chunks it served.
\<close>
theorem postpaid_rate_never_recorded:
  assumes "drive_run tools h pp a inps (drive_start (p, sh)) = (Some 0, st')" "\<not> ca_prepay a" "postpaid p"
    and "\<And>c. unat (pp (ca_overlay a) c) < 2 ^ 58" "idle_ok (p, sh)"
    and "prepaid_bounded tools h pp a inps (drive_start (p, sh))" "list_all (puts_ok \<circ> in_net) inps"
  shows "po_service_cps_x10 (observation_of f64 a inp l 0 (dv_pacer st')) = None"
proof -
  have post: "postpaid (dv_pacer st')"
    by (rule drive_run_postpaid [OF assms(1) _ assms(2,4)]) (simp add: drive_start_def assms(3))
  have "drive_residual st' = 0"
    using drive_run_spec [OF assms(1) drive_start_ok [OF assms(5)] assms(6,7)] by auto
  then have "unat (mi_balance (pa_mirror (dv_pacer st'))) = 0"
    using post unat_sat_sub [of "mi_balance (pa_mirror (dv_pacer st'))" 0] by (simp add: drive_residual_def postpaid_def)
  then have "mi_balance (pa_mirror (dv_pacer st')) = 0" by (simp only: unat_eq_zero)
  then show ?thesis using post by (simp add: observation_of_def service_rate_zero postpaid_def)
qed

theorem postpaid_rate_never_recorded_witness:
  "\<exists>st'. drive_run sample_tools render_root (\<lambda>_ _. 1000) sample_args [sample_pass False] (drive_start (sample_pacer, sample_shared))
      = (Some 0, st') \<and> po_service_cps_x10 (observation_of (\<lambda>_ _ _. 0) sample_args sample_run None 0 (dv_pacer st')) = None"
proof -
  obtain st' where run: "drive_run sample_tools render_root (\<lambda>_ _. 1000) sample_args [sample_pass False]
      (drive_start (sample_pacer, sample_shared)) = (Some 0, st')"
    by (simp add: drive_iter_def sample_pass_def drive_start_def take_pending_def finish_tasks_def drive_residual_def
        sample_pacer_def mirror_default_def sat_sub_def Let_def)
  show ?thesis
    using postpaid_rate_never_recorded [OF run] run dead_pass_puts
    by (simp add: sample_args_def postpaid_def sample_pacer_def idle_ok_def mirror_default_def account.ok_def sample_shared_def
        hm_wf_def drive_start_def)
qed

end
