(* ===== verification/Issuer.thy ===== *)
theory Issuer
  imports Connection
begin

text \<open>
  What every operation that issues a cheque promises about the spend cap, as the interface the
  scheduler's and the growth measurement's loops rely on: a success leaves the counter within the
  cap, a failure leaves counter and ledger as they were.
\<close>

section \<open>Interface\<close>

locale cheque_issuer =
  fixes issue :: "'i \<Rightarrow> 's \<Rightarrow> (emit_error, unit) result \<times> 's"
    and spend :: "'s \<Rightarrow> spend_state" and cap :: "'s \<Rightarrow> u64"
  assumes issued_within: "issue i s = (Inr u, s') \<Longrightarrow> sp_issued (spend s') \<le> cap s"
    and refused_restores: "issue i s = (Inl e, s') \<Longrightarrow> spend s' = spend s"
    and cap_fixed: "cap (snd (issue i s)) = cap s"
begin

definition within :: "'s \<Rightarrow> bool" where
  "within s \<longleftrightarrow> sp_issued (spend s) \<le> cap s"

lemma issue_within:
  assumes "within s"
  shows "within (snd (issue i s))"
proof (cases "fst (issue i s)")
  case (Inl e)
  then show ?thesis
    using assms refused_restores [of i s e] cap_fixed [of i s] by (metis within_def prod.collapse)
next
  case (Inr u)
  then show ?thesis
    using issued_within [of i s u] cap_fixed [of i s] by (metis within_def prod.collapse)
qed

lemma issue_all_within: "within s \<Longrightarrow> within (fold (\<lambda>i s. snd (issue i s)) is s)"
  by (induction "is" arbitrary: s) (simp_all add: issue_within)

end

section \<open>The emission meets it\<close>

lemma emit_ok_within:
  assumes "emit_settlement_cheque tools e env s = (Inr r, s')"
  shows "sp_issued s' \<le> ce_max_issue_plur e"
proof (cases "ce_max_issue_plur e = - 1")
  case True
  then show ?thesis by simp
next
  case False
  from assms obtain before rate plur p128 p64 where am: "cheque_amount env (ce_debt_units e) = Inr (rate, plur, p128, p64)"
    and adm: "spend_admits (ce_max_issue_plur e) (sp_issued s) p64" and s': "sp_issued s' = sp_issued s + p64"
    by (auto simp: emit_settlement_cheque_def fetch_add_def Let_def split: sum.splits prod.splits if_splits)
  have "unat (ce_max_issue_plur e) < 2 ^ 64 - 1"
    using False u64_less [of "ce_max_issue_plur e"] word_unat_eq_iff [of "ce_max_issue_plur e" "- 1"]
    by (simp add: unat_minus_one_word)
  then have "unat (sp_issued s) + unat p64 \<le> unat (ce_max_issue_plur e)"
    using adm by (auto simp: spend_admits_def word_less_nat_alt unat_sat_add min_def split: if_splits)
  then show ?thesis
    using u64_less [of "ce_max_issue_plur e"] unat_add_no_overflow [of "sp_issued s" p64]
    by (simp add: s' word_le_nat_alt)
qed


lemma emit_ok_spends:
  assumes "emit_settlement_cheque tools e env s = (Inr (r, out), s')"
  shows "eo_plur r = ucast (eo_plur_u256 r)"
    "ce_max_issue_plur e \<noteq> - 1 \<Longrightarrow> unat (sp_issued s') = unat (sp_issued s) + unat (eo_plur_u256 r)"
proof -
  from assms obtain before rate plur p128 p64 where am: "cheque_amount env (ce_debt_units e) = Inr (rate, plur, p128, p64)"
    and adm: "spend_admits (ce_max_issue_plur e) (sp_issued s) p64" and s': "sp_issued s' = sp_issued s + p64"
    and r: "eo_plur r = p128" "eo_plur_u256 r = plur"
    by (auto simp: emit_settlement_cheque_def fetch_add_def Let_def split: sum.splits prod.splits if_splits)
  note ex = cheque_amount_exact [OF am]
  have "unat (ucast plur :: u128) = unat plur mod 2 ^ 128" by (simp add: unsigned_ucast_eq take_bit_eq_mod)
  moreover have "unat p128 < 2 ^ 128" using unsigned_less [of p128, where 'a = nat] by simp
  ultimately have "unat p128 = unat (ucast plur :: u128)" using ex by auto
  then show "eo_plur r = ucast (eo_plur_u256 r)" by (simp add: r word_unat_eq_iff)
  show "unat (sp_issued s') = unat (sp_issued s) + unat (eo_plur_u256 r)" if "ce_max_issue_plur e \<noteq> - 1"
  proof -
    have "unat (ce_max_issue_plur e) < 2 ^ 64 - 1"
      using that u64_less [of "ce_max_issue_plur e"] word_unat_eq_iff [of "ce_max_issue_plur e" "- 1"]
      by (simp add: unat_minus_one_word)
    then have "unat (sp_issued s) + unat p64 < 2 ^ 64 - 1"
      using adm by (auto simp: spend_admits_def word_less_nat_alt unat_sat_add min_def split: if_splits)
    moreover from this have "unat p64 = unat plur" using ex by (auto simp: min_def split: if_splits)
    ultimately show ?thesis using unat_add_no_overflow [of "sp_issued s" p64] by (simp add: s' r)
  qed
qed

interpretation postpay: cheque_issuer "\<lambda>(env, now, units). emit tools a env now units" "\<lambda>ps. sh_spend (snd ps)"
  "\<lambda>ps. ca_max_issue_plur a" for tools a
proof
  show "sp_issued (sh_spend (snd s')) \<le> ca_max_issue_plur a"
    if "(case i of (env, now, units) \<Rightarrow> emit tools a env now units) s = (Inr u, s')" for i s s' u
    using that
    by (auto simp: emit_def cheque_for_def count_cheque_def dest!: emit_ok_within split: prod.splits sum.splits)
  show "sh_spend (snd s') = sh_spend (snd s)"
    if "(case i of (env, now, units) \<Rightarrow> emit tools a env now units) s = (Inl e, s')" for i s s' e
    using that by (auto simp: emit_def dest!: emit_err_restores split: prod.splits sum.splits)
qed simp

interpretation prepay: cheque_issuer "\<lambda>(env, now, units). emit_prepay tools a env now units" "\<lambda>ps. sh_spend (snd ps)"
  "\<lambda>ps. ca_max_issue_plur a" for tools a
proof
  show "sp_issued (sh_spend (snd s')) \<le> ca_max_issue_plur a"
    if "(case i of (env, now, units) \<Rightarrow> emit_prepay tools a env now units) s = (Inr u, s')" for i s s' u
    using that
    by (auto simp: emit_prepay_def cheque_for_def count_cheque_def dest!: emit_ok_within split: prod.splits sum.splits)
  show "sh_spend (snd s') = sh_spend (snd s)"
    if "(case i of (env, now, units) \<Rightarrow> emit_prepay tools a env now units) s = (Inl e, s')" for i s s' e
    using that by (auto simp: emit_prepay_def dest!: emit_err_restores split: prod.splits sum.splits)
qed simp

section \<open>The drive loop stays within the cap\<close>

abbreviation capped :: "u64 \<Rightarrow> shared \<Rightarrow> bool" where
  "capped m sh \<equiv> sp_issued (sh_spend sh) \<le> m"

lemma emit_capped:
  assumes "emit tools a env now units (p, sh) = (r, p', sh')" "capped (ca_max_issue_plur a) sh"
  shows "capped (ca_max_issue_plur a) sh'"
  using postpay.issue_within [where tools = tools and a = a and s = "(p, sh)" and i = "(env, now, units)"] assms by (simp add: postpay.within_def)

lemma emit_prepay_capped:
  assumes "emit_prepay tools a env now units (p, sh) = (r, p', sh')" "capped (ca_max_issue_plur a) sh"
  shows "capped (ca_max_issue_plur a) sh'"
  using prepay.issue_within [where tools = tools and a = a and s = "(p, sh)" and i = "(env, now, units)"] assms by (simp add: prepay.within_def)

lemma finish_tasks_spend: "sh_spend (dv_shared (finish_tasks h net is st)) = sh_spend (dv_shared st)"
proof -
  have one: "sh_spend (dv_shared (finish_task h net i st)) = sh_spend (dv_shared st)" for i st
    by (auto simp: finish_task_def Let_def send_fallback_def split: prod.split option.split)
  show ?thesis by (induction "is" arbitrary: st) (simp_all add: finish_tasks_def one)
qed

lemma take_pending_spend: "sh_spend (dv_shared (take_pending st)) = sh_spend (dv_shared st)"
  by (simp add: take_pending_def send_fallback_def split: option.split)

text \<open>Of the shared state, admission touches the work pool only.\<close>

lemma next_chunk_frame:
  assumes "\<And>sh b. g (sh\<lparr>sh_pool := b\<rparr>) = g sh" "next_chunk a st = (r, st')"
  shows "g (dv_shared st') = g (dv_shared st)"
  using assms by (auto simp: next_chunk_def split: option.splits prod.splits)

lemma admit_loop_frame:
  assumes pool: "\<And>sh b. g (sh\<lparr>sh_pool := b\<rparr>) = g sh"
  shows "g (dv_shared (admit_loop pp a now st)) = g (dv_shared st)"
  by (induction rule: admit_loop_rule) (auto dest: next_chunk_frame [where g = g, OF pool])

lemmas admit_loop_spend = admit_loop_frame [where g = sh_spend, simplified]

lemma refresh_spend: "refresh acc now (p, sh) = (p', sh') \<Longrightarrow> sh_spend sh' = sh_spend sh"
  by (auto simp: refresh_def Let_def split: option.splits if_splits)

lemma drive_refresh_spend: "sh_spend (dv_shared (drive_refresh h inp st)) = sh_spend (dv_shared st)"
proof -
  obtain p sh where r: "refresh (in_refresh inp) (in_now inp) (dv_pacer st, dv_shared st) = (p, sh)" by force
  show ?thesis using refresh_spend [OF r] r by (simp add: drive_refresh_def finish_tasks_spend)
qed

lemma drive_prepay_capped:
  assumes "capped (ca_max_issue_plur a) (dv_shared st)"
  shows "capped (ca_max_issue_plur a) (dv_shared (drive_prepay tools h a inp st))"
proof -
  obtain r p sh where e: "emit_prepay tools a (in_env inp) (in_now inp)
      (prepay_target a st - pa_prepaid (dv_pacer st)) (dv_pacer st, dv_shared st) = (r, p, sh)"
    by (metis prod_cases3)
  show ?thesis
    using emit_prepay_capped [OF e assms] e assms by (simp add: drive_prepay_def Let_def finish_tasks_spend)
qed

lemma drive_cheque_capped:
  assumes "capped (ca_max_issue_plur a) (dv_shared st)" "drive_cheque tools h a inp halted st = (v, st')"
  shows "capped (ca_max_issue_plur a) (dv_shared st')"
proof -
  obtain r p sh where e: "emit tools a (in_env inp) (in_now inp) (drive_residual st) (dv_pacer st, dv_shared st) = (r, p, sh)"
    by (metis prod_cases3)
  show ?thesis
    using emit_capped [OF e assms(1)] e assms
    by (auto simp: drive_cheque_def Let_def finish_tasks_spend split: sum.splits if_splits)
qed

lemma drive_transition_shared: "dv_shared (snd (drive_transition halted st)) = dv_shared st"
  by (simp add: drive_transition_def Let_def)

lemma spend_check_shared: "dv_shared (spend_check a st) = dv_shared st"
  by (simp add: spend_check_def Let_def)

text \<open>A predicate that every block of a pass keeps is kept by the pass.\<close>

lemma drive_iter_closed:
  assumes it: "drive_iter tools h pp a inp st = (r, st')" and st: "Q st"
    and fin: "\<And>is st. Q st \<Longrightarrow> Q (finish_tasks h (in_net inp) is st)"
    and reap: "\<And>st. Q st \<Longrightarrow> Q (st\<lparr>dv_unreaped := 0\<rparr>)"
    and take: "\<And>st. Q st \<Longrightarrow> Q (take_pending st)"
    and check: "\<And>st. Q st \<Longrightarrow> Q (spend_check a st)"
    and adm: "\<And>st. Q st \<Longrightarrow> Q (admit_loop pp a (in_now inp) st)"
    and ref: "\<And>st. Q st \<Longrightarrow> Q (drive_refresh h inp st)"
    and pre: "\<And>st. Q st \<Longrightarrow> Q (drive_prepay tools h a inp st)"
    and chq: "\<And>b st v st1. Q st \<Longrightarrow> drive_cheque tools h a inp b st = (v, st1) \<Longrightarrow> Q st1"
    and tr: "\<And>b st. Q st \<Longrightarrow> Q (snd (drive_transition b st))"
  shows "Q st'"
proof (cases "in_alive inp")
  case False
  then show ?thesis using it st fin reap take by (auto simp: drive_iter_def Let_def)
next
  case True
  define hl where "hl = (dv_spend_stop (spend_check a st) \<or> in_wind_down inp)"
  define s2 where "s2 = (if hl then take_pending (spend_check a st) else spend_check a st)"
  define s3 where "s3 = (if dv_finishing s2 \<or> hl then s2 else admit_loop pp a (in_now inp) s2)"
  define s5 where "s5 = drive_refresh h inp ((finish_tasks h (in_net inp) (in_done_admitted inp) s3)\<lparr>dv_unreaped := 0\<rparr>)"
  have "Q s2" using st check take by (simp add: s2_def)
  then have "Q s3" using adm by (simp add: s3_def)
  then have s5: "Q s5" using fin reap ref by (simp add: s5_def)
  have body: "(if ca_prepay a \<and> \<not> dv_finishing s5 \<and> \<not> hl then drive_transition hl (drive_prepay tools h a inp s5)
      else case drive_cheque tools h a inp hl s5 of
             (Some r, s6) \<Rightarrow> (Some r, s6) | (None, s6) \<Rightarrow> drive_transition hl s6) = (r, st')"
    using it True by (simp only: drive_iter_def Let_def not_not if_False simp_thms hl_def s2_def s3_def s5_def)
  obtain v s6 where c: "drive_cheque tools h a inp hl s5 = (v, s6)" by force
  show ?thesis
    using body c chq [OF s5 c] tr [OF pre [OF s5], of hl] tr [OF chq [OF s5 c], of hl]
    by (cases v) (auto split: if_splits)
qed

lemma drive_iter_capped:
  assumes "drive_iter tools h pp a inp st = (r, st')" "capped (ca_max_issue_plur a) (dv_shared st)"
  shows "capped (ca_max_issue_plur a) (dv_shared st')"
  by (rule drive_iter_closed [where Q = "\<lambda>st. capped (ca_max_issue_plur a) (dv_shared st)", OF assms])
    (simp_all add: finish_tasks_spend take_pending_spend admit_loop_spend drive_refresh_spend spend_check_shared
      drive_transition_shared drive_prepay_capped drive_cheque_capped)

section \<open>So does the set-up of a connection\<close>

lemma measure_pass_spend:
  "measure_pass h pp net a t target ps = (go, ps', d) \<Longrightarrow> sh_spend (snd ps') = sh_spend (snd ps)"
  by (auto simp: measure_pass_def Let_def send_fallback_def split: prod.splits if_splits option.splits)

text \<open>A predicate that every step of the set-up keeps is kept by the set-up.\<close>

lemma measure_fetch_closed:
  assumes "measure_fetch pass gs ps = (ps', d)" "Q (snd ps)"
    and "\<And>ps go ps' d. pass ps = (go, ps', d) \<Longrightarrow> Q (snd ps) \<Longrightarrow> Q (snd ps')"
  shows "Q (snd ps')"
  using assms(1,2)
proof (induction gs arbitrary: ps)
  case (Cons alive gs)
  obtain go ps1 d1 where st: "pass ps = (go, ps1, d1)" by (metis prod_cases3)
  show ?case using Cons.IH [of ps1] Cons.prems st assms(3) [OF st] by (cases alive; cases go) auto
qed simp

lemma probe_loop_closed:
  assumes "probe_loop since timeout prs z ps = (l, ps')" "Q (snd ps)" "\<And>sh n. Q sh \<Longrightarrow> Q (sh\<lparr>sh_refresh_units := n\<rparr>)"
  shows "Q (snd ps')"
  using assms(1,2)
proof (induction prs arbitrary: z ps)
  case (Cons pr prs)
  have note_ok: "Q (snd (note_accepted n ps))" for n using Cons.prems(2) assms(3) by (simp add: note_accepted_def)
  show ?case
    using Cons.prems(1) Cons.IH [OF _ note_ok] Cons.IH [OF _ Cons.prems(2)] note_ok
    by (cases "(since, timeout, pr # prs, z, ps)" rule: probe_loop.cases) (auto simp: Let_def split: if_splits option.splits)
qed auto

lemma prepare_closed:
  assumes prep: "prepare tools h pp a inp e w = (l, st, d)" and Q: "Q (cw_shared w)"
    and pass: "\<And>t target ps go ps' d. measure_pass h pp (mu_net (ei_measure inp)) a t target ps = (go, ps', d) \<Longrightarrow>
        Q (snd ps) \<Longrightarrow> Q (snd ps')"
    and emit: "\<And>env now u p sh r p' sh'. emit tools a env now u (p, sh) = (r, p', sh') \<Longrightarrow> Q sh \<Longrightarrow> Q sh'"
    and prepay: "\<And>env now u p sh r p' sh'. emit_prepay tools a env now u (p, sh) = (r, p', sh') \<Longrightarrow> Q sh \<Longrightarrow> Q sh'"
    and units: "\<And>sh n. Q sh \<Longrightarrow> Q (sh\<lparr>sh_refresh_units := n\<rparr>)"
  shows "Q (dv_shared st)"
proof -
  let ?known = "peerstate_get (es_overlay e) (fst (cw_peers w))"
  let ?p = "new_pacer (ca_prepay a) ?known e"
  let ?i = "ei_measure inp"
  let ?t = "threshold ?p"
  let ?m = "if Option.bind ?known ps_lambda_ms = None \<and> ei_measure_lambda inp \<and> \<not> ca_prepay a
             then measure_lambda tools h pp a ?i (?p, cw_shared w) else (None, ?p, cw_shared w, None)"
  obtain p1 sh1 where m: "?m = (l, p1, sh1, d)" using prep by (auto simp: prepare_def Let_def split: prod.splits)
  obtain p2 sh2 d2 where f: "measure_fetch (measure_pass h pp (mu_net ?i) a ?t (measure_target ?t)) (mu_guards ?i) (?p, cw_shared w)
      = ((p2, sh2), d2)" by (metis prod.collapse)
  have q2: "Q sh2" using measure_fetch_closed [where Q = Q, OF f _ pass] Q by simp
  obtain r p3 sh3 where em: "emit tools a (mu_env ?i) (mu_now ?i) (mi_balance (pa_mirror p2)) (p2, sh2) = (r, p3, sh3)"
    by (metis prod_cases3)
  have q3: "Q sh3" by (rule emit [OF em q2])
  obtain l4 p4 sh4 where pl: "probe_loop (mu_now ?i) (mu_timeout ?i) (map probe_answer (mu_probes ?i)) None (p3, sh3)
      = (l4, p4, sh4)" by (metis prod_cases3)
  have q4: "Q sh4" using probe_loop_closed [where Q = Q, OF pl _ units] q3 by simp
  have q1: "Q sh1"
    using m f em pl Q q2 q3 q4
    by (cases "mi_balance (pa_mirror p2) < LAMBDA_PROBE_UNITS * 4"; cases r)
      (auto simp: measure_lambda_def Let_def split: if_splits)
  let ?q = "case l of Some l \<Rightarrow> p1\<lparr>pa_lambda_ms := l\<rparr> | None \<Rightarrow> p1"
  obtain r5 p5 sh5 where pr: "emit_prepay tools a (ei_prepay_env inp) (ei_prepay_now inp) (250 * 230000) (?q, sh1) = (r5, p5, sh5)"
    by (metis prod_cases3)
  have "dv_shared st = snd (initial_prepay tools a (ei_prepay_env inp) (ei_prepay_now inp) (?q, sh1))"
    using prep m by (auto simp: prepare_def Let_def drive_start_def split: prod.splits)
  then show ?thesis using prepay [OF pr q1] pr q1 by (auto simp: initial_prepay_def)
qed

lemma prepare_capped:
  assumes "prepare tools h pp a inp e w = (l, st, d)" "capped (ca_max_issue_plur a) (cw_shared w)"
  shows "capped (ca_max_issue_plur a) (dv_shared st)"
  using assms
proof (rule prepare_closed)
  show "capped (ca_max_issue_plur a) (snd ps')"
    if "measure_pass h pp (mu_net (ei_measure inp)) a t target ps = (go, ps', d)" "capped (ca_max_issue_plur a) (snd ps)"
    for t target ps go ps' d
    using that measure_pass_spend [OF that(1)] by simp
qed (auto intro: emit_capped emit_prepay_capped)

end
