(* ===== verification/Schedule.thy ===== *)
theory Schedule
  imports Issuer
begin

text \<open>
  A whole scheduled fetch (\<^verbatim>\<open>fetch_scheduled\<close> of \<^verbatim>\<open>rust/ds-net/src/schedule.rs\<close>): the resume filter,
  storer selection and routing, the rolling window of connections, the fallback worker, the stall
  detector, the final drain and the report. Connections run concurrently over shared state: a step
  of \<open>fetch_step\<close> is one dial, one set-up, one pass of one connection's drive loop or one step of the
  fallback worker, in any order.
\<close>

section \<open>Options and state\<close>

record schedule_options =
  so_depth :: nat
  so_direct_only :: bool
  so_redundancy :: nat
  so_connections :: nat
  so_start_depth :: nat
  so_prepay :: bool
  so_measure_lambda :: bool
  so_max_issue_plur :: u64
  so_stall_exit :: bool
  so_parking :: bool

datatype conn_state = Dialing "parked_conn option" | Running established "u64 option" drive_state

type_synonym 'm slot = "'m selected \<times> u64 \<times> conn_state"

record 'm fetch_state =
  fs_world :: conn_world
  fs_dispatch :: "'m dispatch"
  fs_slots :: "'m slot list"
  fs_residual :: u64
  fs_wind_down :: bool
  fs_drained :: bool
  fs_dropped :: nat
  fs_fb_active :: "swarm_address list"
  fs_fb_fails :: "swarm_address list"
  fs_fb_bytes :: u64
  fs_fb_count :: u64
  fs_lost :: "swarm_address list"

abbreviation fs_shared :: "'m fetch_state \<Rightarrow> shared" where
  "fs_shared s \<equiv> cw_shared (fs_world s)"

abbreviation with_shared :: "shared \<Rightarrow> 'm fetch_state \<Rightarrow> 'm fetch_state" where
  "with_shared sh s \<equiv> s\<lparr>fs_world := (fs_world s)\<lparr>cw_shared := sh\<rparr>\<rparr>"

section \<open>Start of a fetch\<close>

datatype fetch_error = NoStorerCovers | NoConnection

definition needed_chunks :: "swarm_address list \<Rightarrow> store_inner \<Rightarrow> swarm_address list" where
  "needed_chunks addrs store = filter (\<lambda>a. \<not> store_contains a store) addrs"

text \<open>The counters of a fetch start at zero; store, ledger, peer states and parked connections come from outside.\<close>

definition fresh_world :: "conn_world \<Rightarrow> conn_world" where
  "fresh_world w = w\<lparr>cw_opened := 0, cw_zero_confirmed := 0, cw_lambdas_measured := 0, cw_surplus_parked := 0,
     cw_shared := (cw_shared w)\<lparr>sh_spend := (sh_spend (cw_shared w))\<lparr>sp_issued := 0\<rparr>, sh_direct_bytes := 0, sh_direct_ok := 0,
       sh_cheques := 0, sh_cheque_plur := 0, sh_refresh_units := 0\<rparr>\<rparr>"

definition fetch_init ::
  "(string \<Rightarrow> 'm option) \<Rightarrow> schedule_options \<Rightarrow> topology_cache \<Rightarrow> swarm_address list \<Rightarrow> conn_world \<Rightarrow>
   (fetch_error, 'm fetch_state) result" where
  "fetch_init parse_multiaddr opts cache needed w =
     (let selected = select_storers parse_multiaddr cache needed (so_depth opts) (max (so_redundancy opts) 1) (fst (cw_peers w))
      in if selected = [] \<and> so_direct_only opts then Inl NoStorerCovers
         else let r = route (so_depth opts) (hm_keys selected) (so_direct_only opts) needed;
                  w0 = fresh_world w
              in Inr \<lparr>fs_world = w0\<lparr>cw_shared := (cw_shared w0)\<lparr>sh_pool := rt_buckets r, sh_fallback := rt_fallback r\<rparr>\<rparr>,
                      fs_dispatch = dispatch_new selected, fs_slots = [], fs_residual = 0, fs_wind_down = False,
                      fs_drained = False, fs_dropped = rt_dropped r, fs_fb_active = [], fs_fb_fails = [],
                      fs_fb_bytes = 0, fs_fb_count = 0, fs_lost = []\<rparr>)"

text \<open>Chunks the store holds are skipped; a fetch with none left ends at once, with \<open>None\<close>.\<close>

definition fetch_begin ::
  "(string \<Rightarrow> 'm option) \<Rightarrow> schedule_options \<Rightarrow> topology_cache \<Rightarrow> swarm_address list \<Rightarrow> conn_world \<Rightarrow>
   (fetch_error, 'm fetch_state option) result" where
  "fetch_begin parse_multiaddr opts cache chunk_addrs w =
     (let needed = needed_chunks chunk_addrs (fst (sh_store (cw_shared w)))
      in if needed = [] then Inr None
         else case fetch_init parse_multiaddr opts cache needed w of Inl e \<Rightarrow> Inl e | Inr s \<Rightarrow> Inr (Some s))"

definition make_args :: "schedule_options \<Rightarrow> U256 \<Rightarrow> 'm selected \<Rightarrow> conn_args" where
  "make_args opts issuable storer =
     \<lparr>ca_overlay = se_overlay storer, ca_prefix = se_prefix storer, ca_beneficiary = [], ca_issuable = issuable,
      ca_max_issue_plur = so_max_issue_plur opts, ca_pipeline = clamp (so_start_depth opts) 1 32,
      ca_prepay = so_prepay opts\<rparr>"

section \<open>Steps\<close>

definition remove_at :: "nat \<Rightarrow> 'a list \<Rightarrow> 'a list" where
  "remove_at i xs = take i xs @ drop (Suc i) xs"

definition close_slot :: "nat \<Rightarrow> u64 \<Rightarrow> 'm fetch_state \<Rightarrow> 'm fetch_state" where
  "close_slot i residual s =
     (case fs_slots s ! i of (sel, rate, _) \<Rightarrow>
        s\<lparr>fs_slots := remove_at i (fs_slots s), fs_residual := fs_residual s + residual,
          fs_dispatch := dispatch_done (se_prefix sel) rate (fs_dispatch s)\<rparr>)"

definition fallback_recv :: "'m fetch_state \<Rightarrow> 'm fetch_state" where
  "fallback_recv s =
     (case sh_fallback (fs_shared s) of
        [] \<Rightarrow> s
      | x # rest \<Rightarrow>
          let s1 = with_shared ((fs_shared s)\<lparr>sh_fallback := rest\<rparr>) s
          in if store_contains x (fst (sh_store (fs_shared s))) then s1
             else s1\<lparr>fs_fb_active := fs_fb_active s1 @ [x]\<rparr>)"

definition fallback_end :: "(bytes \<Rightarrow> string) \<Rightarrow> net_outcome \<Rightarrow> nat \<Rightarrow> 'm fetch_state \<Rightarrow> 'm fetch_state" where
  "fallback_end henc outcome i s =
     (let x = fs_fb_active s ! i; s1 = s\<lparr>fs_fb_active := remove_at i (fs_fb_active s)\<rparr>
      in case outcome of
           (Some wire, pf, ff) \<Rightarrow>
             with_shared ((fs_shared s1)\<lparr>sh_store := snd (store_put pf ff henc x wire (sh_store (fs_shared s1)))\<rparr>)
               (s1\<lparr>fs_fb_bytes := fs_fb_bytes s1 + of_nat (length wire), fs_fb_count := fs_fb_count s1 + 1\<rparr>)
         | (None, _, _) \<Rightarrow> s1\<lparr>fs_fb_fails := fs_fb_fails s1 @ [x]\<rparr>)"

definition drain_pool :: "bool \<Rightarrow> 'm fetch_state \<Rightarrow> 'm fetch_state" where
  "drain_pool direct_only s =
     (case drain_all (sh_pool (fs_shared s)) of
        (stranded, b) \<Rightarrow>
          if direct_only then
            (with_shared ((fs_shared s)\<lparr>sh_pool := b\<rparr>) s)\<lparr>fs_dropped := fs_dropped s + length stranded, fs_drained := True\<rparr>
          else (with_shared ((fs_shared s)\<lparr>sh_pool := b, sh_fallback := sh_fallback (fs_shared s) @ stranded\<rparr>) s)
                 \<lparr>fs_drained := True\<rparr>)"

text \<open>
  The steps. A dial fills a free slot with the dispatcher's choice and takes a parked connection if
  there is a live one. \<open>nets\<close> is the set of answers the network and the disk may give and \<open>bound\<close> a
  bound on the units prepaid to one peer: with \<open>nets = UNIV\<close> and \<open>bound = 2\<^sup>6\<^sup>4\<close> neither restricts the
  runs, and a theorem that needs successful store writes says so of \<open>nets\<close>. \<open>fs_lost\<close> collects the
  chunks dropped by latency measurements.
\<close>

inductive fetch_step ::
  "(swarm_address \<Rightarrow> net_outcome) set \<Rightarrow> nat \<Rightarrow> cheque_tools \<Rightarrow> (bytes \<Rightarrow> string) \<Rightarrow> (swarm_address \<Rightarrow> swarm_address \<Rightarrow> u64) \<Rightarrow>
   (u64 \<Rightarrow> u32 \<Rightarrow> nat \<Rightarrow> u32) \<Rightarrow> schedule_options \<Rightarrow> U256 \<Rightarrow> 'm fetch_state \<Rightarrow> 'm fetch_state \<Rightarrow> bool"
  for nets bound tools henc peer_price f64_rate opts issuable where
  dial_slot: "length (fs_slots s) < max (so_connections opts) 1 \<Longrightarrow> \<not> fs_wind_down s \<Longrightarrow> \<not> fs_drained s \<Longrightarrow>
     dispatch_next (sh_pool (fs_shared s)) (fs_dispatch s) = (Some (sel, rate), di) \<Longrightarrow>
     take_warm (se_overlay sel) (fs_world s) = (warm, w) \<Longrightarrow>
     fetch_step nets bound tools henc peer_price f64_rate opts issuable s
       (s\<lparr>fs_dispatch := di, fs_world := w, fs_slots := fs_slots s @ [(sel, rate, Dialing warm)]\<rparr>)"
| refused: "i < length (fs_slots s) \<Longrightarrow> fs_slots s ! i = (sel, rate, Dialing warm) \<Longrightarrow>
     connect warm (se_overlay sel) outcome = None \<Longrightarrow>
     fetch_step nets bound tools henc peer_price f64_rate opts issuable s (close_slot i 0 s)"
| opened: "i < length (fs_slots s) \<Longrightarrow> fs_slots s ! i = (sel, rate, Dialing warm) \<Longrightarrow>
     connect warm (se_overlay sel) outcome = Some e \<Longrightarrow>
     ei_measure_lambda inp = so_measure_lambda opts \<Longrightarrow> mu_net (ei_measure inp) \<in> nets \<Longrightarrow>
     w = (fs_world s)\<lparr>cw_opened := cw_opened (fs_world s) + 1\<rparr> \<Longrightarrow>
     prepare tools henc peer_price (local_args (make_args opts issuable sel) e) inp e w = (l, st, d) \<Longrightarrow>
     fetch_step nets bound tools henc peer_price f64_rate opts issuable s
       (s\<lparr>fs_world := w\<lparr>cw_shared := dv_shared st\<rparr>, fs_slots := (fs_slots s)[i := (sel, rate, Running e l st)],
          fs_lost := (case d of None \<Rightarrow> fs_lost s | Some x \<Rightarrow> x # fs_lost s)\<rparr>)"
| pass: "i < length (fs_slots s) \<Longrightarrow> fs_slots s ! i = (sel, rate, Running e l st) \<Longrightarrow>
     in_wind_down inp = fs_wind_down s \<Longrightarrow> in_net inp \<in> nets \<Longrightarrow> unat (pa_prepaid (dv_pacer st)) < bound \<Longrightarrow>
     drive_iter tools henc peer_price (local_args (make_args opts issuable sel) e) inp (st\<lparr>dv_shared := fs_shared s\<rparr>)
       = (None, st') \<Longrightarrow>
     fetch_step nets bound tools henc peer_price f64_rate opts issuable s
       ((with_shared (dv_shared st') s)\<lparr>fs_slots := (fs_slots s)[i := (sel, rate, Running e l st')]\<rparr>)"
| last_pass: "i < length (fs_slots s) \<Longrightarrow> fs_slots s ! i = (sel, rate, Running e l st) \<Longrightarrow>
     in_wind_down inp = fs_wind_down s \<Longrightarrow> in_net inp \<in> nets \<Longrightarrow> unat (pa_prepaid (dv_pacer st)) < bound \<Longrightarrow>
     drive_iter tools henc peer_price (local_args (make_args opts issuable sel) e) inp (st\<lparr>dv_shared := fs_shared s\<rparr>)
       = (Some r, st') \<Longrightarrow>
     ei_parking ei = so_parking opts \<Longrightarrow>
     conclude henc f64_rate (local_args (make_args opts issuable sel) e) ei e l r st' (fs_world s) = (v, w') \<Longrightarrow>
     fetch_step nets bound tools henc peer_price f64_rate opts issuable s (close_slot i v (s\<lparr>fs_world := w'\<rparr>))"
| fb_recv: "length (fs_fb_active s) < 8 \<Longrightarrow>
     fetch_step nets bound tools henc peer_price f64_rate opts issuable s (fallback_recv s)"
| fb_end: "i < length (fs_fb_active s) \<Longrightarrow> net \<in> nets \<Longrightarrow> outcome = net (fs_fb_active s ! i) \<Longrightarrow>
     fetch_step nets bound tools henc peer_price f64_rate opts issuable s (fallback_end henc outcome i s)"
| stall: "so_stall_exit opts \<Longrightarrow>
     fetch_step nets bound tools henc peer_price f64_rate opts issuable s (s\<lparr>fs_wind_down := True\<rparr>)"
| drain: "fs_slots s = [] \<Longrightarrow> \<not> fs_drained s \<Longrightarrow>
     fs_wind_down s \<or> fst (dispatch_next (sh_pool (fs_shared s)) (fs_dispatch s)) = None \<Longrightarrow>
     fetch_step nets bound tools henc peer_price f64_rate opts issuable s (drain_pool (so_direct_only opts) s)"

definition finished :: "'m fetch_state \<Rightarrow> bool" where
  "finished s \<longleftrightarrow> fs_drained s \<and> fs_slots s = [] \<and> sh_fallback (fs_shared s) = [] \<and> fs_fb_active s = []"

section \<open>Report and stall detector\<close>

text \<open>At the end the store's index and the ledger are flushed; only the store's error is returned.\<close>

definition fetch_finish ::
  "flush_fault \<Rightarrow> io_fault \<Rightarrow> (bytes \<Rightarrow> string) \<Rightarrow> (U256 \<Rightarrow> string) \<Rightarrow> disk \<Rightarrow> 'm fetch_state \<Rightarrow>
   (store_error, 'm fetch_state \<times> disk) result" where
  "fetch_finish store_fault ledger_fault henc u256_show d s =
     (let sh = fs_shared s in
      case store_flush store_fault henc (sh_store sh) of
        (Inl e, _) \<Rightarrow> Inl e
      | (Inr _, st) \<Rightarrow>
          (case flush ledger_fault u256_show (sp_ledger (sh_spend sh), d) of
             (_, l, d1) \<Rightarrow> Inr (with_shared (sh\<lparr>sh_store := st, sh_spend := (sh_spend sh)\<lparr>sp_ledger := l\<rparr>\<rparr>) s, d1)))"

record schedule_report =
  sr_connections_opened :: u64
  sr_chunks_total :: nat
  sr_chunks_from_direct :: u64
  sr_chunks_from_fallback :: u64
  sr_chunks_dropped_uncovered :: u64
  sr_chunks_failed :: u64
  sr_direct_bytes :: u64
  sr_fallback_bytes :: u64
  sr_cheques_issued :: u64
  sr_cheque_plur :: u128
  sr_refresh_units :: u64
  sr_residual_debt_units :: u64
  sr_surplus_parked_units :: u64
  sr_zero_confirmed_conns :: u64
  sr_lambdas_measured :: u64
  sr_errors :: "swarm_address list"

definition schedule_report_of :: "nat \<Rightarrow> nat \<Rightarrow> bool \<Rightarrow> 'm fetch_state \<Rightarrow> (fetch_error, schedule_report) result" where
  "schedule_report_of n_total needed selected_was_empty s =
     (let w = fs_world s; sh = cw_shared w; dropped = of_nat (fs_dropped s);
          rep = \<lparr>sr_connections_opened = cw_opened w, sr_chunks_total = n_total,
            sr_chunks_from_direct = sh_direct_ok sh, sr_chunks_from_fallback = fs_fb_count s,
            sr_chunks_dropped_uncovered = dropped,
            sr_chunks_failed = sat_sub (sat_sub (of_nat needed) (sh_direct_ok sh + fs_fb_count s)) dropped,
            sr_direct_bytes = sh_direct_bytes sh, sr_fallback_bytes = fs_fb_bytes s,
            sr_cheques_issued = sh_cheques sh, sr_cheque_plur = ucast (sh_cheque_plur sh),
            sr_refresh_units = sh_refresh_units sh, sr_residual_debt_units = fs_residual s,
            sr_surplus_parked_units = cw_surplus_parked w, sr_zero_confirmed_conns = cw_zero_confirmed w,
            sr_lambdas_measured = cw_lambdas_measured w, sr_errors = fs_fb_fails s\<rparr>
      in if cw_opened w = 0 \<and> \<not> selected_was_empty then Inl NoConnection else Inr rep)"

text \<open>One tick of the sampler: the last two samples, the wind-down flag, the sample and the elapsed seconds.\<close>

definition sampler_tick :: "bool \<Rightarrow> nat \<Rightarrow> u64 \<Rightarrow> (u64 \<times> u64) \<times> bool \<Rightarrow> (u64 \<times> u64) \<times> bool" where
  "sampler_tick stall_exit elapsed_s now pw =
     (case pw of ((prev0, prev1), wind) \<Rightarrow>
        ((prev1, now), wind \<or> (stall_exit \<and> 90 \<le> elapsed_s \<and> sat_sub now prev0 < 20)))"

section \<open>Accounting for chunks\<close>

definition held :: "swarm_address \<Rightarrow> conn_state \<Rightarrow> bool" where
  "held x c \<longleftrightarrow> (case c of Dialing _ \<Rightarrow> False
     | Running e l st \<Rightarrow> x \<in> fst ` set (dv_tasks st) \<or> dv_pending st = Some x)"

definition local_ok :: "conn_state \<Rightarrow> bool" where
  "local_ok c \<longleftrightarrow> (case c of Dialing _ \<Rightarrow> True
     | Running e l st \<Rightarrow> account.ok (2 ^ 64 - 2) (pa_mirror (dv_pacer st)) (mset (map snd (dv_tasks st)))
         \<and> (dv_finishing st \<longrightarrow> dv_tasks st = [] \<and> dv_pending st = None))"

definition fetch_inv :: "'m fetch_state \<Rightarrow> bool" where
  "fetch_inv s \<longleftrightarrow> hm_wf (sh_pool (fs_shared s)) \<and> (\<forall>y \<in> set (fs_slots s). local_ok (snd (snd y)))"

definition accounted :: "swarm_address \<Rightarrow> 'm fetch_state \<Rightarrow> bool" where
  "accounted x s \<longleftrightarrow> safe x (fs_shared s) \<or> (\<exists>y \<in> set (fs_slots s). held x (snd (snd y)))
     \<or> x \<in> set (fs_fb_active s) \<or> x \<in> set (fs_fb_fails s) \<or> x \<in> set (fs_lost s)"

lemma drive_ok_shared:
  "drive_ok (st\<lparr>dv_shared := sh\<rparr>) \<longleftrightarrow> local_ok (Running e l st) \<and> hm_wf (sh_pool sh)"
  "drive_ok st \<longleftrightarrow> local_ok (Running e l st) \<and> hm_wf (sh_pool (dv_shared st))"
  by (auto simp: drive_ok_def local_ok_def)

lemma kept_shared:
  "kept x (st\<lparr>dv_shared := sh\<rparr>) \<longleftrightarrow> held x (Running e l st) \<or> safe x sh"
  "kept x st \<longleftrightarrow> held x (Running e l st) \<or> safe x (dv_shared st)"
  by (auto simp: kept_def held_def safe_def)

lemma mem_list_update: "y \<in> set xs \<Longrightarrow> y \<in> set (xs[i := v]) \<or> y = xs ! i"
  by (metis in_set_conv_nth length_list_update nth_list_update_neq)

lemma mem_remove_at: "y \<in> set xs \<Longrightarrow> i < length xs \<Longrightarrow> y \<in> set (remove_at i xs) \<or> y = xs ! i"
  by (metis remove_at_def UnCI Un_iff id_take_nth_drop set_ConsD set_append)

lemma remove_at_subset: "set (remove_at i xs) \<subseteq> set xs"
  by (auto simp: remove_at_def dest: in_set_takeD in_set_dropD)

lemma slots_update_inv:
  assumes "\<forall>y \<in> set xs. local_ok (snd (snd y))" "local_ok c'"
  shows "\<forall>y \<in> set (xs[i := (sel', rate', c')]). local_ok (snd (snd y))"
  using assms set_update_subset_insert [of xs i "(sel', rate', c')"] by auto


lemma fetch_inv_shared: "fetch_inv s \<Longrightarrow> hm_wf (sh_pool sh) \<Longrightarrow> fetch_inv (with_shared sh s)"
  by (simp add: fetch_inv_def)

lemma close_slot_spec:
  assumes "i < length (fs_slots s)" "fs_slots s ! i = (sel, rate, c)" "\<not> held x c" "fetch_inv s"
  shows "fetch_inv (close_slot i v s) \<and> (accounted x s \<longrightarrow> accounted x (close_slot i v s))"
proof -
  have "fetch_inv (close_slot i v s)"
    using assms(2,4) remove_at_subset [of i "fs_slots s"] by (auto simp: fetch_inv_def close_slot_def)
  moreover have "accounted x s \<longrightarrow> accounted x (close_slot i v s)"
    using assms(1-3) mem_remove_at [OF _ assms(1)] by (fastforce simp: accounted_def close_slot_def)
  ultimately show ?thesis by blast
qed

lemma slot_step_spec:
  assumes "i < length (fs_slots s)" "fs_slots s ! i = (sel, rate, c)" "fetch_inv s"
    and "local_ok c'" "hm_wf (sh_pool sh')" "cw_shared w' = sh'" "set (fs_lost s) \<subseteq> set lost"
    and "held x c \<or> safe x (fs_shared s) \<Longrightarrow> held x c' \<or> safe x sh' \<or> x \<in> set lost"
  defines "s' \<equiv> s\<lparr>fs_world := w', fs_slots := (fs_slots s)[i := (sel, rate, c')], fs_lost := lost\<rparr>"
  shows "fetch_inv s' \<and> (accounted x s \<longrightarrow> accounted x s')"
proof -
  have new: "(sel, rate, c') \<in> set ((fs_slots s)[i := (sel, rate, c')])"
    using assms(1) by (rule set_update_memI)
  have "fetch_inv s'"
    using assms(3-6) slots_update_inv [of "fs_slots s" c'] by (auto simp: fetch_inv_def s'_def)
  moreover have "accounted x s'" if acc: "accounted x s"
  proof (cases "held x c \<or> safe x (fs_shared s)")
    case True
    then show ?thesis using assms(8) bexI [OF _ new, of "\<lambda>y. held x (snd (snd y))"] assms(6) by (auto simp: accounted_def s'_def)
  next
    case False
    with acc consider y where "y \<in> set (fs_slots s)" "held x (snd (snd y))" "y \<noteq> fs_slots s ! i"
      | "x \<in> set (fs_fb_active s) \<or> x \<in> set (fs_fb_fails s) \<or> x \<in> set (fs_lost s)"
      using assms(2) by (fastforce simp: accounted_def)
    then show ?thesis
    proof cases
      case 1
      then have "y \<in> set ((fs_slots s)[i := (sel, rate, c')])" using mem_list_update by metis
      with 1 show ?thesis by (auto simp: accounted_def s'_def)
    next
      case 2
      then show ?thesis using assms(7) by (auto simp: accounted_def s'_def)
    qed
  qed
  ultimately show ?thesis by blast
qed

lemma fallback_recv_spec:
  assumes "fetch_inv s"
  shows "fetch_inv (fallback_recv s) \<and> (accounted x s \<longrightarrow> accounted x (fallback_recv s))"
  using assms
  by (auto simp: fallback_recv_def Let_def fetch_inv_def accounted_def safe_def split: list.split)

lemma fallback_end_spec:
  assumes "fetch_inv s" "i < length (fs_fb_active s)" "puts_ok (\<lambda>_. outcome)"
  shows "fetch_inv (fallback_end h outcome i s) \<and> (accounted x s \<longrightarrow> accounted x (fallback_end h outcome i s))"
proof -
  obtain od pf ff where o: "outcome = (od, pf, ff)" by (metis prod_cases3)
  show ?thesis
  proof (cases od)
    case None
    then show ?thesis
      using assms(1) mem_remove_at [OF _ assms(2), of x] o
      by (auto simp: fallback_end_def Let_def fetch_inv_def accounted_def)
  next
    case (Some wire)
    let ?y = "fs_fb_active s ! i"
    let ?st = "snd (store_put pf ff h ?y wire (sh_store (fs_shared s)))"
    have put: "pf = PutOk" "length wire < 2 ^ 32" using assms(3) o Some by (auto simp: puts_ok_def)
    have "store_contains ?y (fst ?st)" using store_put_contains [OF put(2)] put(1) by simp
    moreover have "store_contains x (fst (sh_store (fs_shared s))) \<Longrightarrow> store_contains x (fst ?st)"
      by (rule store_put_contains_mono)
    ultimately show ?thesis
      using assms(1) mem_remove_at [OF _ assms(2), of x] o Some
      by (auto simp: fallback_end_def Let_def fetch_inv_def accounted_def safe_def)
  qed
qed

lemma drain_pool_spec:
  assumes "fetch_inv s"
  shows "fetch_inv (drain_pool only s) \<and> (\<not> only \<longrightarrow> accounted x s \<longrightarrow> accounted x (drain_pool only s))"
proof -
  obtain xs b where d: "drain_all (sh_pool (fs_shared s)) = (xs, b)" by force
  then have "mset xs = pool_chunks (sh_pool (fs_shared s))" "hm_wf b"
    using drain_all_chunks by (auto simp: drain_all_def hm_wf_def)
  then have "x \<in># pool_chunks (sh_pool (fs_shared s)) \<longleftrightarrow> x \<in> set xs" by (metis set_mset_mset)
  then show ?thesis
    using assms d \<open>hm_wf b\<close> by (auto simp: drain_pool_def fetch_inv_def accounted_def safe_def)
qed

lemma take_warm_shared: "take_warm ov w = (k, w') \<Longrightarrow> cw_shared w' = cw_shared w"
  by (auto simp: take_warm_def split: option.splits)

lemma fetch_step_inv:
  assumes "fetch_step nets bound tools h pp f64 opts iss s s'" "fetch_inv s" "\<forall>net \<in> nets. puts_ok net" "bound \<le> 2 ^ 63"
  shows "fetch_inv s' \<and> (\<not> so_direct_only opts \<longrightarrow> accounted x s \<longrightarrow> accounted x s')"
  using assms
proof (induction rule: fetch_step.induct)
  case (dial_slot s sel rate di warm w)
  then show ?case
    using take_warm_shared [of "se_overlay sel" "fs_world s" warm w]
    by (auto simp: fetch_inv_def accounted_def local_ok_def)
next
  case (refused i s sel rate warm outcome)
  then show ?case using close_slot_spec [of i s sel rate "Dialing warm" x 0] by (simp add: held_def)
next
  case (opened i s sel rate warm outcome e inp w l st d)
  have wf: "hm_wf (sh_pool (cw_shared w))" using opened by (simp add: fetch_inv_def)
  note pre = prepare_spec [OF opened.hyps(7) wf, of x]
  show ?case
  proof -
    have "fetch_inv (s\<lparr>fs_world := w\<lparr>cw_shared := dv_shared st\<rparr>, fs_slots := (fs_slots s)[i := (sel, rate, Running e l st)],
          fs_lost := (case d of None \<Rightarrow> fs_lost s | Some x \<Rightarrow> x # fs_lost s)\<rparr>) \<and>
      (accounted x s \<longrightarrow> accounted x (s\<lparr>fs_world := w\<lparr>cw_shared := dv_shared st\<rparr>,
          fs_slots := (fs_slots s)[i := (sel, rate, Running e l st)],
          fs_lost := (case d of None \<Rightarrow> fs_lost s | Some x \<Rightarrow> x # fs_lost s)\<rparr>))"
      using opened pre
      by (intro slot_step_spec [where c = "Dialing warm" and sh' = "dv_shared st"])
        (auto simp: drive_ok_shared(2) [where st = st and e = e and l = l] kept_shared(2) [where st = st and e = e and l = l] held_def split: option.splits)
    then show ?thesis by blast
  qed
next
  case (pass i s sel rate e l st inp st')
  have ok: "drive_ok (st\<lparr>dv_shared := fs_shared s\<rparr>)"
    using pass by (auto simp: drive_ok_shared(1) [where st = st and e = e and l = l] fetch_inv_def dest!: nth_mem)
  note spec = drive_iter_spec [OF pass.hyps(6) ok]
  have "fetch_inv (s\<lparr>fs_world := (fs_world s)\<lparr>cw_shared := dv_shared st'\<rparr>,
      fs_slots := (fs_slots s)[i := (sel, rate, Running e l st')], fs_lost := fs_lost s\<rparr>) \<and>
    (accounted x s \<longrightarrow> accounted x (s\<lparr>fs_world := (fs_world s)\<lparr>cw_shared := dv_shared st'\<rparr>,
      fs_slots := (fs_slots s)[i := (sel, rate, Running e l st')], fs_lost := fs_lost s\<rparr>))"
    using pass.hyps pass.prems spec ok
    by (intro slot_step_spec [where c = "Running e l st" and sh' = "dv_shared st'"])
      (auto simp: drive_ok_shared(2) [where st = st' and e = e and l = l] kept_shared(1) [where st = st and e = e and l = l] kept_shared(2) [where st = st' and e = e and l = l])
  then show ?case by simp
next
  case (last_pass i s sel rate e l st inp r st' ei v w')
  have ok: "drive_ok (st\<lparr>dv_shared := fs_shared s\<rparr>)"
    using last_pass by (auto simp: drive_ok_shared(1) [where st = st and e = e and l = l] fetch_inv_def dest!: nth_mem)
  note spec = drive_iter_spec [OF last_pass.hyps(6) ok]
  let ?sa = "s\<lparr>fs_world := w', fs_slots := (fs_slots s)[i := (sel, rate, Running e l st')], fs_lost := fs_lost s\<rparr>"
  have sh: "cw_shared w' = dv_shared st'" using conclude_shared [OF last_pass.hyps(8)] .
  have "fetch_inv ?sa \<and> (accounted x s \<longrightarrow> accounted x ?sa)"
    using last_pass.hyps last_pass.prems spec ok sh
    by (intro slot_step_spec [where c = "Running e l st" and sh' = "dv_shared st'"])
      (auto simp: drive_ok_shared(2) [where st = st' and e = e and l = l] kept_shared(1) [where st = st and e = e and l = l] kept_shared(2) [where st = st' and e = e and l = l])
  moreover have "\<not> held x (Running e l st')"
    using spec(3) last_pass.hyps(5) last_pass.prems(3) by (auto simp: held_def)
  moreover have "close_slot i v ?sa = close_slot i v (s\<lparr>fs_world := w'\<rparr>)"
    using last_pass.hyps(1,2) by (simp add: close_slot_def remove_at_def)
  ultimately show ?case
    using close_slot_spec [of i ?sa sel rate "Running e l st'" x v] last_pass.hyps(1) by auto
next
  case (fb_recv s)
  then show ?case using fallback_recv_spec by blast
next
  case (fb_end i s net outcome)
  have "puts_ok net" using fb_end by blast
  then have "puts_ok (\<lambda>_. outcome)" using fb_end.hyps(3) by (auto simp: puts_ok_def)
  then show ?case using fallback_end_spec [OF fb_end.prems(1) fb_end.hyps(1)] by blast
next
  case (stall s)
  then show ?case by (auto simp: fetch_inv_def accounted_def)
next
  case (drain s)
  then show ?case using drain_pool_spec by blast
qed


lemma fetch_inv_run:
  assumes "(fetch_step nets bound tools h pp f64 opts iss)\<^sup>*\<^sup>* s s'" "fetch_inv s" "\<forall>net \<in> nets. puts_ok net" "bound \<le> 2 ^ 63"
  shows "fetch_inv s' \<and> (\<not> so_direct_only opts \<longrightarrow> accounted x s \<longrightarrow> accounted x s')"
  using assms
proof (induction rule: rtranclp_induct)
  case (step s1 s2)
  then show ?case using fetch_step_inv [OF step.hyps(2), of x] by blast
qed simp

lemma fetch_init_spec:
  assumes "fetch_init pm opts cache needed w = Inr s"
  shows "fetch_inv s" "\<not> so_direct_only opts \<Longrightarrow> x \<in> set needed \<Longrightarrow> accounted x s" "fs_lost s = []"
    "sh_store (fs_shared s) = sh_store (cw_shared w)" "\<not> fs_drained s"
proof -
  let ?sel = "select_storers pm cache needed (so_depth opts) (max (so_redundancy opts) 1) (fst (cw_peers w))"
  let ?start = "\<lparr>rt_buckets = [], rt_fallback = [], rt_dropped = 0\<rparr>"
  let ?r = "route (so_depth opts) (hm_keys ?sel) (so_direct_only opts) needed"
  have wf: "hm_wf (rt_buckets ?start)" by (simp add: hm_wf_def)
  have fr: "hm_wf (rt_buckets ?r)" "pool_chunks (rt_buckets ?r)
      = pool_chunks (rt_buckets ?start) + mset (filter (\<lambda>a. bucket_prefix a (so_depth opts) \<in> hm_keys ?sel) needed)"
    "rt_fallback ?r = rt_fallback ?start
      @ (if so_direct_only opts then [] else filter (\<lambda>a. bucket_prefix a (so_depth opts) \<notin> hm_keys ?sel) needed)"
    unfolding route_def by (rule fold_route [OF wf])+
  from assms have s: "sh_pool (fs_shared s) = rt_buckets ?r" "sh_fallback (fs_shared s) = rt_fallback ?r"
      "fs_slots s = []" "fs_lost s = []" "sh_store (fs_shared s) = sh_store (cw_shared w)" "\<not> fs_drained s"
    by (auto simp: fetch_init_def fresh_world_def Let_def split: if_splits)
  show "fetch_inv s" unfolding fetch_inv_def s(1,3) using fr(1) by simp
  show "fs_lost s = []" "sh_store (fs_shared s) = sh_store (cw_shared w)" "\<not> fs_drained s" by (fact s)+
  show "accounted x s" if "\<not> so_direct_only opts" "x \<in> set needed"
    using that s fr(2,3) by (cases "bucket_prefix x (so_depth opts) \<in> hm_keys ?sel")
      (auto simp: accounted_def safe_def pool_chunks_def)
qed

lemma fetch_begin_spec:
  assumes "fetch_begin pm opts cache addrs w = Inr (Some s)"
  shows "fetch_inv s" "\<not> so_direct_only opts \<Longrightarrow> x \<in> set addrs \<Longrightarrow> accounted x s" "fs_lost s = []" "\<not> fs_drained s"
    "sp_issued (sh_spend (fs_shared s)) = 0"
proof -
  let ?st = "fst (sh_store (cw_shared w))"
  have i: "fetch_init pm opts cache (needed_chunks addrs ?st) w = Inr s"
    using assms by (auto simp: fetch_begin_def Let_def split: if_splits sum.splits)
  note init = fetch_init_spec [OF i]
  show "fetch_inv s" "fs_lost s = []" "\<not> fs_drained s" by (fact init)+
  show "sp_issued (sh_spend (fs_shared s)) = 0"
    using i by (auto simp: fetch_init_def fresh_world_def Let_def split: if_splits)
  show "accounted x s" if "\<not> so_direct_only opts" "x \<in> set addrs"
    using that init(2) init(4) by (cases "store_contains x ?st") (auto simp: needed_chunks_def accounted_def safe_def)
qed

text \<open>A fetch that ends at once has every chunk in the store.\<close>

lemma fetch_begin_done:
  "fetch_begin pm opts cache addrs w = Inr None \<Longrightarrow> x \<in> set addrs \<Longrightarrow> store_contains x (fst (sh_store (cw_shared w)))"
  by (auto simp: fetch_begin_def needed_chunks_def Let_def filter_empty_conv split: if_splits sum.splits)

lemma fetch_step_lost:
  assumes "fetch_step nets bound tools h pp f64 opts iss s s'" "fetch_inv s" "\<not> so_measure_lambda opts \<or> so_prepay opts"
  shows "fs_lost s' = fs_lost s"
  using assms
proof (induction rule: fetch_step.induct)
  case (opened i s sel rate warm outcome e inp w l st d)
  have "hm_wf (sh_pool (cw_shared w))" using opened by (simp add: fetch_inv_def)
  from prepare_spec [OF opened.hyps(7) this] have "d = None"
    using opened.hyps(4) opened.prems by (auto simp: local_args_def make_args_def)
  then show ?case by simp
qed (auto simp: close_slot_def fallback_recv_def fallback_end_def drain_pool_def Let_def
    split: prod.splits list.splits option.splits)

lemma fetch_run_lost:
  assumes "(fetch_step nets bound tools h pp f64 opts iss)\<^sup>*\<^sup>* s s'" "fetch_inv s" "\<not> so_measure_lambda opts \<or> so_prepay opts"
    and nets: "\<forall>net \<in> nets. puts_ok net" "bound \<le> 2 ^ 63"
  shows "fs_lost s' = fs_lost s"
  using assms
proof (induction rule: rtranclp_induct)
  case (step s1 s2)
  then show ?case using fetch_step_lost [OF step.hyps(2)] fetch_inv_run [OF step.hyps(1) _ nets] by metis
qed simp

definition drained_ok :: "'m fetch_state \<Rightarrow> bool" where
  "drained_ok s \<longleftrightarrow> (fs_drained s \<longrightarrow> fs_slots s = [] \<and> pool_chunks (sh_pool (fs_shared s)) = {#})"

lemma fetch_step_drained:
  assumes "fetch_step nets bound tools h pp f64 opts iss s s'" "drained_ok s"
  shows "drained_ok s'"
  using assms
proof (induction rule: fetch_step.induct)
  case (fb_recv s)
  then show ?case by (auto simp: drained_ok_def fallback_recv_def Let_def split: list.split)
next
  case (fb_end i s net outcome)
  then show ?case by (auto simp: drained_ok_def fallback_end_def Let_def split: prod.split option.split)
next
  case (drain s)
  obtain xs b where d: "drain_all (sh_pool (fs_shared s)) = (xs, b)" by force
  with drain show ?case using drain_all_chunks [OF d] by (simp add: drained_ok_def drain_pool_def)
qed (auto simp: drained_ok_def close_slot_def split: prod.splits)

lemma fetch_run_drained:
  "(fetch_step nets bound tools h pp f64 opts iss)\<^sup>*\<^sup>* s s' \<Longrightarrow> drained_ok s \<Longrightarrow> drained_ok s'"
  by (induction rule: rtranclp_induct) (auto intro: fetch_step_drained)

lemma fetch_run_accounts:
  assumes "fetch_begin pm opts cache addrs w = Inr (Some s)" "\<not> so_direct_only opts" "x \<in> set addrs"
    and "(fetch_step nets bound tools h pp f64 opts iss)\<^sup>*\<^sup>* s s'" "finished s'"
    and nets: "\<forall>net \<in> nets. puts_ok net" "bound \<le> 2 ^ 63"
  shows "store_contains x (fst (sh_store (fs_shared s'))) \<or> x \<in> set (fs_fb_fails s') \<or> x \<in> set (fs_lost s')"
proof -
  note init = fetch_begin_spec [OF assms(1)]
  have acc: "accounted x s'"
    using fetch_inv_run [OF assms(4) init(1) nets, of x] init(2) [OF assms(2,3)] assms(2) by blast
  have "pool_chunks (sh_pool (fs_shared s')) = {#}"
    using fetch_run_drained [OF assms(4)] init(4) assms(5) by (simp add: drained_ok_def finished_def)
  then show ?thesis using acc assms(5) by (auto simp: accounted_def safe_def finished_def)
qed

lemma fetch_step_capped:
  assumes "fetch_step nets bound tools h pp f64 opts iss s s'" "capped (so_max_issue_plur opts) (fs_shared s)"
  shows "capped (so_max_issue_plur opts) (fs_shared s')"
  using assms
proof (induction rule: fetch_step.induct)
  case (dial_slot s sel rate di warm w)
  then show ?case using take_warm_shared by simp
next
  case (refused i s sel rate warm outcome)
  then show ?case by (simp add: close_slot_def)
next
  case (opened i s sel rate warm outcome e inp w l st d)
  then show ?case using prepare_capped [OF opened.hyps(7)] by (simp add: local_args_def make_args_def)
next
  case (pass i s sel rate e l st inp st')
  then show ?case using drive_iter_capped [OF pass.hyps(6)] by (simp add: local_args_def make_args_def)
next
  case (last_pass i s sel rate e l st inp r st' ei v w')
  then show ?case
    using drive_iter_capped [OF last_pass.hyps(6)] conclude_shared [OF last_pass.hyps(8)]
    by (simp add: local_args_def make_args_def close_slot_def)
next
  case (fb_recv s)
  then show ?case by (simp add: fallback_recv_def Let_def split: list.split)
next
  case (fb_end i s net outcome)
  then show ?case by (simp add: fallback_end_def Let_def split: prod.split option.split)
next
  case (drain s)
  then show ?case by (simp add: drain_pool_def split: prod.split)
qed simp

lemma fetch_run_capped:
  "(fetch_step nets bound tools h pp f64 opts iss)\<^sup>*\<^sup>* s s' \<Longrightarrow> capped (so_max_issue_plur opts) (fs_shared s) \<Longrightarrow>
    capped (so_max_issue_plur opts) (fs_shared s')"
  by (induction rule: rtranclp_induct) (auto intro: fetch_step_capped)

lemma sampler_sat_sub: "sat_sub now prev < (20 :: u64) \<longleftrightarrow> unat now < unat prev + 20"
  by (auto simp: word_less_nat_alt unat_sat_sub)

lemma fetch_step_concurrency:
  assumes "fetch_step nets bound tools h pp f64 opts iss s s'"
    and "length (fs_slots s) \<le> max (so_connections opts) 1 \<and> length (fs_fb_active s) \<le> 8"
  shows "length (fs_slots s') \<le> max (so_connections opts) 1 \<and> length (fs_fb_active s') \<le> 8"
  using assms
  by (induction rule: fetch_step.induct)
    (auto simp: close_slot_def remove_at_def fallback_recv_def fallback_end_def drain_pool_def Let_def
      split: prod.splits list.splits option.splits)

text \<open>The sampler raises the wind-down flag exactly when it is enabled, after 90 seconds, at fewer than 20 new chunks.\<close>

lemma sampler_tick_winds_down:
  "snd (sampler_tick stall_exit t now ((prev0, prev1), False)) \<longleftrightarrow> stall_exit \<and> 90 \<le> t \<and> unat now < unat prev0 + 20"
  by (simp add: sampler_tick_def sampler_sat_sub)

text \<open>With no connection opened the fetch is an error, also when the fallback has served every chunk.\<close>

lemma report_error_despite_fallback:
  assumes "cw_opened (fs_world s) = 0"
  shows "schedule_report_of n (length needed) False s = Inl NoConnection"
  using assms by (simp add: schedule_report_of_def Let_def)

section \<open>A sample fetch\<close>

definition sample_opts :: schedule_options where
  "sample_opts = \<lparr>so_depth = 8, so_direct_only = False, so_redundancy = 2, so_connections = 4, so_start_depth = 8,
     so_prepay = False, so_measure_lambda = False, so_max_issue_plur = 500, so_stall_exit = True, so_parking = False\<rparr>"

definition sample_start :: "string fetch_state" where
  "sample_start = \<lparr>fs_world = sample_world\<lparr>cw_shared := sample_shared\<lparr>sh_pool := [], sh_fallback := [sample_addr]\<rparr>\<rparr>,
     fs_dispatch = dispatch_new [], fs_slots = [], fs_residual = 0, fs_wind_down = False, fs_drained = False, fs_dropped = 0,
     fs_fb_active = [], fs_fb_fails = [], fs_fb_bytes = 0, fs_fb_count = 0, fs_lost = []\<rparr>"

lemma sample_init: "fetch_begin Some sample_opts (topology_new sample_addr) [sample_addr] sample_world = Inr (Some sample_start)"
  by (simp add: fetch_begin_def needed_chunks_def store_contains_def fetch_init_def fresh_world_def sample_shared_def sample_spend_def select_storers_def topology_records_def topology_new_def route_def route_one_def
      sample_opts_def sample_start_def sample_world_def Let_def)

lemma sample_fetch_run:
  assumes "net \<in> nets" "net sample_addr = (Some wire, PutOk, FlushOk)"
  shows "\<exists>s'. (fetch_step nets bound sample_tools render_root (\<lambda>_ _. 1000) (\<lambda>_ _ _. 0) sample_opts 1000)\<^sup>*\<^sup>* sample_start s'
     \<and> finished s' \<and> fs_fb_fails s' = [] \<and> fs_lost s' = [] \<and> sd_data (snd (sh_store (fs_shared s'))) = wire"
proof -
  let ?step = "fetch_step nets bound sample_tools render_root (\<lambda>_ _. 1000) (\<lambda>_ _ _. 0) sample_opts 1000"
  let ?sa = "drain_pool False sample_start"
  let ?sb = "fallback_recv ?sa"
  let ?sc = "fallback_end render_root (Some wire, PutOk, FlushOk) 0 ?sb"
  have st1: "?step sample_start ?sa"
    using fetch_step.drain [where s = sample_start and opts = sample_opts]
    by (simp add: sample_opts_def sample_start_def dispatch_next_def dispatch_new_def recycle_def)
  have st2: "?step ?sa ?sb"
    by (rule fetch_step.fb_recv) (simp add: sample_start_def drain_pool_def drain_all_def sample_world_def)
  have st3: "?step ?sb ?sc"
    by (rule fetch_step.fb_end [OF _ assms(1)])
      (simp_all add: assms(2) sample_start_def drain_pool_def drain_all_def fallback_recv_def sample_world_def
        sample_shared_def store_contains_def)
  have "finished ?sc \<and> fs_fb_fails ?sc = [] \<and> fs_lost ?sc = [] \<and> sd_data (snd (sh_store (fs_shared ?sc))) = wire"
    by (simp add: finished_def fallback_end_def remove_at_def sample_start_def drain_pool_def drain_all_def fallback_recv_def
        sample_world_def sample_shared_def store_contains_def store_put_def write_at_def FLUSH_EVERY_def Let_def split: option.split)
  moreover have "?step\<^sup>*\<^sup>* sample_start ?sc"
    by (rule converse_rtranclp_into_rtranclp [where r = ?step, OF st1], rule converse_rtranclp_into_rtranclp [where r = ?step, OF st2],
        rule r_into_rtranclp [where r = ?step, OF st3])
  ultimately show ?thesis by blast
qed

lemma sample_fetch:
  "\<exists>s'. (fetch_step (Collect puts_ok) (2 ^ 63) sample_tools render_root (\<lambda>_ _. 1000) (\<lambda>_ _ _. 0) sample_opts 1000)\<^sup>*\<^sup>* sample_start s'
     \<and> finished s' \<and> fs_fb_fails s' = [] \<and> fs_lost s' = []"
  using sample_fetch_run [of "\<lambda>_. (Some [7], PutOk, FlushOk)" "Collect puts_ok" "[7]" "2 ^ 63"] by (auto simp: puts_ok_def)

section \<open>Properties\<close>






end
