(* ===== verification/Settle.thy ===== *)
theory Settle
  imports Cheque
begin

text \<open>
  The settlement task of a probed connection (\<^verbatim>\<open>settlement_loop\<close> and
  \<^verbatim>\<open>emit_cheque_at_rate\<close> of \<^verbatim>\<open>rust/ds-net/src/direct.rs\<close>). The accounting object belongs to
  a library outside the sources: it is a parameter with a balance and a \<open>credit\<close> operation. One
  iteration of the loop is \<open>settle_iter\<close>; its input says which wake-up fired, whether the
  connection is alive, what the refresh answered, and how other tasks changed the account while
  the loop was suspended (\<open>si_wake\<close>, \<open>si_refreshing\<close>, \<open>si_emitting\<close>). A cheque emitted before the
  final sweep spawns a delayed credit, kept in \<open>sx_credits\<close>.
\<close>

record settlement_summary =
  su_cheques_issued :: u64
  su_cheque_units :: u64
  su_cheque_plur :: u128
  su_exchange_rate :: "u128 option"
  su_refreshes_accepted :: u64
  su_refresh_units :: u64
  su_residual_debt_units :: u64

record 'a settle_ctx =
  sx_acct :: 'a
  sx_ledger :: fast_ledger
  sx_beneficiary :: bytes
  sx_issuable :: U256
  sx_max_issue_plur :: u64
  sx_issued_plur :: u128
  sx_pending_cheque_units :: u64
  sx_cheque_trigger :: u64
  sx_credits :: "u64 list"

record 'a settle_input =
  si_done :: bool
  si_alive :: bool
  si_refresh_due :: bool
  si_refresh :: "u64 option"
  si_env :: emit_env
  si_wake :: "'a \<times> u64 \<Rightarrow> 'a \<times> u64"
  si_refreshing :: "'a \<times> u64 \<Rightarrow> 'a \<times> u64"
  si_emitting :: "'a \<times> u64 \<Rightarrow> 'a \<times> u64"

datatype ('c, 's) flow = Break 'c 's | Continue bool 'c 's

definition interfere :: "('a \<times> u64 \<Rightarrow> 'a \<times> u64) \<Rightarrow> 'a settle_ctx \<Rightarrow> 'a settle_ctx" where
  "interfere f ctx =
     (case f (sx_acct ctx, sx_pending_cheque_units ctx) of
        (a, p) \<Rightarrow> ctx\<lparr>sx_acct := a, sx_pending_cheque_units := p\<rparr>)"

definition emit_cheque_at_rate ::
  "cheque_tools \<Rightarrow> emit_env \<Rightarrow> u64 \<Rightarrow> 'a settle_ctx \<Rightarrow> (emit_error, rate_emit_outcome) result \<times> 'a settle_ctx" where
  "emit_cheque_at_rate tools env debt_units ctx =
     (let issued = try_from_or_max (sx_issued_plur ctx);
          e = \<lparr>ce_beneficiary = sx_beneficiary ctx, ce_debt_units = debt_units,
               ce_issuable = sx_issuable ctx, ce_max_issue_plur = sx_max_issue_plur ctx\<rparr>
      in case emit_settlement_cheque tools e env \<lparr>sp_issued = issued, sp_ledger = sx_ledger ctx\<rparr> of
           (Inl err, s) \<Rightarrow> (Inl err, ctx\<lparr>sx_ledger := sp_ledger s\<rparr>)
         | (Inr (r, _), s) \<Rightarrow>
             (Inr r, ctx\<lparr>sx_ledger := sp_ledger s, sx_issued_plur := ucast (sp_issued s)\<rparr>))"

definition settle_refresh ::
  "('a \<Rightarrow> u64) \<Rightarrow> (u64 \<Rightarrow> 'a \<Rightarrow> 'a) \<Rightarrow> 'a settle_input \<Rightarrow> 'a settle_ctx \<Rightarrow> settlement_summary \<Rightarrow>
   'a settle_ctx \<times> settlement_summary" where
  "settle_refresh bal credit_acct inp ctx su =
     (if 0 < bal (sx_acct ctx) \<and> si_refresh_due inp then
        let ctx1 = interfere (si_refreshing inp) ctx in
        case si_refresh inp of
          Some accepted \<Rightarrow>
            if 0 < accepted then
              (ctx1\<lparr>sx_acct := credit_acct accepted (sx_acct ctx1)\<rparr>,
               su\<lparr>su_refreshes_accepted := su_refreshes_accepted su + 1,
                  su_refresh_units := su_refresh_units su + accepted\<rparr>)
            else (ctx1, su)
        | None \<Rightarrow> (ctx1, su)
      else (ctx, su))"

definition cheque_emitted ::
  "(u64 \<Rightarrow> 'a \<Rightarrow> 'a) \<Rightarrow> bool \<Rightarrow> u64 \<Rightarrow> rate_emit_outcome \<Rightarrow> 'a settle_ctx \<Rightarrow> settlement_summary \<Rightarrow>
   'a settle_ctx \<times> settlement_summary" where
  "cheque_emitted credit_acct finishing debt r ctx su =
     (if finishing then ctx\<lparr>sx_acct := credit_acct debt (sx_acct ctx)\<rparr>
      else ctx\<lparr>sx_pending_cheque_units := sx_pending_cheque_units ctx + debt,
               sx_credits := sx_credits ctx @ [debt]\<rparr>,
      su\<lparr>su_cheques_issued := su_cheques_issued su + 1,
         su_cheque_units := su_cheque_units su + debt,
         su_cheque_plur := su_cheque_plur su + eo_plur r,
         su_exchange_rate := (case su_exchange_rate su of None \<Rightarrow> Some (eo_rate r) | Some x \<Rightarrow> Some x)\<rparr>)"

text \<open>The delayed credit task spawned for one emitted cheque.\<close>

definition credit_task :: "(u64 \<Rightarrow> 'a \<Rightarrow> 'a) \<Rightarrow> u64 \<Rightarrow> 'a \<times> u64 \<Rightarrow> 'a \<times> u64" where
  "credit_task credit_acct debt ap = (credit_acct debt (fst ap), snd ap - debt)"

definition settle_residual :: "('a \<Rightarrow> u64) \<Rightarrow> 'a settle_ctx \<Rightarrow> u64" where
  "settle_residual bal ctx = sat_sub (bal (sx_acct ctx)) (sx_pending_cheque_units ctx)"

definition settle_tail ::
  "('a \<Rightarrow> u64) \<Rightarrow> bool \<Rightarrow> 'a settle_ctx \<Rightarrow> settlement_summary \<Rightarrow> ('a settle_ctx, settlement_summary) flow" where
  "settle_tail bal finishing ctx su =
     (if finishing then
        let residual = settle_residual bal ctx in
        if residual = 0 \<or> 0 < su_residual_debt_units su
        then Break ctx (su\<lparr>su_residual_debt_units := residual\<rparr>)
        else Continue finishing ctx su
      else Continue finishing ctx su)"

definition settle_iter ::
  "('a \<Rightarrow> u64) \<Rightarrow> (u64 \<Rightarrow> 'a \<Rightarrow> 'a) \<Rightarrow> cheque_tools \<Rightarrow> 'a settle_input \<Rightarrow> bool \<Rightarrow> 'a settle_ctx \<Rightarrow>
   settlement_summary \<Rightarrow> ('a settle_ctx, settlement_summary) flow" where
  "settle_iter bal credit_acct tools inp finishing0 ctx0 su0 =
     (let finishing = (finishing0 \<or> si_done inp);
          ctx1 = interfere (si_wake inp) ctx0
      in if \<not> si_alive inp
         then Break ctx1 (su0\<lparr>su_residual_debt_units := settle_residual bal ctx1\<rparr>)
         else
           let (ctx2, su2) = settle_refresh bal credit_acct inp ctx1 su0;
               effective_debt = settle_residual bal ctx2;
               should_cheque = (if finishing then 0 < effective_debt else sx_cheque_trigger ctx2 \<le> effective_debt)
           in if should_cheque then
                (case emit_cheque_at_rate tools (si_env inp) effective_debt ctx2 of
                   (Inr r, ctx3) \<Rightarrow>
                     let (ctx4, su4) = cheque_emitted credit_acct finishing effective_debt r
                           (interfere (si_emitting inp) ctx3) su2
                     in settle_tail bal finishing ctx4 su4
                 | (Inl err, ctx3) \<Rightarrow>
                     let ctx4 = interfere (si_emitting inp) ctx3 in
                     if finishing then Break ctx4 (su2\<lparr>su_residual_debt_units := effective_debt\<rparr>)
                     else settle_tail bal finishing ctx4 su2)
              else settle_tail bal finishing ctx2 su2)"

section \<open>The final sweep\<close>

lemma emit_at_rate_keeps:
  assumes "emit_cheque_at_rate tools env d ctx = (r, ctx')"
  shows "sx_acct ctx' = sx_acct ctx \<and> sx_pending_cheque_units ctx' = sx_pending_cheque_units ctx
    \<and> sx_cheque_trigger ctx' = sx_cheque_trigger ctx \<and> sx_credits ctx' = sx_credits ctx"
  using assms by (auto simp: emit_cheque_at_rate_def Let_def split: prod.splits sum.splits)

lemma interfere_id [simp]: "interfere id ctx = ctx"
  by (simp add: interfere_def)

lemma settle_refresh_ledger:
  "settle_refresh bal cr inp ctx su = (ctx', su') \<Longrightarrow>
   sx_ledger ctx' = sx_ledger ctx \<and> sx_credits ctx' = sx_credits ctx"
  by (auto simp: settle_refresh_def interfere_def Let_def split: if_splits option.splits prod.splits)

lemma residual_after_credit:
  assumes "\<And>a x. unat (bal (credit_acct a x)) = unat (bal x) - unat a"
  shows "settle_residual bal (ctx\<lparr>sx_acct := credit_acct (settle_residual bal ctx) (sx_acct ctx)\<rparr>) = 0"
proof -
  have "unat (settle_residual bal (ctx\<lparr>sx_acct := credit_acct (settle_residual bal ctx) (sx_acct ctx)\<rparr>)) = 0"
    by (simp add: settle_residual_def unat_sat_sub assms)
  then show ?thesis by (simp only: unat_eq_zero)
qed

lemma emit_quiet:
  assumes "emit_cheque_at_rate tools env d ctx = (r, ctx')" "g (sx_acct ctx, sx_pending_cheque_units ctx) = (sx_acct ctx, sx_pending_cheque_units ctx)"
  shows "interfere g ctx' = ctx'"
  using emit_at_rate_keeps [OF assms(1)] assms(2) by (simp add: interfere_def)

lemma final_iteration:
  assumes credit_law: "\<And>a x. unat (bal (credit_acct a x)) = unat (bal x) - unat a"
    and fin: "fin0 \<or> si_done inp" and "si_alive inp"
    and quiet: "si_emitting inp (sx_acct ctx2, sx_pending_cheque_units ctx2) = (sx_acct ctx2, sx_pending_cheque_units ctx2)"
    and refreshed: "settle_refresh bal credit_acct inp (interfere (si_wake inp) ctx) su = (ctx2, su2)"
  shows "\<exists>ctx' su'. settle_iter bal credit_acct tools inp fin0 ctx su = Break ctx' su' \<and>
    su_residual_debt_units su' =
      (case fst (emit_cheque_at_rate tools (si_env inp) (settle_residual bal ctx2) ctx2) of
         Inr _ \<Rightarrow> 0 | Inl _ \<Rightarrow> settle_residual bal ctx2)"
proof (cases "emit_cheque_at_rate tools (si_env inp) (settle_residual bal ctx2) ctx2")
  case (Pair r ctx3)
  note keeps = emit_at_rate_keeps [OF Pair] and same3 = emit_quiet [where g = "si_emitting inp", OF Pair quiet]
  have same: "settle_residual bal ctx3 = settle_residual bal ctx2"
    using keeps by (simp add: settle_residual_def)
  have zero: "settle_residual bal (ctx3\<lparr>sx_acct := credit_acct (settle_residual bal ctx2) (sx_acct ctx3)\<rparr>) = 0"
    using residual_after_credit [of bal credit_acct ctx3] credit_law same by simp
  show ?thesis
  proof (cases "settle_residual bal ctx2 = 0")
    case True
    then show ?thesis
      using fin assms(3) refreshed
      by (auto simp: settle_iter_def Let_def settle_tail_def split: sum.split)
  next
    case False
    then have "0 < settle_residual bal ctx2" by (simp add: word_gt_0)
    then show ?thesis
      using fin assms(3) refreshed Pair zero same3
      by (cases r) (auto simp: settle_iter_def Let_def settle_tail_def cheque_emitted_def)
  qed
qed

section \<open>Properties\<close>

text \<open>
  The final sweep of the settlement loop ends in one iteration on a live connection that no
  other task touches: either the remaining debt was covered by one cheque and the reported
  residual is zero, or the cheque failed and the residual reported is exactly the uncovered debt.
\<close>
theorem settle_final_sweep:
  assumes credit_law: "\<And>a x. unat (bal (credit_acct a x)) = unat (bal x) - unat a"
    and "si_done inp" "si_alive inp" "si_emitting inp = id"
    and refreshed: "settle_refresh bal credit_acct inp (interfere (si_wake inp) ctx) su = (ctx2, su2)"
  shows "\<exists>ctx' su'. settle_iter bal credit_acct tools inp False ctx su = Break ctx' su' \<and>
    su_residual_debt_units su' =
      (case fst (emit_cheque_at_rate tools (si_env inp) (settle_residual bal ctx2) ctx2) of
         Inr _ \<Rightarrow> 0 | Inl _ \<Rightarrow> settle_residual bal ctx2)"
  using final_iteration [OF assms(1) _ assms(3) _ refreshed] assms(2,4) by simp

definition sample_ctx :: "u64 settle_ctx" where
  "sample_ctx = \<lparr>sx_acct = 100, sx_ledger = \<lparr>fl_map = [], fl_dirty = False\<rparr>,
     sx_beneficiary = replicate 20 7, sx_issuable = 1000, sx_max_issue_plur = 500, sx_issued_plur = 0,
     sx_pending_cheque_units = 0, sx_cheque_trigger = 1000, sx_credits = []\<rparr>"

definition sample_input :: "u64 settle_input" where
  "sample_input = \<lparr>si_done = True, si_alive = True, si_refresh_due = False, si_refresh = None,
     si_env = sample_env, si_wake = id, si_refreshing = id, si_emitting = id\<rparr>"

definition no_summary :: settlement_summary where
  "no_summary = \<lparr>su_cheques_issued = 0, su_cheque_units = 0, su_cheque_plur = 0, su_exchange_rate = None,
     su_refreshes_accepted = 0, su_refresh_units = 0, su_residual_debt_units = 0\<rparr>"

lemma sample_at_rate:
  "\<exists>r. fst (emit_cheque_at_rate (render_root, show_uint, \<lambda>_. [], sample_sign) sample_env 100 sample_ctx) = Inr r"
proof -
  obtain r out s' where "emit_settlement_cheque (render_root, show_uint, \<lambda>_. [], sample_sign) sample_emit
      sample_env (sample_spend 0) = (Inr (r, out), s')"
    using sample_emit_ok by blast
  then show ?thesis
    by (simp add: emit_cheque_at_rate_def sample_ctx_def sample_emit_def sample_spend_def Let_def
        try_from_or_max_def try_word_def)
qed

theorem settle_final_sweep_witness:
  "\<exists>ctx su. settle_iter id (\<lambda>a x. sat_sub x a) (render_root, show_uint, \<lambda>_. [], sample_sign)
      sample_input False sample_ctx no_summary = Break ctx su \<and> su_residual_debt_units su = 0"
proof -
  have r: "settle_refresh id (\<lambda>a x. sat_sub x a) sample_input
      (interfere (si_wake sample_input) sample_ctx) no_summary = (sample_ctx, no_summary)"
    by (simp add: settle_refresh_def sample_input_def)
  have d: "settle_residual id sample_ctx = 100"
    by (simp add: settle_residual_def sample_ctx_def sat_sub_def)
  obtain x where x: "fst (emit_cheque_at_rate (render_root, show_uint, \<lambda>_. [], sample_sign)
      (si_env sample_input) 100 sample_ctx) = Inr x"
    using sample_at_rate by (auto simp: sample_input_def)
  show ?thesis
    using settle_final_sweep [OF _ _ _ _ r, of "(render_root, show_uint, \<lambda>_. [], sample_sign)", unfolded d x]
    by (simp add: unat_sat_sub sample_input_def)
qed

end
