(* ===== verification/Hive.thy ===== *)
theory Hive
  imports Wire
begin

text \<open>
  What a peer pushes at us: the sink streams with their header framing (\<^verbatim>\<open>read_sink_body\<close>,
  \<^verbatim>\<open>run_pricing_sink\<close> of \<^verbatim>\<open>rust/ds-net/src/direct.rs\<close>, \<^verbatim>\<open>run_hive_sink\<close> of
  \<^verbatim>\<open>rust/ds-net/src/crawl.rs\<close>) and the decoding of hive gossip (\<^verbatim>\<open>rust/ds-net/src/hive.rs\<close>).
  The protobuf, varint and multiaddr libraries are parameters; a multiaddr is only looked into
  through the list of its protocols.
\<close>

section \<open>Sink streams\<close>

text \<open>
  A sink stream carries the bytes the peer sends before its half is closed; \<open>sk_tail\<close> is what the
  reads after our half-close return. The callers cut a stream that never ends with a timeout: the
  end of \<open>sk_tail\<close>.
\<close>

datatype drain_read = DrainBytes | DrainEof | DrainReset | DrainOther

datatype sink_error = SinkRead io_error | SinkWrite | SinkDrain | SinkTimeout

record sink_env =
  sk_stream :: bytes
  sk_write :: bool
  sk_tail :: "drain_read list"

fun drain_tail :: "drain_read list \<Rightarrow> (sink_error, unit) result" where
  "drain_tail [] = Inl SinkTimeout"
| "drain_tail (DrainEof # rest) = Inr ()"
| "drain_tail (DrainBytes # rest) = drain_tail rest"
| "drain_tail (DrainReset # rest) = Inr ()"
| "drain_tail (DrainOther # rest) = Inl SinkDrain"

definition read_sink_body :: "nat \<Rightarrow> sink_env \<Rightarrow> (sink_error, bytes) result" where
  "read_sink_body cap env =
     (case read_delimited (8 * 1024) (sk_stream env) of
        Inl e \<Rightarrow> Inl (SinkRead e)
      | Inr (_, rest) \<Rightarrow>
          if \<not> sk_write env then Inl SinkWrite
          else case read_delimited cap rest of
            Inl e \<Rightarrow> Inl (SinkRead e)
          | Inr (body, _) \<Rightarrow>
              (case drain_tail (sk_tail env) of Inl e \<Rightarrow> Inl e | Inr _ \<Rightarrow> Inr body))"

text \<open>One stream of the pricing protocol, on the value of the threshold watch.\<close>

definition pricing_sink :: "sink_env \<Rightarrow> U256 option \<Rightarrow> U256 option" where
  "pricing_sink env announced =
     (case read_sink_body 1024 env of
        Inl _ \<Rightarrow> announced
      | Inr body \<Rightarrow> (case parse_announce_threshold body of Some t \<Rightarrow> Some t | None \<Rightarrow> announced))"

section \<open>Gossip\<close>

record bzz_address =
  bz_underlay :: bytes
  bz_signature :: bytes
  bz_overlay :: bytes
  bz_nonce :: bytes

record ('p, 'm) peer_hint =
  hi_peer_id :: 'p
  hi_overlay :: swarm_address
  hi_underlays :: "'m list"

definition UNDERLAY_LIST_PREFIX :: u8 where "UNDERLAY_LIST_PREFIX = 0x99"
definition MAX_UNDERLAY_BYTES :: nat where "MAX_UNDERLAY_BYTES = 2048"
definition MAX_UNDERLAYS_PER_PEER :: nat where "MAX_UNDERLAYS_PER_PEER = 20"

datatype underlay_error = EmptyUnderlay | UnderlayTooLarge | TooManyUnderlays | BadVarint | BadMultiaddr

datatype 'p protocol = P2p 'p | OtherProtocol

definition extract_peer_id :: "('m \<Rightarrow> 'p protocol list) \<Rightarrow> 'm \<Rightarrow> 'p option" where
  "extract_peer_id protocols addr =
     find_map (\<lambda>p. case p of P2p peer \<Rightarrow> Some peer | OtherProtocol \<Rightarrow> None) (protocols addr)"

function deserialize_list ::
  "(bytes \<Rightarrow> (u64 \<times> bytes) option) \<Rightarrow> (bytes \<Rightarrow> 'm option) \<Rightarrow> bytes \<Rightarrow> 'm list \<Rightarrow> (underlay_error, 'm list) result" where
  "deserialize_list varint try_from data out =
     (if data = [] then Inr out
      else if MAX_UNDERLAYS_PER_PEER \<le> length out then Inl TooManyUnderlays
      else case varint data of
        None \<Rightarrow> Inl BadVarint
      | Some (len, rest) \<Rightarrow>
          if length rest < unat len then Inl EmptyUnderlay
          else case try_from (take (unat len) rest) of
            None \<Rightarrow> Inl BadMultiaddr
          | Some addr \<Rightarrow> deserialize_list varint try_from (drop (unat len) rest) (out @ [addr]))"
  by pat_completeness auto
termination
  by (relation "measure (\<lambda>(_, _, _, out). MAX_UNDERLAYS_PER_PEER - length out)") auto

declare deserialize_list.simps [simp del]

definition deserialize_underlays ::
  "(bytes \<Rightarrow> (u64 \<times> bytes) option) \<Rightarrow> (bytes \<Rightarrow> 'm option) \<Rightarrow> bytes \<Rightarrow> (underlay_error, 'm list) result" where
  "deserialize_underlays varint try_from data =
     (if data = [] then Inl EmptyUnderlay
      else if MAX_UNDERLAY_BYTES < length data then Inl UnderlayTooLarge
      else if hd data = UNDERLAY_LIST_PREFIX then deserialize_list varint try_from (tl data) []
      else case try_from data of None \<Rightarrow> Inl BadMultiaddr | Some addr \<Rightarrow> Inr [addr])"

definition hint_of ::
  "(bytes \<Rightarrow> (u64 \<times> bytes) option) \<Rightarrow> (bytes \<Rightarrow> 'm option) \<Rightarrow> ('m \<Rightarrow> 'p protocol list) \<Rightarrow> bzz_address \<Rightarrow>
   ('p, 'm) peer_hint option" where
  "hint_of varint try_from protocols p =
     (if length (bz_overlay p) \<noteq> 32 then None
      else case deserialize_underlays varint try_from (bz_underlay p) of
        Inl _ \<Rightarrow> None
      | Inr underlays \<Rightarrow>
          (case find_map (extract_peer_id protocols) underlays of
             None \<Rightarrow> None
           | Some peer \<Rightarrow> Some \<lparr>hi_peer_id = peer, hi_overlay = bz_overlay p, hi_underlays = underlays\<rparr>))"

definition decode_peers ::
  "(bytes \<Rightarrow> bzz_address list option) \<Rightarrow> (bytes \<Rightarrow> (u64 \<times> bytes) option) \<Rightarrow> (bytes \<Rightarrow> 'm option) \<Rightarrow> ('m \<Rightarrow> 'p protocol list) \<Rightarrow>
   bytes \<Rightarrow> ('p, 'm) peer_hint list" where
  "decode_peers decode_pb varint try_from protocols body =
     (case decode_pb body of
        None \<Rightarrow> []
      | Some peers \<Rightarrow> List.map_filter (hint_of varint try_from protocols) peers)"

text \<open>One hive stream: the hints sent on the channel until its receiver is gone (after \<open>room\<close> of them).\<close>

definition hive_sink ::
  "(bytes \<Rightarrow> bzz_address list option) \<Rightarrow> (bytes \<Rightarrow> (u64 \<times> bytes) option) \<Rightarrow> (bytes \<Rightarrow> 'm option) \<Rightarrow> ('m \<Rightarrow> 'p protocol list) \<Rightarrow>
   nat \<Rightarrow> sink_env \<Rightarrow> ('p, 'm) peer_hint list" where
  "hive_sink decode_pb varint try_from protocols room env =
     (case read_sink_body (64 * 1024) env of
        Inl _ \<Rightarrow> []
      | Inr body \<Rightarrow> take room (decode_peers decode_pb varint try_from protocols body))"

section \<open>Underlay lists\<close>

text \<open>
  What the decoder relies on of the varint and multiaddr libraries: both decode what they encoded.
  An address list is then read back as it was framed.
\<close>

definition underlay_frame :: "(u64 \<Rightarrow> bytes) \<Rightarrow> ('m \<Rightarrow> bytes) \<Rightarrow> 'm \<Rightarrow> bytes" where
  "underlay_frame varint_enc to_vec a = varint_enc (of_nat (length (to_vec a))) @ to_vec a"

locale underlay_codec =
  fixes varint_enc :: "u64 \<Rightarrow> bytes"
    and varint :: "bytes \<Rightarrow> (u64 \<times> bytes) option"
    and to_vec :: "'m \<Rightarrow> bytes"
    and try_from :: "bytes \<Rightarrow> 'm option"
  assumes varint_enc: "varint (varint_enc n @ rest) = Some (n, rest)"
    and enc_nonempty: "varint_enc n \<noteq> []"
    and try_from_vec: "try_from (to_vec a) = Some a"
begin

lemma list_step:
  assumes "length (to_vec a) < 2 ^ 64" "length out < MAX_UNDERLAYS_PER_PEER"
  shows "deserialize_list varint try_from (underlay_frame varint_enc to_vec a @ rest) out = deserialize_list varint try_from rest (out @ [a])"
proof -
  have "unat (of_nat (length (to_vec a)) :: u64) = length (to_vec a)"
    using assms(1) by (simp add: unat_of_nat)
  then show ?thesis
    using assms(2) by (subst deserialize_list.simps) (simp add: underlay_frame_def varint_enc enc_nonempty try_from_vec)
qed

lemma list_frames:
  "list_all (\<lambda>a. length (to_vec a) < 2 ^ 64) as \<Longrightarrow> length out + length as \<le> MAX_UNDERLAYS_PER_PEER \<Longrightarrow>
    deserialize_list varint try_from (concat (map (underlay_frame varint_enc to_vec) as)) out = Inr (out @ as)"
proof (induction "as" arbitrary: out)
  case Nil
  then show ?case by (simp add: deserialize_list.simps)
next
  case (Cons a "as")
  then show ?case by (simp add: list_step)
qed

lemma frames_too_many:
  assumes "list_all (\<lambda>a. length (to_vec a) < 2 ^ 64) as" "length as = MAX_UNDERLAYS_PER_PEER" "rest \<noteq> []"
  shows "deserialize_list varint try_from (concat (map (underlay_frame varint_enc to_vec) as) @ rest) [] = Inl TooManyUnderlays"
proof -
  have "deserialize_list varint try_from (concat (map (underlay_frame varint_enc to_vec) bs) @ rest) out
      = deserialize_list varint try_from rest (out @ bs)"
    if "list_all (\<lambda>a. length (to_vec a) < 2 ^ 64) bs" "length out + length bs \<le> MAX_UNDERLAYS_PER_PEER" for bs out
    using that by (induction bs arbitrary: out) (simp_all add: list_step)
  from this [of "as" "[]"] assms show ?thesis by (simp add: deserialize_list.simps [of _ _ rest])
qed

end

text \<open>The client's own varints and a byte string as its own address meet the contract.\<close>

interpretation raw_underlay: underlay_codec encode_varint decode_varint "id :: bytes \<Rightarrow> bytes" Some
  by unfold_locales (simp_all add: encode_varint_nonempty)

lemma raw_frame: "underlay_frame encode_varint id = frame"
  by (simp add: fun_eq_iff underlay_frame_def frame_def)

lemma deserialize_list_bound:
  "deserialize_list varint try_from data out = Inr ms \<Longrightarrow> length out \<le> MAX_UNDERLAYS_PER_PEER \<Longrightarrow>
    length ms \<le> MAX_UNDERLAYS_PER_PEER"
proof (induction varint try_from data out rule: deserialize_list.induct)
  case (1 varint try_from data out)
  from "1.prems"(1) have "(if data = [] then Inr out
      else if MAX_UNDERLAYS_PER_PEER \<le> length out then Inl TooManyUnderlays
      else case varint data of None \<Rightarrow> Inl BadVarint
      | Some (len, rest) \<Rightarrow>
          if length rest < unat len then Inl EmptyUnderlay
          else case try_from (take (unat len) rest) of None \<Rightarrow> Inl BadMultiaddr
          | Some addr \<Rightarrow> deserialize_list varint try_from (drop (unat len) rest) (out @ [addr])) = Inr ms"
    by (subst (asm) deserialize_list.simps)
  with 1 show ?case by (fastforce split: if_splits option.splits prod.splits)
qed

lemma deserialize_underlays_bound:
  "deserialize_underlays varint try_from data = Inr ms \<Longrightarrow> length ms \<le> MAX_UNDERLAYS_PER_PEER"
  using deserialize_list_bound [of varint try_from "tl data" "[]" ms]
  by (auto simp: deserialize_underlays_def MAX_UNDERLAYS_PER_PEER_def split: if_splits option.splits)

section \<open>Gossip batches\<close>

text \<open>
  A well-formed entry gossips a hint, as a single address or as a prefixed list; an entry with an
  overlay of the wrong length, no underlay bytes or too many of them is malformed.
\<close>

definition gossips :: "(u64 \<Rightarrow> bytes) \<Rightarrow> ('m \<Rightarrow> bytes) \<Rightarrow> ('m \<Rightarrow> 'p protocol list) \<Rightarrow> bzz_address \<Rightarrow> ('p, 'm) peer_hint \<Rightarrow> bool" where
  "gossips varint_enc to_vec protocols p h \<longleftrightarrow>
     length (hi_overlay h) = 32 \<and> bz_overlay p = hi_overlay h
     \<and> find_map (extract_peer_id protocols) (hi_underlays h) = Some (hi_peer_id h)
     \<and> length (bz_underlay p) \<le> MAX_UNDERLAY_BYTES \<and> length (hi_underlays h) \<le> MAX_UNDERLAYS_PER_PEER
     \<and> (bz_underlay p = UNDERLAY_LIST_PREFIX # concat (map (underlay_frame varint_enc to_vec) (hi_underlays h))
         \<or> (\<exists>a. hi_underlays h = [a] \<and> bz_underlay p = to_vec a \<and> to_vec a \<noteq> [] \<and> hd (to_vec a) \<noteq> UNDERLAY_LIST_PREFIX))"

definition malformed :: "bzz_address \<Rightarrow> bool" where
  "malformed p \<longleftrightarrow> length (bz_overlay p) \<noteq> 32 \<or> bz_underlay p = [] \<or> MAX_UNDERLAY_BYTES < length (bz_underlay p)"

context underlay_codec
begin

lemma hint_of_gossips:
  assumes "gossips varint_enc to_vec protocols p h"
  shows "hint_of varint try_from protocols p = Some h"
proof -
  have "deserialize_underlays varint try_from (bz_underlay p) = Inr (hi_underlays h)"
  proof (cases "bz_underlay p = UNDERLAY_LIST_PREFIX # concat (map (underlay_frame varint_enc to_vec) (hi_underlays h))")
    case True
    have "length (to_vec a) \<le> length (bz_underlay p)" if "a \<in> set (hi_underlays h)" for a
      using that True by (auto simp: length_concat underlay_frame_def dest!: split_list)
    then have "list_all (\<lambda>a. length (to_vec a) < 2 ^ 64) (hi_underlays h)"
      using assms by (fastforce simp: list_all_iff gossips_def MAX_UNDERLAY_BYTES_def)
    then show ?thesis
      using list_frames [of "hi_underlays h" "[]"] assms True by (simp add: deserialize_underlays_def gossips_def)
  next
    case False
    then show ?thesis
      using assms by (auto simp: deserialize_underlays_def gossips_def try_from_vec)
  qed
  then show ?thesis using assms by (simp add: hint_of_def gossips_def)
qed

end

lemma hint_of_malformed: "malformed p \<Longrightarrow> hint_of varint try_from protocols p = None"
  by (auto simp: malformed_def hint_of_def deserialize_underlays_def)

lemma hint_of_SomeD:
  assumes "hint_of varint try_from protocols p = Some h"
  shows "length (hi_overlay h) = 32" "hi_underlays h \<noteq> []" "length (hi_underlays h) \<le> MAX_UNDERLAYS_PER_PEER"
    "\<exists>a \<in> set (hi_underlays h). extract_peer_id protocols a = Some (hi_peer_id h)" "hi_overlay h = bz_overlay p"
proof -
  obtain us where u: "deserialize_underlays varint try_from (bz_underlay p) = Inr us"
    and h: "h = \<lparr>hi_peer_id = hi_peer_id h, hi_overlay = bz_overlay p, hi_underlays = us\<rparr>"
    and f: "find_map (extract_peer_id protocols) us = Some (hi_peer_id h)" and len: "length (bz_overlay p) = 32"
    using assms by (auto simp: hint_of_def split: if_splits sum.splits option.splits)
  have hs: "hi_underlays h = us" "hi_overlay h = bz_overlay p" by (subst h, simp)+
  show "length (hi_overlay h) = 32" "hi_overlay h = bz_overlay p" using hs len by simp_all
  show "hi_underlays h \<noteq> []" using f hs by auto
  show "length (hi_underlays h) \<le> MAX_UNDERLAYS_PER_PEER" using deserialize_underlays_bound [OF u] hs by simp
  show "\<exists>a \<in> set (hi_underlays h). extract_peer_id protocols a = Some (hi_peer_id h)" using find_map_SomeD [OF f] hs by simp
qed

lemma set_map_filter_id: "set (List.map_filter f xs) = {y. \<exists>x \<in> set xs. f x = Some y}"
  by (induction xs) (auto simp: List.map_filter_simps split: option.splits)

section \<open>Properties\<close>



text \<open>
  C35 Whatever bytes a peer gossips, every hint taken from them has a 32-byte overlay, between one
  and twenty underlays, and the peer id of one of these underlays.
\<close>
theorem decode_peers_wellformed:
  assumes "h \<in> set (decode_peers decode_pb varint try_from protocols body)"
  shows "length (hi_overlay h) = 32 \<and> hi_underlays h \<noteq> [] \<and> length (hi_underlays h) \<le> 20
    \<and> (\<exists>a \<in> set (hi_underlays h). extract_peer_id protocols a = Some (hi_peer_id h))"
proof -
  obtain p where "hint_of varint try_from protocols p = Some h"
    using assms by (auto simp: decode_peers_def set_map_filter_id split: option.splits)
  from hint_of_SomeD [OF this] show ?thesis by (simp add: MAX_UNDERLAYS_PER_PEER_def)
qed

theorem decode_peers_wellformed_witness:
  "length (hi_overlay (hd (decode_peers (\<lambda>b. Some [\<lparr>bz_underlay = [4], bz_signature = [], bz_overlay = replicate 32 7, bz_nonce = []\<rparr>])
     decode_varint Some (\<lambda>a. [P2p a]) []))) = 32"
proof -
  let ?hs = "decode_peers (\<lambda>b. Some [\<lparr>bz_underlay = [4], bz_signature = [], bz_overlay = replicate 32 7, bz_nonce = []\<rparr>])
     decode_varint Some (\<lambda>a. [P2p a]) []"
  have "?hs \<noteq> []"
    by (simp add: decode_peers_def hint_of_def deserialize_underlays_def MAX_UNDERLAY_BYTES_def UNDERLAY_LIST_PREFIX_def
        extract_peer_id_def List.map_filter_simps)
  from decode_peers_wellformed [OF hd_in_set [OF this]] show ?thesis by simp
qed

definition announces :: "sink_env \<Rightarrow> bytes \<Rightarrow> bool" where
  "announces env v \<longleftrightarrow> length v \<le> 32 \<and> sk_write env \<and> drain_tail (sk_tail env) = Inr ()
     \<and> (\<exists>hdr unknown junk. length hdr \<le> 8192 \<and> length (pb_bytes 10 v @ unknown) \<le> 1024
          \<and> sk_stream env = frame hdr @ frame (pb_bytes 10 v @ unknown) @ junk)"

definition garbled :: "sink_env \<Rightarrow> bool" where
  "garbled env \<longleftrightarrow> (case read_sink_body 1024 env of Inl _ \<Rightarrow> True | Inr body \<Rightarrow> parse_announce_threshold body = None)"

lemma pricing_sink_announces: "announces env v \<Longrightarrow> pricing_sink env a = Some (from_be_bytes v)"
  by (auto simp: announces_def pricing_sink_def read_sink_body_def read_delimited_frame_cases parse_announce_threshold_field)

lemma pricing_sink_garbled: "list_all garbled envs \<Longrightarrow> fold pricing_sink envs a = a"
  by (induction envs arbitrary: a) (auto simp: garbled_def pricing_sink_def split: sum.splits)

text \<open>
  The threshold a connection paces itself by is the one of the peer's last readable
  announcement: streams that fail, are cut off, exceed the size limits or do not parse leave it as
  it was, and the announced big-endian number is read exactly.
\<close>
theorem threshold_is_last_announced:
  assumes "announces env v" "list_all garbled later"
  shows "fold pricing_sink (earlier @ env # later) a = Some (from_be_bytes v) \<and> unat (from_be_bytes v :: U256) = be_nat v"
  using assms unat_from_be_bytes [of v, where 'a = 256]
  by (simp add: pricing_sink_announces pricing_sink_garbled announces_def)

theorem threshold_is_last_announced_witness:
  "fold pricing_sink [\<lparr>sk_stream = frame [] @ frame (pb_bytes 10 [1, 0]), sk_write = True, sk_tail = [DrainEof]\<rparr>,
     \<lparr>sk_stream = [], sk_write = True, sk_tail = []\<rparr>] None = Some (from_be_bytes [1, 0])"
proof -
  let ?e = "\<lparr>sk_stream = frame [] @ frame (pb_bytes 10 [1, 0]), sk_write = True, sk_tail = [DrainEof]\<rparr>"
  have "\<exists>hdr unknown junk. length hdr \<le> 8192 \<and> length (pb_bytes 10 [1, 0] @ unknown) \<le> 1024
      \<and> sk_stream ?e = frame hdr @ frame (pb_bytes 10 [1, 0] @ unknown) @ junk"
    by (rule exI [of _ "[]"], rule exI [of _ "[]"], rule exI [of _ "[]"])
      (simp add: pb_bytes_def frame_def encode_varint_small)
  then have "announces ?e [1, 0]" by (simp add: announces_def)
  moreover have "garbled \<lparr>sk_stream = [], sk_write = True, sk_tail = []\<rparr>"
    by (simp add: garbled_def read_sink_body_def read_delimited_def)
  ultimately show ?thesis
    using threshold_is_last_announced [of ?e "[1, 0]" "[\<lparr>sk_stream = [], sk_write = True, sk_tail = []\<rparr>]" "[]" None] by simp
qed

end
