(* ===== verification/Probe.thy ===== *)
theory Probe
  imports Settle Mirror Hive
begin

text \<open>
  The probe of one storer (\<^verbatim>\<open>probe_storer\<close> and \<^verbatim>\<open>read_chequebook_issuable_raw\<close> of
  \<^verbatim>\<open>rust/ds-net/src/direct.rs\<close>): the read of what the chequebook can cover, the reserve cap taken
  from the announced threshold, and the pipelined retrieval tasks that reserve, fetch and account
  concurrently with the settlement task. The accounting object belongs to a library outside the
  sources: it is a record of operations, whose documented behaviour is the locale
  \<open>lawful_accounting\<close>. A step of \<open>probe_step\<close> is one action of one task, in any order.
\<close>

section \<open>Chequebook\<close>

datatype issuable_error = CallFails | WrongLength nat | InvariantOverflow

text \<open>The answers of the two calls, the balance and the amount paid out so far.\<close>

fun sum_calls :: "bytes option list \<Rightarrow> U256 \<Rightarrow> (issuable_error, U256) result" where
  "sum_calls [] acc = Inr acc"
| "sum_calls (None # rest) acc = Inl CallFails"
| "sum_calls (Some out # rest) acc =
     (if length out \<noteq> 32 then Inl (WrongLength (length out))
      else case checked_add acc (from_be_bytes out) of
        None \<Rightarrow> Inl InvariantOverflow
      | Some acc1 \<Rightarrow> sum_calls rest acc1)"

definition read_chequebook_issuable :: "bytes option \<Rightarrow> bytes option \<Rightarrow> (issuable_error, U256) result" where
  "read_chequebook_issuable balance total_paid_out = sum_calls [balance, total_paid_out] 0"

section \<open>Reserve cap\<close>

definition probe_announced :: "U256 option \<Rightarrow> u64" where
  "probe_announced threshold =
     (case threshold of
        None \<Rightarrow> 1350000
      | Some t \<Rightarrow> (case try_word (unat t) of Some w \<Rightarrow> w | None \<Rightarrow> 1350000))"

definition reserve_cap :: "U256 option \<Rightarrow> u64" where
  "reserve_cap threshold = probe_announced threshold div 2"

definition cheque_trigger :: "U256 option \<Rightarrow> u64" where
  "cheque_trigger threshold = reserve_cap threshold div 2"

section \<open>Retrieval tasks\<close>

record 'a accounting =
  ac_snapshot :: "'a \<Rightarrow> (u64 \<times> u64) option"
  ac_reserve :: "u64 \<Rightarrow> 'a \<Rightarrow> 'a option"
  ac_apply :: "u64 \<Rightarrow> 'a \<Rightarrow> 'a"
  ac_drop :: "u64 \<Rightarrow> 'a \<Rightarrow> 'a"
  ac_credit :: "u64 \<Rightarrow> 'a \<Rightarrow> 'a"

definition snapshot_or :: "'a accounting \<Rightarrow> 'a \<Rightarrow> u64 \<times> u64" where
  "snapshot_or A a = (case ac_snapshot A a of Some br \<Rightarrow> br | None \<Rightarrow> (0, 0))"

text \<open>The check and the reservation, under one lock.\<close>

definition probe_reserve :: "'a accounting \<Rightarrow> u64 \<Rightarrow> u64 \<Rightarrow> 'a \<Rightarrow> 'a option" where
  "probe_reserve A cap price a =
     (case snapshot_or A a of (balance, reserved) \<Rightarrow>
        if sat_add (sat_add balance reserved) price \<le> cap then ac_reserve A price a else None)"

datatype chunk_failure = ClosedBeforeReserve | RetrieveFails | TaskPanics

record 'a probe_state =
  pb_acct :: 'a
  pb_alive :: bool
  pb_chunks :: "swarm_address list"
  pb_reserving :: "swarm_address list"
  pb_fetching :: "(swarm_address \<times> u64) list"
  pb_latencies :: "(swarm_address \<times> u64) list"
  pb_errors :: "(swarm_address \<times> chunk_failure) list"
  pb_bytes :: u64

definition probe_start :: "'a \<Rightarrow> swarm_address list \<Rightarrow> 'a probe_state" where
  "probe_start a chunks = \<lparr>pb_acct = a, pb_alive = True, pb_chunks = chunks, pb_reserving = [], pb_fetching = [],
     pb_latencies = [], pb_errors = [], pb_bytes = 0\<rparr>"

definition permits :: "'a probe_state \<Rightarrow> nat" where
  "permits s = length (pb_reserving s) + length (pb_fetching s)"

text \<open>A task that has reserved ends with its latency and the chunk's size, or with a failure; its permit is free again.\<close>

definition fetch_ended :: "'a accounting \<Rightarrow> nat \<Rightarrow> (chunk_failure, u64 \<times> nat) result \<Rightarrow> 'a probe_state \<Rightarrow> 'a probe_state" where
  "fetch_ended A i result s =
     (case pb_fetching s ! i of (addr, price) \<Rightarrow>
        let s1 = s\<lparr>pb_fetching := take i (pb_fetching s) @ drop (Suc i) (pb_fetching s)\<rparr>
        in case result of
             Inr (ms, n) \<Rightarrow>
               s1\<lparr>pb_acct := ac_apply A price (pb_acct s1), pb_bytes := pb_bytes s1 + of_nat n,
                  pb_latencies := pb_latencies s1 @ [(addr, ms)]\<rparr>
           | Inl failure \<Rightarrow>
               s1\<lparr>pb_acct := ac_drop A price (pb_acct s1), pb_errors := pb_errors s1 @ [(addr, failure)]\<rparr>)"

inductive task_step ::
  "'a accounting \<Rightarrow> (swarm_address \<Rightarrow> u64) \<Rightarrow> u64 \<Rightarrow> nat \<Rightarrow> 'a probe_state \<Rightarrow> 'a probe_state \<Rightarrow> bool"
  for A price cap depth where
  spawn: "pb_chunks s = addr # rest \<Longrightarrow> permits s < depth \<Longrightarrow>
     task_step A price cap depth s (s\<lparr>pb_chunks := rest, pb_reserving := pb_reserving s @ [addr]\<rparr>)"
| closed: "pb_reserving s = ahead @ addr # behind \<Longrightarrow> \<not> pb_alive s \<Longrightarrow>
     task_step A price cap depth s
       (s\<lparr>pb_reserving := ahead @ behind, pb_errors := pb_errors s @ [(addr, ClosedBeforeReserve)]\<rparr>)"
| reserve: "pb_reserving s = ahead @ addr # behind \<Longrightarrow> probe_reserve A cap (price addr) (pb_acct s) = Some a \<Longrightarrow>
     task_step A price cap depth s
       (s\<lparr>pb_acct := a, pb_reserving := ahead @ behind, pb_fetching := pb_fetching s @ [(addr, price addr)]\<rparr>)"
| ended: "i < length (pb_fetching s) \<Longrightarrow> task_step A price cap depth s (fetch_ended A i result s)"
| hangup: "task_step A price cap depth s (s\<lparr>pb_alive := False\<rparr>)"

text \<open>Of the settlement task only its credits are seen here.\<close>

inductive probe_step ::
  "'a accounting \<Rightarrow> (swarm_address \<Rightarrow> u64) \<Rightarrow> u64 \<Rightarrow> nat \<Rightarrow> 'a probe_state \<Rightarrow> 'a probe_state \<Rightarrow> bool"
  for A price cap depth where
  tasks: "task_step A price cap depth s s' \<Longrightarrow> probe_step A price cap depth s s'"
| settle: "probe_step A price cap depth s (s\<lparr>pb_acct := ac_credit A amount (pb_acct s)\<rparr>)"

record probe_report =
  rp_chunks_ok :: u64
  rp_chunks_err :: u64
  rp_bytes :: u64
  rp_latencies_ms :: "u64 list"
  rp_settlement :: settlement_summary
  rp_announced_threshold :: "U256 option"
  rp_errors :: "(swarm_address \<times> chunk_failure) list"

definition probe_report_of :: "'a probe_state \<Rightarrow> settlement_summary \<Rightarrow> U256 option \<Rightarrow> probe_report" where
  "probe_report_of s settlement threshold =
     \<lparr>rp_chunks_ok = of_nat (length (pb_latencies s)), rp_chunks_err = of_nat (length (pb_errors s)),
      rp_bytes = pb_bytes s, rp_latencies_ms = map snd (pb_latencies s), rp_settlement = settlement,
      rp_announced_threshold = threshold, rp_errors = pb_errors s\<rparr>"

definition probe_done :: "'a probe_state \<Rightarrow> bool" where
  "probe_done s \<longleftrightarrow> pb_chunks s = [] \<and> pb_reserving s = [] \<and> pb_fetching s = []"

section \<open>Accounting contract\<close>

text \<open>
  A granted reservation adds its price to the reserved amount, applying it moves the price into the
  debt, dropping it gives it back, and a credit only lowers the debt.
\<close>

locale lawful_accounting =
  fixes A :: "'a accounting"
  assumes reserved: "ac_reserve A p a = Some a' \<Longrightarrow> snapshot_or A a = (b, r) \<Longrightarrow> unat b + unat r + unat p < 2 ^ 64 \<Longrightarrow>
      snapshot_or A a' = (b, r + p)"
    and applied: "snapshot_or A a = (b, r) \<Longrightarrow> p \<le> r \<Longrightarrow> unat b + unat p < 2 ^ 64 \<Longrightarrow> snapshot_or A (ac_apply A p a) = (b + p, r - p)"
    and dropped: "snapshot_or A a = (b, r) \<Longrightarrow> p \<le> r \<Longrightarrow> snapshot_or A (ac_drop A p a) = (b, r - p)"
    and credited: "snapshot_or A a = (b, r) \<Longrightarrow> \<exists>b' \<le> b. snapshot_or A (ac_credit A n a) = (b', r)"
begin

definition exposed :: "u64 \<Rightarrow> 'a probe_state \<Rightarrow> bool" where
  "exposed cap s \<longleftrightarrow>
     (case snapshot_or A (pb_acct s) of (b, r) \<Rightarrow>
        unat r = sum_list (map (unat \<circ> snd) (pb_fetching s)) \<and> unat b + unat r \<le> unat cap)"

lemma probe_reserve_exposed:
  assumes "probe_reserve A cap p a = Some a'" "snapshot_or A a = (b, r)" "unat b + unat r \<le> unat cap" "unat cap < 2 ^ 64 - 1"
  shows "\<exists>r'. snapshot_or A a' = (b, r') \<and> unat r' = unat r + unat p \<and> unat b + unat r' \<le> unat cap"
proof -
  have "unat (sat_add (sat_add b r) p) \<le> unat cap" and res: "ac_reserve A p a = Some a'"
    using assms(1,2) by (auto simp: probe_reserve_def word_le_nat_alt split: if_splits)
  then have sum: "unat b + unat r + unat p \<le> unat cap" using assms(4) by (auto simp: unat_sat_add min_def split: if_splits)
  then have fits: "unat b + unat r + unat p < 2 ^ 64" using u64_less [of cap] by simp
  then have "unat (r + p) = unat r + unat p" by (intro unat_add_no_overflow) simp
  with reserved [OF res assms(2) fits] sum show ?thesis by auto
qed

lemma sum_remove_nth:
  "i < length xs \<Longrightarrow> sum_list (map f (take i xs @ drop (Suc i) xs)) + f (xs ! i) = (sum_list (map f xs) :: nat)"
  by (subst (4) id_take_nth_drop [of i]) auto

lemma fetch_ended_exposed:
  assumes "exposed cap s" "i < length (pb_fetching s)"
  shows "exposed cap (fetch_ended A i result s)"
proof -
  obtain b r where snap: "snapshot_or A (pb_acct s) = (b, r)" by force
  obtain addr p where f: "pb_fetching s ! i = (addr, p)" by force
  let ?rest = "take i (pb_fetching s) @ drop (Suc i) (pb_fetching s)"
  have r: "unat r = sum_list (map (unat \<circ> snd) ?rest) + unat p" "unat b + unat r \<le> unat cap"
    using assms snap sum_remove_nth [OF assms(2), of "unat \<circ> snd"] f by (auto simp: exposed_def)
  then have pr: "p \<le> r" "unat (r - p) = sum_list (map (unat \<circ> snd) ?rest)"
    by (auto simp: word_le_nat_alt unat_sub)
  have "unat b + unat p < 2 ^ 64" using r u64_less [of cap] by simp
  then have "unat (b + p) = unat b + unat p" by (intro unat_add_no_overflow) simp
  then show ?thesis
    using applied [OF snap pr(1)] dropped [OF snap pr(1)] r pr \<open>unat b + unat p < 2 ^ 64\<close> f
    by (auto simp: exposed_def fetch_ended_def Let_def split: sum.split)
qed

lemma task_step_exposed:
  assumes "task_step A price cap depth s s'" "exposed cap s" "unat cap < 2 ^ 64 - 1"
  shows "exposed cap s'"
  using assms
proof (induction rule: task_step.induct)
  case (reserve s ahead addr behind a)
  obtain b r where snap: "snapshot_or A (pb_acct s) = (b, r)" by force
  then show ?case
    using probe_reserve_exposed [OF reserve.hyps(2) snap] reserve.prems by (fastforce simp: exposed_def)
next
  case (ended i s result)
  then show ?case using fetch_ended_exposed by blast
qed (auto simp: exposed_def)

lemma probe_step_exposed:
  assumes "probe_step A price cap depth s s'" "exposed cap s" "unat cap < 2 ^ 64 - 1"
  shows "exposed cap s'"
  using assms
proof (induction rule: probe_step.induct)
  case (settle s amount)
  obtain b r where snap: "snapshot_or A (pb_acct s) = (b, r)" by force
  with settle credited [OF snap, of amount] show ?case by (fastforce simp: exposed_def word_le_nat_alt)
qed (rule task_step_exposed)

lemma probe_run_exposed:
  "(probe_step A price cap depth)\<^sup>*\<^sup>* s s' \<Longrightarrow> exposed cap s \<Longrightarrow> unat cap < 2 ^ 64 - 1 \<Longrightarrow> exposed cap s'"
  by (induction rule: rtranclp_induct) (auto intro: probe_step_exposed)

end

text \<open>The client's own mirror, with a ceiling of its own, meets the contract.\<close>

definition mirror_accounting :: "u64 \<Rightarrow> mirror accounting" where
  "mirror_accounting ceiling = \<lparr>ac_snapshot = (\<lambda>m. Some (snapshot m)),
     ac_reserve = (\<lambda>p m. if fst (try_reserve p ceiling m) then Some (snd (try_reserve p ceiling m)) else None),
     ac_apply = apply_price, ac_drop = release, ac_credit = credit\<rparr>"

lemma sat_sub_le: "sat_sub b n \<le> (b :: u64)"
  by (simp add: word_le_nat_alt unat_sat_sub)

interpretation mirrored: lawful_accounting "mirror_accounting ceiling" for ceiling
  by unfold_locales
    (auto simp: mirror_accounting_def snapshot_or_def snapshot_def try_reserve_def apply_price_def release_def credit_def
      sat_sub_le sat_sub_def [of "mi_reserved _"] sat_add_def Let_def split: if_splits)

section \<open>Counting\<close>

definition probe_all :: "'a probe_state \<Rightarrow> swarm_address multiset" where
  "probe_all s = mset (pb_chunks s) + mset (pb_reserving s) + mset (map fst (pb_fetching s)) + mset (map fst (pb_latencies s))
     + mset (map fst (pb_errors s))"

lemma mset_remove_at: "i < length xs \<Longrightarrow> mset xs = add_mset (xs ! i) (mset (take i xs @ drop (Suc i) xs))"
  by (subst (1) id_take_nth_drop [of i xs]) simp_all

lemma fetch_ended_all:
  assumes "i < length (pb_fetching s)"
  shows "probe_all (fetch_ended A i result s) = probe_all s"
proof -
  obtain addr p where f: "pb_fetching s ! i = (addr, p)" by force
  have "mset (map fst (pb_fetching s)) = add_mset addr (mset (map fst (take i (pb_fetching s) @ drop (Suc i) (pb_fetching s))))"
    using arg_cong [OF mset_remove_at [OF assms], of "image_mset fst"] f by simp
  then show ?thesis by (simp add: probe_all_def fetch_ended_def f Let_def split: sum.split)
qed

lemma tasks_run: "(task_step A price cap depth)\<^sup>*\<^sup>* s s' \<Longrightarrow> (probe_step A price cap depth)\<^sup>*\<^sup>* s s'"
  by (induction rule: rtranclp_induct) (auto intro: rtranclp.rtrancl_into_rtrancl probe_step.tasks)

lemma task_step_all:
  assumes "task_step A price cap depth s s'"
  shows "probe_all s' = probe_all s" "permits s \<le> depth \<Longrightarrow> permits s' \<le> depth"
proof -
  show "probe_all s' = probe_all s"
    using assms by (induction rule: task_step.induct) (simp_all add: fetch_ended_all, simp_all add: probe_all_def)
  show "permits s \<le> depth \<Longrightarrow> permits s' \<le> depth"
    using assms by (induction rule: task_step.induct)
      (auto simp: permits_def fetch_ended_def Let_def split: sum.split prod.split)
qed

lemma probe_step_all:
  assumes "probe_step A price cap depth s s'"
  shows "probe_all s' = probe_all s" "permits s \<le> depth \<Longrightarrow> permits s' \<le> depth"
  using assms
  by (induction rule: probe_step.induct)
    (simp_all add: task_step_all, simp_all add: probe_all_def permits_def)

lemma probe_run_all:
  "(probe_step A price cap depth)\<^sup>*\<^sup>* s s' \<Longrightarrow> probe_all s' = probe_all s \<and> (permits s \<le> depth \<longrightarrow> permits s' \<le> depth)"
proof (induction rule: rtranclp_induct)
  case (step s1 s2)
  then show ?case using probe_step_all [OF step.hyps(2)] by simp
qed simp

lemma probe_run_within:
  assumes "lawful_accounting A" "snapshot_or A a = (0, 0)" "(probe_step A price (reserve_cap t) depth)\<^sup>*\<^sup>* (probe_start a chunks) s"
  shows "unat (fst (snapshot_or A (pb_acct s))) + unat (snd (snapshot_or A (pb_acct s))) \<le> unat (probe_announced t) div 2
    \<and> length (pb_reserving s) + length (pb_fetching s) \<le> depth"
proof -
  have cap: "unat (reserve_cap t) = unat (probe_announced t) div 2" "unat (reserve_cap t) < 2 ^ 64 - 1"
    using u64_less [of "probe_announced t"] by (simp_all add: reserve_cap_def unat_div)
  have "lawful_accounting.exposed A (reserve_cap t) (probe_start a chunks)"
    using assms(2) by (simp add: lawful_accounting.exposed_def [OF assms(1)] probe_start_def)
  from lawful_accounting.probe_run_exposed [OF assms(1,3) this cap(2)]
  have "unat (fst (snapshot_or A (pb_acct s))) + unat (snd (snapshot_or A (pb_acct s))) \<le> unat (reserve_cap t)"
    by (simp add: lawful_accounting.exposed_def [OF assms(1)] split: prod.splits)
  moreover have "permits s \<le> depth" using probe_run_all [OF assms(3)] by (simp add: permits_def probe_start_def)
  ultimately show ?thesis using cap(1) by (simp add: permits_def)
qed

section \<open>Properties\<close>

text \<open>
  While a storer is probed, debt and reservations together never exceed half the announced
  payment threshold, whatever the order in which the concurrent retrieval tasks reserve, finish and
  fail and the settlement task credits, and at most \<open>pipeline_depth\<close> of them run.
\<close>
theorem probe_exposure_bounded:
  assumes "lawful_accounting A" "snapshot_or A a = (0, 0)" "(probe_step A price (reserve_cap t) depth)\<^sup>*\<^sup>* (probe_start a chunks) s"
  shows "unat (fst (snapshot_or A (pb_acct s))) + unat (snd (snapshot_or A (pb_acct s))) \<le> unat (probe_announced t) div 2
    \<and> length (pb_reserving s) + length (pb_fetching s) \<le> depth"
  using assms by (rule probe_run_within)

definition sample_probed :: "mirror probe_state" where
  "sample_probed = (probe_start mirror_default [])\<lparr>pb_acct := \<lparr>mi_balance = 0, mi_reserved = 300000\<rparr>, pb_fetching := [([1], 300000)]\<rparr>"

lemma sample_task_run:
  "(task_step (mirror_accounting 2000000) (\<lambda>_. 300000) (reserve_cap None) 4)\<^sup>*\<^sup>* (probe_start mirror_default [[1]]) sample_probed"
proof -
  let ?step = "task_step (mirror_accounting 2000000) (\<lambda>_. 300000) (reserve_cap None) 4"
  let ?sa = "(probe_start mirror_default [])\<lparr>pb_reserving := [[1]]\<rparr>"
  have st1: "?step (probe_start mirror_default [[1]]) ?sa"
    using task_step.spawn [where s = "probe_start mirror_default [[1]]" and addr = "[1]" and rest = "[]"]
    by (simp add: probe_start_def permits_def)
  have "probe_reserve (mirror_accounting 2000000) (reserve_cap None) 300000 mirror_default
      = Some \<lparr>mi_balance = 0, mi_reserved = 300000\<rparr>"
    by (simp add: probe_reserve_def mirror_accounting_def snapshot_or_def snapshot_def try_reserve_def mirror_default_def sat_add_def
        reserve_cap_def probe_announced_def word_le_nat_alt word_less_nat_alt unat_div)
  then have st2: "?step ?sa sample_probed"
    using task_step.reserve [where s = ?sa and ahead = "[]" and addr = "[1]" and behind = "[]" and A = "mirror_accounting 2000000"
        and cap = "reserve_cap None" and price = "\<lambda>_. 300000"]
    by (simp add: probe_start_def sample_probed_def)
  show ?thesis
    by (rule converse_rtranclp_into_rtranclp [where r = ?step, OF st1], rule r_into_rtranclp [where r = ?step, OF st2])
qed

lemma sample_probe_run:
  "(probe_step (mirror_accounting 2000000) (\<lambda>_. 300000) (reserve_cap None) 4)\<^sup>*\<^sup>* (probe_start mirror_default [[1]]) sample_probed"
  by (rule tasks_run [OF sample_task_run])

theorem probe_exposure_bounded_witness:
  "unat (fst (snapshot_or (mirror_accounting 2000000) (pb_acct sample_probed)))
     + unat (snd (snapshot_or (mirror_accounting 2000000) (pb_acct sample_probed))) \<le> 675000"
proof -
  have "snapshot_or (mirror_accounting 2000000) mirror_default = (0, 0)"
    by (simp add: snapshot_or_def mirror_accounting_def snapshot_def mirror_default_def)
  from probe_exposure_bounded [OF mirrored.lawful_accounting_axioms this sample_probe_run]
  show ?thesis by (simp add: probe_announced_def)
qed

text \<open>
  A probe that ends has an outcome for every chunk: the addresses of the served and of the failed
  chunks together are exactly the requested ones, so the report's counts add up to their number.
\<close>
theorem probe_counts_every_chunk:
  assumes "(probe_step A price cap depth)\<^sup>*\<^sup>* (probe_start a chunks) s" "probe_done s" "length chunks < 2 ^ 64"
  shows "mset (map fst (pb_latencies s)) + mset (map fst (pb_errors s)) = mset chunks
    \<and> unat (rp_chunks_ok (probe_report_of s su t)) + unat (rp_chunks_err (probe_report_of s su t)) = length chunks"
proof -
  have all: "mset (map fst (pb_latencies s)) + mset (map fst (pb_errors s)) = mset chunks"
    using probe_run_all [OF assms(1)] assms(2) by (simp add: probe_all_def probe_start_def probe_done_def)
  then have "size (mset (map fst (pb_latencies s)) + mset (map fst (pb_errors s))) = size (mset chunks)" by simp
  then have len: "length (pb_latencies s) + length (pb_errors s) = length chunks" by simp
  then have "length (pb_latencies s) < 2 ^ 64" "length (pb_errors s) < 2 ^ 64" using assms(3) by simp_all
  with all len show ?thesis by (simp add: probe_report_of_def unat_of_nat)
qed

theorem probe_counts_every_chunk_witness:
  "mset (map fst (pb_latencies (fetch_ended (mirror_accounting 2000000) 0 (Inr (5, 4096)) sample_probed)))
     + mset (map fst (pb_errors (fetch_ended (mirror_accounting 2000000) 0 (Inr (5, 4096)) sample_probed))) = {#[1]#}"
proof -
  let ?step = "probe_step (mirror_accounting 2000000) (\<lambda>_. 300000) (reserve_cap None) 4"
  let ?s = "fetch_ended (mirror_accounting 2000000) 0 (Inr (5, 4096)) sample_probed"
  have "?step sample_probed ?s" by (intro probe_step.tasks task_step.ended) (simp add: sample_probed_def)
  with sample_probe_run have run: "?step\<^sup>*\<^sup>* (probe_start mirror_default [[1]]) ?s" by (rule rtranclp.rtrancl_into_rtrancl)
  have "probe_done ?s" by (simp add: probe_done_def fetch_ended_def sample_probed_def probe_start_def)
  from probe_counts_every_chunk [OF run this] show ?thesis by simp
qed

text \<open>
  The amount the chequebook can cover is the exact sum of its balance and what it has paid out, and
  every failed call, short answer or overflow is an error.
\<close>
lemma issuable_exact:
  assumes "read_chequebook_issuable bal out = Inr v"
  shows "\<exists>b p. bal = Some b \<and> out = Some p \<and> length b = 32 \<and> length p = 32 \<and> unat v = be_nat b + be_nat p"
proof -
  obtain b p where bp: "bal = Some b" "out = Some p" "length b = 32" "length p = 32"
      "Option.bind (checked_add 0 (from_be_bytes b :: U256)) (\<lambda>x. checked_add x (from_be_bytes p)) = Some v"
    using assms by (cases bal; cases out) (auto simp: read_chequebook_issuable_def split: if_splits option.splits)
  then have "unat v = unat (from_be_bytes b :: U256) + unat (from_be_bytes p :: U256)"
    by (auto simp: bind_eq_Some_conv dest!: checked_add_SomeD)
  with bp show ?thesis using unat_from_be_bytes [of b, where 'a = 256] unat_from_be_bytes [of p, where 'a = 256] by simp
qed

end
