(* ===== verification/Growth_Probe.thy ===== *)
theory Growth_Probe
  imports Issuer Probe
begin

text \<open>
  The single-connection growth measurement (\<^verbatim>\<open>rust/ds-net/src/growth.rs\<close>): the connection's settlement
  operations, the growth and ceiling fetch phases, the latency samples, the final sweep and their
  sequence in \<^verbatim>\<open>probe_growth\<close>. Time is a millisecond count passed in; what the network answers and
  which fetches end at each point where the loop is suspended is input. The events written to the
  log are the trace \<open>gc_log\<close> of the connection that writes them.
\<close>

section \<open>Events\<close>

datatype growth_event =
  EvStart swarm_address u64 nat
| EvPhase string
| EvThreshold u64 u64
| EvSpendCap
| EvCheque u64 U256 U256
| EvPrepay u64 U256 U256
| EvSample string u64 nat u64
| EvPhaseEnd string u64 u64
| EvLambdaSkipped
| EvLambdaProbe u64 u64
| EvLambda u64 u64
| EvLambdaTimeout u64
| EvFinalConfirm u64
| EvEnd u64 u64 u64 u128 u64

section \<open>Connection\<close>

record growth_conn =
  gc_overlay :: swarm_address
  gc_beneficiary :: bytes
  gc_acct :: mirror
  gc_spend :: spend_state
  gc_issuable :: U256
  gc_max_issue_plur :: u64
  gc_exchange_rate :: "u128 option"
  gc_announced :: "U256 option"
  gc_cheques :: u64
  gc_cheque_units :: u64
  gc_cheque_plur :: u128
  gc_refreshes :: u64
  gc_refresh_units :: u64
  gc_last_refresh :: "nat option"
  gc_last_cheque :: "nat option"
  gc_unvalidated :: "(nat \<times> u64) list"
  gc_prepaid :: u64
  gc_log :: "growth_event list"

definition log_event :: "growth_event \<Rightarrow> growth_conn \<Rightarrow> growth_conn" where
  "log_event e c = c\<lparr>gc_log := gc_log c @ [e]\<rparr>"

definition GROWTH_CHEQUE_INTERVAL :: nat where "GROWTH_CHEQUE_INTERVAL = 3000"
definition GROWTH_DEFAULT_RATE :: u128 where "GROWTH_DEFAULT_RATE = 100000"

definition gc_threshold :: "growth_conn \<Rightarrow> u64" where
  "gc_threshold c =
     (case gc_announced c of
        None \<Rightarrow> DEFAULT_THRESHOLD
      | Some t \<Rightarrow> (case try_word (unat t) of Some w \<Rightarrow> w | None \<Rightarrow> DEFAULT_THRESHOLD))"

definition gc_debt :: "growth_conn \<Rightarrow> u64 \<times> u64" where
  "gc_debt c = snapshot (gc_acct c)"

definition gc_rate :: "growth_conn \<Rightarrow> u128" where
  "gc_rate c = (case gc_exchange_rate c of Some r \<Rightarrow> r | None \<Rightarrow> GROWTH_DEFAULT_RATE)"

definition spend_would_exceed :: "u64 \<Rightarrow> growth_conn \<Rightarrow> bool" where
  "spend_would_exceed next_price c =
     (let (debt, reserved) = gc_debt c;
          unpaid = sat_sub (debt + reserved + next_price) (gc_prepaid c);
          projected = (ucast (sp_issued (gc_spend c)) :: u128) + ucast unpaid * gc_rate c
      in ucast (gc_max_issue_plur c) * 92 div 100 < projected)"

definition gc_refresh :: "u64 option \<Rightarrow> nat \<Rightarrow> growth_conn \<Rightarrow> growth_conn" where
  "gc_refresh accepted now c =
     (if sat_sub (fst (gc_debt c)) (gc_prepaid c) = 0 then c\<lparr>gc_last_refresh := Some now\<rparr>
      else
        let c1 = (case accepted of
                    Some n \<Rightarrow>
                      if 0 < n then c\<lparr>gc_acct := credit n (gc_acct c), gc_refreshes := gc_refreshes c + 1,
                                      gc_refresh_units := gc_refresh_units c + n\<rparr>
                      else c
                  | None \<Rightarrow> c)
        in c1\<lparr>gc_last_refresh := Some now\<rparr>)"

definition gc_cheque :: "u64 \<Rightarrow> growth_conn \<Rightarrow> cheque_emit" where
  "gc_cheque units c = \<lparr>ce_beneficiary = gc_beneficiary c, ce_debt_units = units, ce_issuable = gc_issuable c,
     ce_max_issue_plur = gc_max_issue_plur c\<rparr>"

definition gc_count :: "nat \<Rightarrow> u64 \<Rightarrow> rate_emit_outcome \<Rightarrow> growth_conn \<Rightarrow> growth_conn" where
  "gc_count now units r c = c\<lparr>gc_cheques := gc_cheques c + 1, gc_cheque_units := gc_cheque_units c + units,
     gc_cheque_plur := gc_cheque_plur c + eo_plur r,
     gc_exchange_rate := (if gc_exchange_rate c = None then Some (eo_rate r) else gc_exchange_rate c),
     gc_unvalidated := gc_unvalidated c @ [(now, units)]\<rparr>"

definition gc_emit ::
  "cheque_tools \<Rightarrow> emit_env \<Rightarrow> nat \<Rightarrow> u64 \<Rightarrow> growth_conn \<Rightarrow> (emit_error, unit) result \<times> growth_conn" where
  "gc_emit tools env now units c =
     (case emit_settlement_cheque tools (gc_cheque units c) env (gc_spend c) of
        (Inl err, s) \<Rightarrow> (Inl err, c\<lparr>gc_spend := s\<rparr>)
      | (Inr (r, _), s) \<Rightarrow>
          (Inr (), log_event (EvCheque units (eo_plur_u256 r) (eo_cumulative r))
             (gc_count now units r (c\<lparr>gc_spend := s, gc_acct := credit units (gc_acct c), gc_last_cheque := Some now\<rparr>))))"

definition gc_prepay ::
  "cheque_tools \<Rightarrow> emit_env \<Rightarrow> nat \<Rightarrow> u64 \<Rightarrow> growth_conn \<Rightarrow> (emit_error, unit) result \<times> growth_conn" where
  "gc_prepay tools env now units c =
     (case emit_settlement_cheque tools (gc_cheque units c) env (gc_spend c) of
        (Inl err, s) \<Rightarrow> (Inl err, c\<lparr>gc_spend := s\<rparr>)
      | (Inr (r, _), s) \<Rightarrow>
          (Inr (), log_event (EvPrepay units (eo_plur_u256 r) (eo_cumulative r))
             (gc_count now units r (c\<lparr>gc_spend := s, gc_prepaid := units\<rparr>))))"

definition unvalidated_within :: "nat \<Rightarrow> nat \<Rightarrow> growth_conn \<Rightarrow> u64 \<times> growth_conn" where
  "unvalidated_within now window_ms c =
     (let q = dropWhile (\<lambda>(at, _). window_ms < now - at) (gc_unvalidated c)
      in (sum_list (map snd q), c\<lparr>gc_unvalidated := q\<rparr>))"

section \<open>Fetch phases\<close>

datatype phase_mode = Growth | Ceiling nat

definition phase_name :: "phase_mode \<Rightarrow> string" where
  "phase_name mode = (case mode of Growth \<Rightarrow> ''growth'' | Ceiling _ \<Rightarrow> ''ceiling'')"

text \<open>How a fetch ends: with its milliseconds and the chunk's size, or with the text of its error.\<close>

type_synonym fetch_end = "(string, u64 \<times> nat) result"

definition conn_pipeline_depth :: "phase_mode \<Rightarrow> nat \<Rightarrow> nat" where
  "conn_pipeline_depth mode configured = (case mode of Growth \<Rightarrow> min configured 8 | Ceiling _ \<Rightarrow> configured)"

definition ceiling_limit :: "u64 \<Rightarrow> u64 \<Rightarrow> u64 \<Rightarrow> u64" where
  "ceiling_limit prepaid t unvalidated = sat_sub (prepaid + t * 105 div 100) unvalidated"

definition phase_limit :: "phase_mode \<Rightarrow> nat \<Rightarrow> u64 \<Rightarrow> growth_conn \<Rightarrow> u64 \<times> growth_conn" where
  "phase_limit mode now t c =
     (case mode of
        Growth \<Rightarrow> (t div 2, c)
      | Ceiling w \<Rightarrow> (case unvalidated_within now w c of (u, c1) \<Rightarrow> (ceiling_limit (gc_prepaid c1) t u, c1)))"

record phase_state =
  ph_conn :: growth_conn
  ph_tasks :: "task list"
  ph_results :: "(swarm_address \<times> fetch_end) list"
  ph_cycle :: nat
  ph_last_threshold :: u64
  ph_last_upgrade :: nat
  ph_stopping :: bool
  ph_capped :: bool
  ph_fetches_ok :: u64
  ph_fetches_err :: u64
  ph_bytes :: u64
  ph_latencies :: "u64 list"
  ph_errors :: "(swarm_address \<times> string) list"
  ph_sample_at :: nat
  ph_sample_fetches :: u64

text \<open>A running fetch is in \<open>ph_tasks\<close>; its result waits in \<open>ph_results\<close> for the loop to reap it.\<close>

definition phase_len :: "phase_state \<Rightarrow> nat" where
  "phase_len st = length (ph_tasks st) + length (ph_results st)"

definition end_fetch :: "(swarm_address \<Rightarrow> fetch_end) \<Rightarrow> nat \<Rightarrow> phase_state \<Rightarrow> phase_state" where
  "end_fetch net i st =
     (if i < length (ph_tasks st) then
        let (addr, price) = ph_tasks st ! i; c = ph_conn st
        in st\<lparr>ph_tasks := take i (ph_tasks st) @ drop (Suc i) (ph_tasks st), ph_results := ph_results st @ [(addr, net addr)],
              ph_conn := c\<lparr>gc_acct := (case net addr of Inr _ \<Rightarrow> apply_price price (gc_acct c)
                                      | Inl _ \<Rightarrow> release price (gc_acct c))\<rparr>\<rparr>
      else st)"

definition end_fetches :: "(swarm_address \<Rightarrow> fetch_end) \<Rightarrow> nat list \<Rightarrow> phase_state \<Rightarrow> phase_state" where
  "end_fetches net is st = fold (end_fetch net) is st"

definition reap_one :: "swarm_address \<times> fetch_end \<Rightarrow> phase_state \<Rightarrow> phase_state" where
  "reap_one res st =
     (case res of
        (_, Inr (ms, n)) \<Rightarrow>
          st\<lparr>ph_fetches_ok := ph_fetches_ok st + 1, ph_sample_fetches := ph_sample_fetches st + 1,
             ph_bytes := ph_bytes st + of_nat n, ph_latencies := ph_latencies st @ [ms]\<rparr>
      | (addr, Inl err) \<Rightarrow>
          st\<lparr>ph_fetches_err := ph_fetches_err st + 1,
             ph_errors := (if length (ph_errors st) < 20 then ph_errors st @ [(addr, err)] else ph_errors st)\<rparr>)"

definition reap :: "phase_state \<Rightarrow> phase_state" where
  "reap st = fold reap_one (ph_results st) (st\<lparr>ph_results := []\<rparr>)"

definition track_threshold :: "nat \<Rightarrow> phase_state \<Rightarrow> phase_state" where
  "track_threshold now st =
     (let t = gc_threshold (ph_conn st)
      in if t \<noteq> ph_last_threshold st
         then st\<lparr>ph_conn := log_event (EvThreshold t (ph_last_threshold st)) (ph_conn st),
                 ph_last_threshold := t, ph_last_upgrade := now\<rparr>
         else st)"

definition stop_check :: "phase_mode \<Rightarrow> nat \<Rightarrow> nat \<Rightarrow> nat \<Rightarrow> bool \<Rightarrow> phase_state \<Rightarrow> phase_state" where
  "stop_check mode started wall_cap now alive st =
     (let plateau = (mode = Growth \<and> 300000 \<le> now - started \<and> 240000 \<le> now - ph_last_upgrade st)
      in if \<not> ph_stopping st \<and> (wall_cap \<le> now - started \<or> plateau \<or> \<not> alive)
         then st\<lparr>ph_stopping := True\<rparr> else st)"

function spawn_loop ::
  "(swarm_address \<Rightarrow> swarm_address \<Rightarrow> u64) \<Rightarrow> swarm_address list \<Rightarrow> phase_mode \<Rightarrow> nat \<Rightarrow> nat \<Rightarrow> phase_state \<Rightarrow> phase_state" where
  "spawn_loop peer_price chunks mode depth now st =
     (if ph_stopping st \<or> depth \<le> phase_len st then st
      else
        let addr = chunks ! (ph_cycle st mod length chunks);
            price = peer_price (gc_overlay (ph_conn st)) addr
        in if spend_would_exceed price (ph_conn st) then st\<lparr>ph_conn := log_event EvSpendCap (ph_conn st), ph_capped := True, ph_stopping := True\<rparr>
           else
             let (limit, c1) = phase_limit mode now (ph_last_threshold st) (ph_conn st);
                 (ok, m) = try_reserve price limit (gc_acct c1);
                 st1 = st\<lparr>ph_conn := c1\<lparr>gc_acct := m\<rparr>\<rparr>
             in if \<not> ok then st1
                else spawn_loop peer_price chunks mode depth now
                       (st1\<lparr>ph_cycle := ph_cycle st1 + 1, ph_tasks := ph_tasks st1 @ [(addr, price)]\<rparr>))"
  by pat_completeness auto
termination
  by (relation "measure (\<lambda>(_, _, _, depth, _, st). depth - phase_len st)") (auto simp: phase_len_def)

declare spawn_loop.simps [simp del]

definition cheque_decision :: "phase_mode \<Rightarrow> nat \<Rightarrow> u64 \<Rightarrow> growth_conn \<Rightarrow> bool \<times> u64" where
  "cheque_decision mode now t c =
     (let debt_now = fst (gc_debt c)
      in case mode of
           Growth \<Rightarrow> (due now GROWTH_CHEQUE_INTERVAL (gc_last_cheque c) \<and> t div 4 \<le> debt_now, min debt_now (t div 4))
         | Ceiling _ \<Rightarrow>
             let unpaid = sat_sub debt_now (gc_prepaid c)
             in (due now 500 (gc_last_cheque c) \<and> t div 5 \<le> unpaid, unpaid))"

record phase_input =
  pi_now :: nat
  pi_announced :: "U256 option"
  pi_alive :: bool
  pi_net :: "swarm_address \<Rightarrow> fetch_end"
  pi_done_spawned :: "nat list"
  pi_refresh :: "u64 option"
  pi_done_refreshed :: "nat list"
  pi_alive_cheque :: bool
  pi_env :: emit_env
  pi_done_emitted :: "nat list"
  pi_sampled :: nat

definition phase_refresh :: "phase_input \<Rightarrow> phase_state \<Rightarrow> phase_state" where
  "phase_refresh inp st =
     (if due (pi_now inp) REFRESH_MIN_INTERVAL (gc_last_refresh (ph_conn st)) then
        end_fetches (pi_net inp) (pi_done_refreshed inp)
          (st\<lparr>ph_conn := gc_refresh (pi_refresh inp) (pi_now inp) (ph_conn st)\<rparr>)
      else st)"

definition phase_cheque :: "cheque_tools \<Rightarrow> phase_mode \<Rightarrow> phase_input \<Rightarrow> phase_state \<Rightarrow> phase_state" where
  "phase_cheque tools mode inp st =
     (case cheque_decision mode (pi_now inp) (ph_last_threshold st) (ph_conn st) of
        (want, units) \<Rightarrow>
          if want \<and> pi_alive_cheque inp then
            end_fetches (pi_net inp) (pi_done_emitted inp)
              (st\<lparr>ph_conn := snd (gc_emit tools (pi_env inp) (pi_now inp) units (ph_conn st))\<rparr>)
          else st)"

definition phase_sample :: "phase_mode \<Rightarrow> nat \<Rightarrow> phase_state \<Rightarrow> phase_state" where
  "phase_sample mode now st =
     (if 30000 \<le> now - ph_sample_at st then
        st\<lparr>ph_conn := log_event (EvSample (phase_name mode) (ph_sample_fetches st) (now - ph_sample_at st) (ph_last_threshold st))
             (ph_conn st),
           ph_sample_at := now, ph_sample_fetches := 0\<rparr>
      else st)"

definition phase_pass ::
  "cheque_tools \<Rightarrow> (swarm_address \<Rightarrow> swarm_address \<Rightarrow> u64) \<Rightarrow> swarm_address list \<Rightarrow> phase_mode \<Rightarrow> nat \<Rightarrow> nat \<Rightarrow> nat \<Rightarrow>
   phase_input \<Rightarrow> phase_state \<Rightarrow> bool \<times> phase_state" where
  "phase_pass tools peer_price chunks mode pipeline started wall_cap inp st =
     (let st0 = st\<lparr>ph_conn := (ph_conn st)\<lparr>gc_announced := pi_announced inp\<rparr>\<rparr>;
          st1 = stop_check mode started wall_cap (pi_now inp) (pi_alive inp) (track_threshold (pi_now inp) st0);
          st2 = spawn_loop peer_price chunks mode (conn_pipeline_depth mode pipeline) (pi_now inp) st1;
          st3 = reap (end_fetches (pi_net inp) (pi_done_spawned inp) st2);
          st4 = phase_sample mode (pi_sampled inp) (phase_cheque tools mode inp (phase_refresh inp st3))
      in (ph_stopping st4 \<and> phase_len st4 = 0, st4))"

fun run_fetch_phase ::
  "cheque_tools \<Rightarrow> (swarm_address \<Rightarrow> swarm_address \<Rightarrow> u64) \<Rightarrow> swarm_address list \<Rightarrow> phase_mode \<Rightarrow> nat \<Rightarrow> nat \<Rightarrow> nat \<Rightarrow>
   phase_input list \<Rightarrow> phase_state \<Rightarrow> bool \<times> phase_state" where
  "run_fetch_phase tools peer_price chunks mode pipeline started wall_cap [] st = (False, st)"
| "run_fetch_phase tools peer_price chunks mode pipeline started wall_cap (inp # inps) st =
     (case phase_pass tools peer_price chunks mode pipeline started wall_cap inp st of
        (True, st1) \<Rightarrow> (True, st1)
      | (False, st1) \<Rightarrow> run_fetch_phase tools peer_price chunks mode pipeline started wall_cap inps st1)"

definition phase_start :: "phase_mode \<Rightarrow> nat \<Rightarrow> nat \<Rightarrow> growth_conn \<Rightarrow> phase_state" where
  "phase_start mode now cycle c = \<lparr>ph_conn = log_event (EvPhase (phase_name mode)) c, ph_tasks = [], ph_results = [],
     ph_cycle = cycle, ph_last_threshold = gc_threshold c, ph_last_upgrade = now, ph_stopping = False, ph_capped = False,
     ph_fetches_ok = 0, ph_fetches_err = 0, ph_bytes = 0, ph_latencies = [], ph_errors = [], ph_sample_at = now,
     ph_sample_fetches = 0\<rparr>"

definition latency_quantile :: "nat \<Rightarrow> u64 list \<Rightarrow> u64" where
  "latency_quantile q latencies =
     (let sorted = sort latencies; i = length sorted * q div 100 in if i < length sorted then sorted ! i else 0)"

definition phase_end :: "phase_mode \<Rightarrow> phase_state \<Rightarrow> growth_conn" where
  "phase_end mode st =
     log_event (EvPhaseEnd (phase_name mode) (latency_quantile 50 (ph_latencies st)) (latency_quantile 95 (ph_latencies st)))
       (ph_conn st)"

record phase_stats =
  st_fetches_ok :: u64
  st_fetches_err :: u64
  st_bytes :: u64
  st_units_settled :: u64
  st_threshold_end :: u64

definition default_stats :: phase_stats where
  "default_stats = \<lparr>st_fetches_ok = 0, st_fetches_err = 0, st_bytes = 0, st_units_settled = 0, st_threshold_end = 0\<rparr>"

definition phase_stats_of :: "growth_conn \<Rightarrow> phase_state \<Rightarrow> phase_stats" where
  "phase_stats_of c0 st =
     (let c = ph_conn st
      in \<lparr>st_fetches_ok = ph_fetches_ok st, st_fetches_err = ph_fetches_err st, st_bytes = ph_bytes st,
          st_units_settled = (gc_cheque_units c + gc_refresh_units c) - (gc_cheque_units c0 + gc_refresh_units c0),
          st_threshold_end = gc_threshold c\<rparr>)"

section \<open>Latency samples\<close>

text \<open>
  The loop that builds debt: one entry per pass holds the liveness flag and the fetch result, the
  end of the list is the deadline. The result tells whether the connection died.
\<close>

fun lambda_build ::
  "(swarm_address \<Rightarrow> swarm_address \<Rightarrow> u64) \<Rightarrow> swarm_address list \<Rightarrow> u64 \<Rightarrow> (bool \<times> bool) list \<Rightarrow> nat \<Rightarrow> growth_conn \<Rightarrow>
   bool \<times> nat \<times> growth_conn" where
  "lambda_build peer_price chunks t [] cycle c = (False, cycle, c)"
| "lambda_build peer_price chunks t ((alive, fetched) # rest) cycle c =
     (if t * 4 div 10 \<le> fst (gc_debt c) then (False, cycle, c)
      else if \<not> alive then (True, cycle, c)
      else
        let addr = chunks ! (cycle mod length chunks); price = peer_price (gc_overlay c) addr
        in if spend_would_exceed price c then (False, cycle, c)
           else case try_reserve price (t div 2) (gc_acct c) of
             (False, m) \<Rightarrow> (False, cycle, c\<lparr>gc_acct := m\<rparr>)
           | (True, m) \<Rightarrow>
               lambda_build peer_price chunks t rest (cycle + 1)
                 (c\<lparr>gc_acct := (if fetched then apply_price price m else release price m)\<rparr>))"

definition gc_note_accepted :: "u64 \<Rightarrow> growth_conn \<Rightarrow> growth_conn" where
  "gc_note_accepted accepted c =
     (if 0 < accepted then c\<lparr>gc_refreshes := gc_refreshes c + 1, gc_refresh_units := gc_refresh_units c + accepted\<rparr> else c)"

fun lambda_probe :: "u64 \<Rightarrow> nat \<Rightarrow> nat \<Rightarrow> (u64 option \<times> nat) list \<Rightarrow> u64 option \<Rightarrow> growth_conn \<Rightarrow> u64 option \<times> growth_conn" where
  "lambda_probe swept since timeout [] zero_at c =
     (None, (log_event (EvLambdaTimeout swept) c)\<lparr>gc_last_refresh := Some (since + timeout)\<rparr>)"
| "lambda_probe swept since timeout ((None, elapsed) # rest) zero_at c = lambda_probe swept since timeout rest zero_at c"
| "lambda_probe swept since timeout ((Some accepted, elapsed) # rest) zero_at c =
     (let c1 = log_event (EvLambdaProbe accepted (elapsed_ms elapsed)) (gc_note_accepted accepted c) in
      if accepted \<noteq> 0 then lambda_probe swept since timeout rest None c1
      else case zero_at of
        Some first \<Rightarrow> (Some first, (log_event (EvLambda first swept) c1)\<lparr>gc_last_refresh := Some (since + elapsed)\<rparr>)
      | None \<Rightarrow> lambda_probe swept since timeout rest (Some (elapsed_ms elapsed)) c1)"

record lambda_input =
  li_announced :: "U256 option"
  li_builds :: "(bool \<times> bool) list"
  li_env :: emit_env
  li_now :: nat
  li_probes :: "(probe_env \<times> nat) list"
  li_timeout :: nat

definition lambda_sample ::
  "cheque_tools \<Rightarrow> (swarm_address \<Rightarrow> swarm_address \<Rightarrow> u64) \<Rightarrow> swarm_address list \<Rightarrow> lambda_input \<Rightarrow> nat \<Rightarrow> growth_conn \<Rightarrow>
   u64 option \<times> nat \<times> growth_conn" where
  "lambda_sample tools peer_price chunks inp cycle c =
     (let c0 = c\<lparr>gc_announced := li_announced inp\<rparr> in
      case lambda_build peer_price chunks (gc_threshold c0) (li_builds inp) cycle c0 of
        (True, cycle1, c1) \<Rightarrow> (None, cycle1, c1)
      | (False, cycle1, c1) \<Rightarrow>
          let debt = fst (gc_debt c1) in
          if debt < LAMBDA_PROBE_UNITS * 4 then (None, cycle1, log_event EvLambdaSkipped c1)
          else case gc_emit tools (li_env inp) (li_now inp) debt c1 of
            (Inl _, c2) \<Rightarrow> (None, cycle1, c2)
          | (Inr _, c2) \<Rightarrow>
              (case lambda_probe debt (li_now inp) (li_timeout inp) (map probe_answer (li_probes inp)) None c2 of
                 (l, c3) \<Rightarrow> (l, cycle1, c3)))"

fun lambda_samples ::
  "cheque_tools \<Rightarrow> (swarm_address \<Rightarrow> swarm_address \<Rightarrow> u64) \<Rightarrow> swarm_address list \<Rightarrow> (bool \<times> lambda_input) list \<Rightarrow> nat \<Rightarrow>
   growth_conn \<Rightarrow> u64 option list \<times> nat \<times> growth_conn" where
  "lambda_samples tools peer_price chunks [] cycle c = ([], cycle, c)"
| "lambda_samples tools peer_price chunks ((alive, inp) # rest) cycle c =
     (if \<not> alive then ([], cycle, c)
      else case lambda_sample tools peer_price chunks inp cycle c of
        (l, cycle1, c1) \<Rightarrow>
          (case lambda_samples tools peer_price chunks rest cycle1 c1 of (ls, cycle2, c2) \<Rightarrow> (l # ls, cycle2, c2)))"

section \<open>Final sweep and the whole measurement\<close>

fun final_sweep :: "cheque_tools \<Rightarrow> (bool \<times> emit_env \<times> nat) list \<Rightarrow> growth_conn \<Rightarrow> growth_conn" where
  "final_sweep tools [] c = c"
| "final_sweep tools ((alive, env, now) # rest) c =
     (let debt = sat_sub (fst (gc_debt c)) (gc_prepaid c)
      in if debt = 0 \<or> \<not> alive then c else final_sweep tools rest (snd (gc_emit tools env now debt c)))"

definition lambda_max :: "u64 option list \<Rightarrow> u64" where
  "lambda_max ls = (case List.map_filter id ls of [] \<Rightarrow> 3000 | l # rest \<Rightarrow> fold max rest l)"

record growth_options =
  go_growth_secs :: u64
  go_ceiling_secs :: u64
  go_lambda_samples :: nat
  go_prepay_units :: u64
  go_pipeline_depth :: nat
  go_max_issue_plur :: u64

record growth_input =
  gi_started :: nat
  gi_growth :: "phase_input list"
  gi_samples :: "(bool \<times> lambda_input) list"
  gi_prepay_alive :: bool
  gi_prepay_env :: emit_env
  gi_prepay_now :: nat
  gi_ceiling_alive :: bool
  gi_ceiling_started :: nat
  gi_ceiling :: "phase_input list"
  gi_sweeps :: "(bool \<times> emit_env \<times> nat) list"
  gi_confirm_alive :: bool
  gi_confirm :: probe_env
  gi_flush :: io_fault
  gi_announced_end :: "U256 option"

record growth_report =
  gr_threshold_first :: u64
  gr_threshold_last :: u64
  gr_upgrades_observed :: u32
  gr_growth :: phase_stats
  gr_ceiling :: "phase_stats option"
  gr_lambda_ms :: "u64 option list"
  gr_distinct_chunks :: nat
  gr_cheques :: u64
  gr_cheque_units :: u64
  gr_cheque_plur :: u128
  gr_refreshes :: u64
  gr_refresh_units :: u64
  gr_residual_zero_confirmed :: "bool option"
  gr_spend_capped :: bool

definition growth_phase ::
  "cheque_tools \<Rightarrow> (swarm_address \<Rightarrow> swarm_address \<Rightarrow> u64) \<Rightarrow> swarm_address list \<Rightarrow> phase_mode \<Rightarrow> nat \<Rightarrow> nat \<Rightarrow> u64 \<Rightarrow>
   bool \<Rightarrow> phase_input list \<Rightarrow> nat \<Rightarrow> growth_conn \<Rightarrow> (phase_stats option \<times> bool \<times> nat \<times> growth_conn) option" where
  "growth_phase tools peer_price chunks mode pipeline started secs enabled inps cycle c =
     (if secs = 0 \<or> \<not> enabled then Some (None, False, cycle, c)
      else case run_fetch_phase tools peer_price chunks mode pipeline started (unat secs * 1000) inps (phase_start mode started cycle c) of
        (False, _) \<Rightarrow> None
      | (True, st) \<Rightarrow> Some (Some (phase_stats_of c st), ph_capped st, ph_cycle st, phase_end mode st))"

definition zero_confirm :: "growth_input \<Rightarrow> bool option" where
  "zero_confirm inp =
     (if gi_confirm_alive inp then
        (case fst (refresh_probe (gi_confirm inp) LAMBDA_PROBE_UNITS) of Inr n \<Rightarrow> Some (n = 0) | Inl _ \<Rightarrow> None)
      else None)"

definition confirm_event :: "growth_input \<Rightarrow> growth_conn \<Rightarrow> growth_conn" where
  "confirm_event inp c =
     (if gi_confirm_alive inp then
        (case fst (refresh_probe (gi_confirm inp) LAMBDA_PROBE_UNITS) of
           Inr n \<Rightarrow> log_event (EvFinalConfirm n) c
         | Inl _ \<Rightarrow> c)
      else c)"

definition end_event :: "growth_conn \<Rightarrow> growth_event" where
  "end_event c = EvEnd (gc_threshold c) (gc_cheques c) (gc_cheque_units c) (gc_cheque_plur c) (gc_refresh_units c)"

text \<open>The run ends by writing the ledger of issued cheques to its file; a failed write is only logged.\<close>

definition growth_flush :: "(U256 \<Rightarrow> string) \<Rightarrow> io_fault \<Rightarrow> growth_conn \<Rightarrow> disk \<Rightarrow> growth_conn \<times> disk" where
  "growth_flush u256_show fault c d =
     (case flush fault u256_show (sp_ledger (gc_spend c), d) of
        (_, l, d1) \<Rightarrow> (c\<lparr>gc_spend := (gc_spend c)\<lparr>sp_ledger := l\<rparr>\<rparr>, d1))"

definition growth_sequence ::
  "cheque_tools \<Rightarrow> (U256 \<Rightarrow> string) \<Rightarrow> (swarm_address \<Rightarrow> swarm_address \<Rightarrow> u64) \<Rightarrow> swarm_address list \<Rightarrow> growth_options \<Rightarrow>
   growth_input \<Rightarrow> disk \<Rightarrow> growth_conn \<Rightarrow> (growth_report \<times> growth_conn \<times> disk) option" where
  "growth_sequence tools u256_show peer_price chunks opts inp d c =
     (let c0 = log_event (EvStart (gc_overlay c) (gc_threshold c) (length chunks)) c in
      case growth_phase tools peer_price chunks Growth (go_pipeline_depth opts) (gi_started inp) (go_growth_secs opts) True
             (gi_growth inp) 0 c0 of
        None \<Rightarrow> None
      | Some (growth, capped_a, cycle_a, c_a) \<Rightarrow>
          let (ls, cycle_b, c_b) =
                lambda_samples tools peer_price chunks (if capped_a then [] else take (go_lambda_samples opts) (gi_samples inp)) cycle_a c_a;
              c_p = (if 0 < go_prepay_units opts \<and> gi_prepay_alive inp \<and> \<not> capped_a
                     then snd (gc_prepay tools (gi_prepay_env inp) (gi_prepay_now inp) (go_prepay_units opts) c_b) else c_b);
              lambda_window = unat (max (lambda_max ls) 800 * 3 div 2)
          in case growth_phase tools peer_price chunks (Ceiling lambda_window) (go_pipeline_depth opts) (gi_ceiling_started inp)
                    (go_ceiling_secs opts) (gi_ceiling_alive inp \<and> \<not> capped_a) (gi_ceiling inp) cycle_b c_p of
               None \<Rightarrow> None
             | Some (ceiling, capped_c, cycle_c, c_c) \<Rightarrow>
                 let c_s = confirm_event inp (final_sweep tools (take 3 (gi_sweeps inp)) c_c);
                     (c_f, d1) = growth_flush u256_show (gi_flush inp) c_s d;
                     c_t = c_f\<lparr>gc_announced := gi_announced_end inp\<rparr>;
                     c_e = log_event (end_event c_t) c_t
                 in Some (\<lparr>gr_threshold_first = gc_threshold c0, gr_threshold_last = gc_threshold c_e,
                      gr_upgrades_observed = try_from_or_max (sat_sub (gc_threshold c_e) (gc_threshold c0) div 450000),
                      gr_growth = (case growth of Some g \<Rightarrow> g | None \<Rightarrow> default_stats), gr_ceiling = ceiling, gr_lambda_ms = ls,
                      gr_distinct_chunks = length chunks, gr_cheques = gc_cheques c_e, gr_cheque_units = gc_cheque_units c_e,
                      gr_cheque_plur = gc_cheque_plur c_e, gr_refreshes = gc_refreshes c_e, gr_refresh_units = gc_refresh_units c_e,
                      gr_residual_zero_confirmed = zero_confirm inp, gr_spend_capped = (capped_a \<or> capped_c)\<rparr>, c_e, d1))"

datatype growth_error =
  NoPeer | TooFewChunks nat | LogOpenFails | ChequebookFails issuable_error | ConnectFailed dial_outcome
| OverlayMismatch swarm_address swarm_address

definition new_growth_conn :: "growth_options \<Rightarrow> U256 \<Rightarrow> fast_ledger \<Rightarrow> swarm_address \<Rightarrow> bytes \<Rightarrow> U256 option \<Rightarrow> growth_conn" where
  "new_growth_conn opts issuable ledger overlay eth announced =
     \<lparr>gc_overlay = overlay, gc_beneficiary = eth, gc_acct = mirror_default,
      gc_spend = \<lparr>sp_issued = 0, sp_ledger = ledger\<rparr>, gc_issuable = issuable, gc_max_issue_plur = go_max_issue_plur opts,
      gc_exchange_rate = None, gc_announced = announced, gc_cheques = 0, gc_cheque_units = 0, gc_cheque_plur = 0,
      gc_refreshes = 0, gc_refresh_units = 0, gc_last_refresh = None, gc_last_cheque = None, gc_unvalidated = [],
      gc_prepaid = 0, gc_log = []\<rparr>"

text \<open>
  The checks before the first fetch, in the order of the code: \<open>log_opens\<close> says whether the event log
  could be opened, \<open>balance\<close> and \<open>paid\<close> are the answers of the chequebook, and the ledger file is
  read only after them.
\<close>

definition probe_growth ::
  "cheque_tools \<Rightarrow> (U256 \<Rightarrow> string) \<Rightarrow> (string \<Rightarrow> U256 option) \<Rightarrow> (swarm_address \<Rightarrow> swarm_address \<Rightarrow> u64) \<Rightarrow> swarm_address list \<Rightarrow> growth_options \<Rightarrow> swarm_address \<Rightarrow>
   bool \<Rightarrow> bytes option \<Rightarrow> bytes option \<Rightarrow> dial_outcome \<Rightarrow> disk \<Rightarrow> growth_input \<Rightarrow>
   (growth_error, (growth_report \<times> growth_conn \<times> disk) option) result" where
  "probe_growth tools u256_show from_dec_str peer_price chunks opts overlay log_opens balance paid outcome d inp =
     (if outcome = NoPeerId then Inl NoPeer
      else if length chunks < 20 then Inl (TooFewChunks (length chunks))
      else if \<not> log_opens then Inl LogOpenFails
      else case read_chequebook_issuable balance paid of
        Inl e \<Rightarrow> Inl (ChequebookFails e)
      | Inr issuable \<Rightarrow>
          let ledger = ledger_open from_dec_str d in
          (case outcome of
             Shaken remote eth announced \<Rightarrow>
               if remote \<noteq> overlay then Inl (OverlayMismatch overlay remote)
               else Inr (growth_sequence tools u256_show peer_price chunks opts inp d
                      (new_growth_conn opts issuable ledger overlay eth announced))
           | failed \<Rightarrow> Inl (ConnectFailed failed)))"

lemma probe_growth_runs:
  assumes "probe_growth tools sh rd pp chunks opts overlay log_opens balance paid outcome d inp = Inr run"
  shows "\<exists>issuable eth announced. read_chequebook_issuable balance paid = Inr issuable
    \<and> outcome = Shaken overlay eth announced
    \<and> run = growth_sequence tools sh pp chunks opts inp d (new_growth_conn opts issuable (ledger_open rd d) overlay eth announced)"
  using assms by (auto simp: probe_growth_def Let_def split: if_splits sum.splits dial_outcome.splits)

section \<open>The measurement stays within the spend cap\<close>

lemma log_event_frame [simp]:
  "gc_threshold (log_event e c) = gc_threshold c" "gc_spend (log_event e c) = gc_spend c"
  "gc_max_issue_plur (log_event e c) = gc_max_issue_plur c" "gc_acct (log_event e c) = gc_acct c"
  "gc_prepaid (log_event e c) = gc_prepaid c" "gc_overlay (log_event e c) = gc_overlay c"
  "gc_cheques (log_event e c) = gc_cheques c" "gc_cheque_units (log_event e c) = gc_cheque_units c"
  "gc_cheque_plur (log_event e c) = gc_cheque_plur c" "gc_refreshes (log_event e c) = gc_refreshes c"
  "gc_refresh_units (log_event e c) = gc_refresh_units c" "gc_log (log_event e c) = gc_log c @ [e]"
  by (simp_all add: log_event_def gc_threshold_def)

lemma gc_emit_fields:
  assumes "gc_emit tools env now units c = (r, c')"
  shows "gc_max_issue_plur c' = gc_max_issue_plur c" "gc_prepaid c' = gc_prepaid c" "gc_overlay c' = gc_overlay c"
    "gc_acct c' = (case r of Inr _ \<Rightarrow> credit units (gc_acct c) | Inl _ \<Rightarrow> gc_acct c)"
  using assms by (auto simp: gc_emit_def gc_count_def split: prod.splits sum.splits)

interpretation growth: cheque_issuer "\<lambda>(env, now, units). gc_emit tools env now units" gc_spend gc_max_issue_plur for tools
proof
  show "sp_issued (gc_spend s') \<le> gc_max_issue_plur s"
    if "(case i of (env, now, units) \<Rightarrow> gc_emit tools env now units) s = (Inr u, s')" for i s s' u
    using that
    by (auto simp: gc_emit_def gc_cheque_def gc_count_def dest!: emit_ok_within split: prod.splits sum.splits)
  show "gc_spend s' = gc_spend s"
    if "(case i of (env, now, units) \<Rightarrow> gc_emit tools env now units) s = (Inl e, s')" for i s s' e
    using that by (auto simp: gc_emit_def dest!: emit_err_restores split: prod.splits sum.splits)
  show "gc_max_issue_plur (snd ((case i of (env, now, units) \<Rightarrow> gc_emit tools env now units) s)) = gc_max_issue_plur s" for i s
    by (auto simp: gc_emit_def gc_count_def split: prod.splits sum.splits)
qed

interpretation upfront: cheque_issuer "\<lambda>(env, now, units). gc_prepay tools env now units" gc_spend gc_max_issue_plur for tools
proof
  show "sp_issued (gc_spend s') \<le> gc_max_issue_plur s"
    if "(case i of (env, now, units) \<Rightarrow> gc_prepay tools env now units) s = (Inr u, s')" for i s s' u
    using that
    by (auto simp: gc_prepay_def gc_cheque_def gc_count_def dest!: emit_ok_within split: prod.splits sum.splits)
  show "gc_spend s' = gc_spend s"
    if "(case i of (env, now, units) \<Rightarrow> gc_prepay tools env now units) s = (Inl e, s')" for i s s' e
    using that by (auto simp: gc_prepay_def dest!: emit_err_restores split: prod.splits sum.splits)
  show "gc_max_issue_plur (snd ((case i of (env, now, units) \<Rightarrow> gc_prepay tools env now units) s)) = gc_max_issue_plur s" for i s
    by (auto simp: gc_prepay_def gc_count_def split: prod.splits sum.splits)
qed

lemma phase_limit_frame:
  "phase_limit mode now t c = (l, c') \<Longrightarrow> \<exists>q. c' = c\<lparr>gc_unvalidated := q\<rparr>"
  by (cases mode) (auto simp: phase_limit_def unvalidated_within_def Let_def intro: exI [of _ "gc_unvalidated c"])

lemma reap_conn: "ph_conn (reap st) = ph_conn st"
proof -
  have "ph_conn (fold reap_one rs st) = ph_conn st" for rs st
    by (induction rs arbitrary: st) (simp_all add: reap_one_def split: prod.split sum.split)
  then show ?thesis by (simp add: reap_def)
qed

text \<open>The connection at the points of the measurement: after the growth phase, the samples, the prepay and the ceiling phase.\<close>

definition sequence_states ::
  "cheque_tools \<Rightarrow> (U256 \<Rightarrow> string) \<Rightarrow> (swarm_address \<Rightarrow> swarm_address \<Rightarrow> u64) \<Rightarrow> swarm_address list \<Rightarrow> growth_options \<Rightarrow>
   growth_input \<Rightarrow> disk \<Rightarrow> growth_conn \<Rightarrow> growth_report \<Rightarrow> growth_conn \<Rightarrow> disk \<Rightarrow>
   growth_conn \<times> growth_conn \<times> growth_conn \<times> growth_conn \<times> growth_conn \<Rightarrow> bool" where
  "sequence_states tools sh pp chunks opts inp d c rep c' d' s \<longleftrightarrow>
     (case s of (c_a, c_b, c_p, c_c, c_t) \<Rightarrow>
        (\<exists>g k cy. growth_phase tools pp chunks Growth (go_pipeline_depth opts) (gi_started inp) (go_growth_secs opts) True
           (gi_growth inp) 0 (log_event (EvStart (gc_overlay c) (gc_threshold c) (length chunks)) c) = Some (g, k, cy, c_a)
         \<and> (\<exists>inps cy'. lambda_samples tools pp chunks inps cy c_a = (gr_lambda_ms rep, cy', c_b)
         \<and> (c_p = c_b \<or> c_p = snd (gc_prepay tools (gi_prepay_env inp) (gi_prepay_now inp) (go_prepay_units opts) c_b))
         \<and> (\<exists>mode en g' k' cy''. growth_phase tools pp chunks mode (go_pipeline_depth opts) (gi_ceiling_started inp)
              (go_ceiling_secs opts) en (gi_ceiling inp) cy' c_p = Some (g', k', cy'', c_c))))
        \<and> c_t = (fst (growth_flush sh (gi_flush inp) (confirm_event inp (final_sweep tools (take 3 (gi_sweeps inp)) c_c)) d))
             \<lparr>gc_announced := gi_announced_end inp\<rparr>
        \<and> c' = log_event (end_event c_t) c_t
        \<and> gr_threshold_first rep = gc_threshold c \<and> gr_threshold_last rep = gc_threshold c' \<and> gr_distinct_chunks rep = length chunks
        \<and> gr_cheques rep = gc_cheques c' \<and> gr_cheque_units rep = gc_cheque_units c' \<and> gr_cheque_plur rep = gc_cheque_plur c'
        \<and> gr_refreshes rep = gc_refreshes c' \<and> gr_refresh_units rep = gc_refresh_units c')"

lemma growth_sequence_states:
  assumes "growth_sequence tools sh pp chunks opts inp d c = Some (rep, c', d')"
  shows "\<exists>s. sequence_states tools sh pp chunks opts inp d c rep c' d' s"
proof -
  let ?c0 = "log_event (EvStart (gc_overlay c) (gc_threshold c) (length chunks)) c"
  obtain g1 k1 cy1 c_a where a: "growth_phase tools pp chunks Growth (go_pipeline_depth opts) (gi_started inp)
      (go_growth_secs opts) True (gi_growth inp) 0 ?c0 = Some (g1, k1, cy1, c_a)"
    using assms by (auto simp: growth_sequence_def Let_def split: option.splits)
  obtain ls cy2 c_b where b: "lambda_samples tools pp chunks
      (if k1 then [] else take (go_lambda_samples opts) (gi_samples inp)) cy1 c_a = (ls, cy2, c_b)" by (metis prod_cases3)
  define c_p where "c_p = (if 0 < go_prepay_units opts \<and> gi_prepay_alive inp \<and> \<not> k1
      then snd (gc_prepay tools (gi_prepay_env inp) (gi_prepay_now inp) (go_prepay_units opts) c_b) else c_b)"
  obtain g4 k4 cy4 c_c where cc: "growth_phase tools pp chunks (Ceiling (unat (max (lambda_max ls) 800 * 3 div 2)))
      (go_pipeline_depth opts) (gi_ceiling_started inp) (go_ceiling_secs opts) (gi_ceiling_alive inp \<and> \<not> k1)
      (gi_ceiling inp) cy2 c_p = Some (g4, k4, cy4, c_c)"
    using assms a b by (auto simp: growth_sequence_def Let_def c_p_def split: option.splits prod.splits)
  define c_t where "c_t = (fst (growth_flush sh (gi_flush inp) (confirm_event inp (final_sweep tools (take 3 (gi_sweeps inp)) c_c)) d))
      \<lparr>gc_announced := gi_announced_end inp\<rparr>"
  have rep: "c' = log_event (end_event c_t) c_t" "gr_lambda_ms rep = ls" "gr_threshold_first rep = gc_threshold c"
      "gr_threshold_last rep = gc_threshold c'" "gr_distinct_chunks rep = length chunks" "gr_cheques rep = gc_cheques c'"
      "gr_cheque_units rep = gc_cheque_units c'" "gr_cheque_plur rep = gc_cheque_plur c'" "gr_refreshes rep = gc_refreshes c'"
      "gr_refresh_units rep = gc_refresh_units c'"
    using assms a b cc by (auto simp: growth_sequence_def Let_def c_p_def [symmetric] c_t_def split: prod.splits)
  have pre: "c_p = c_b \<or> c_p = snd (gc_prepay tools (gi_prepay_env inp) (gi_prepay_now inp) (go_prepay_units opts) c_b)"
    by (simp add: c_p_def)
  have "sequence_states tools sh pp chunks opts inp d c rep c' d' (c_a, c_b, c_p, c_c, c_t)"
    unfolding sequence_states_def prod.case using a b [folded rep(2)] pre cc c_t_def rep by blast
  then show ?thesis by blast
qed

section \<open>What holds of the connection throughout\<close>

text \<open>
  A predicate on the connection that every operation of a phase keeps, whatever events it logs
  among the \<open>quiet\<close> ones, is carried through whole phases; \<open>growth_invariant\<close> adds the latency samples
  and carries it through the measurement.
\<close>

locale phase_invariant =
  fixes I :: "growth_conn \<Rightarrow> bool"
    and quiet :: "growth_event \<Rightarrow> bool"
  assumes acct: "I c \<Longrightarrow> I (c\<lparr>gc_acct := x\<rparr>)"
    and announced: "I c \<Longrightarrow> I (c\<lparr>gc_announced := t\<rparr>)"
    and refreshed_at: "I c \<Longrightarrow> I (c\<lparr>gc_last_refresh := y\<rparr>)"
    and unvalidated: "I c \<Longrightarrow> I (c\<lparr>gc_unvalidated := q\<rparr>)"
    and counts: "I c \<Longrightarrow> I (c\<lparr>gc_refreshes := n, gc_refresh_units := u\<rparr>)"
    and flushed: "I c \<Longrightarrow> I (c\<lparr>gc_spend := (gc_spend c)\<lparr>sp_ledger := l\<rparr>\<rparr>)"
    and emit: "I c \<Longrightarrow> I (snd (gc_emit tools env now units c))"
    and prepay: "I c \<Longrightarrow> I (snd (gc_prepay tools env now units c))"
    and log: "quiet e \<Longrightarrow> I c \<Longrightarrow> I (log_event e c)"
    and phase_quiet: "quiet (EvPhase (phase_name mode))" "quiet (EvThreshold t1 t2)" "quiet EvSpendCap"
      "quiet (EvSample (phase_name mode) fetches ms t1)" "quiet (EvPhaseEnd (phase_name mode) p50 p95)" "quiet (EvFinalConfirm accepted)"
begin

lemma note_accepted: "I c \<Longrightarrow> I (gc_note_accepted n c)"
  by (simp add: gc_note_accepted_def counts)

lemma refresh: "I c \<Longrightarrow> I (gc_refresh acc now c)"
  using counts [OF acct] by (simp add: gc_refresh_def Let_def refreshed_at split: option.split)

lemma end_fetches: "I (ph_conn st) \<Longrightarrow> I (ph_conn (end_fetches net is st))"
proof -
  have one: "I (ph_conn st) \<Longrightarrow> I (ph_conn (end_fetch net i st))" for i st
    by (simp add: end_fetch_def Let_def acct split: prod.split)
  show "I (ph_conn st) \<Longrightarrow> ?thesis" by (induction "is" arbitrary: st) (simp_all add: end_fetches_def one)
qed

lemma spawn_loop: "I (ph_conn st) \<Longrightarrow> I (ph_conn (spawn_loop pp chunks mode depth now st))"
proof (induction pp chunks mode depth now st rule: spawn_loop.induct)
  case (1 pp chunks mode depth now st)
  let ?addr = "chunks ! (ph_cycle st mod length chunks)"
  let ?price = "pp (gc_overlay (ph_conn st)) ?addr"
  obtain l c1 where lim: "phase_limit mode now (ph_last_threshold st) (ph_conn st) = (l, c1)" by force
  obtain ok mi where res: "try_reserve ?price l (gc_acct c1) = (ok, mi)" by force
  have kept: "I (c1\<lparr>gc_acct := mi\<rparr>)"
    using phase_limit_frame [OF lim] "1.prems" by (auto intro: acct unvalidated)
  show ?case
  proof (cases "ph_stopping st \<or> depth \<le> phase_len st \<or> spend_would_exceed ?price (ph_conn st)")
    case True
    then show ?thesis using "1.prems" by (subst spawn_loop.simps) (auto simp: Let_def log phase_quiet)
  next
    case False
    then have go: "\<not> (ph_stopping st \<or> depth \<le> phase_len st)" "\<not> spend_would_exceed ?price (ph_conn st)" by auto
    show ?thesis
    proof (cases ok)
      case True
      then show ?thesis
        using "1.IH" [OF go(1) refl refl go(2) lim [symmetric] refl res [symmetric] refl] kept go lim res
        by (subst spawn_loop.simps) (simp add: Let_def)
    next
      case False
      then show ?thesis using kept go lim res by (subst spawn_loop.simps) (simp add: Let_def)
    qed
  qed
qed

lemma phase_pass:
  assumes "phase_pass tools pp chunks mode pipeline started wall_cap inp st = (fin, st')" "I (ph_conn st)"
  shows "I (ph_conn st')"
proof -
  define ann where "ann = st\<lparr>ph_conn := (ph_conn st)\<lparr>gc_announced := pi_announced inp\<rparr>\<rparr>"
  define stop where "stop = stop_check mode started wall_cap (pi_now inp) (pi_alive inp) (track_threshold (pi_now inp) ann)"
  define reaped where "reaped = reap (end_fetches (pi_net inp) (pi_done_spawned inp)
    (spawn_loop pp chunks mode (conn_pipeline_depth mode pipeline) (pi_now inp) stop))"
  have "I (ph_conn ann)" using assms(2) by (simp add: ann_def announced)
  then have "I (ph_conn stop)"
    by (simp add: stop_def stop_check_def track_threshold_def Let_def log phase_quiet)
  then have "I (ph_conn reaped)" by (simp add: reaped_def reap_conn end_fetches spawn_loop)
  then have "I (ph_conn (phase_refresh inp reaped))"
    by (simp add: phase_refresh_def end_fetches refresh)
  then have "I (ph_conn (phase_cheque tools mode inp (phase_refresh inp reaped)))"
    by (simp add: phase_cheque_def end_fetches emit split: prod.split)
  then have "I (ph_conn (phase_sample mode (pi_sampled inp) (phase_cheque tools mode inp (phase_refresh inp reaped))))"
    by (simp add: phase_sample_def log phase_quiet)
  then show ?thesis using assms(1) by (auto simp: phase_pass_def Let_def reaped_def stop_def ann_def)
qed

lemma run_fetch_phase:
  "run_fetch_phase tools pp chunks mode pipeline started wall_cap inps st = (fin, st') \<Longrightarrow> I (ph_conn st) \<Longrightarrow> I (ph_conn st')"
proof (induction inps arbitrary: st)
  case (Cons inp inps)
  obtain f st1 where p: "phase_pass tools pp chunks mode pipeline started wall_cap inp st = (f, st1)" by force
  show ?case using Cons p phase_pass [OF p] by (cases f) auto
qed simp

lemma growth_phase:
  assumes "growth_phase tools pp chunks mode pipeline started secs enabled inps cycle c = Some (g, k, cycle', c')" "I c"
  shows "I c'"
proof (cases "secs = 0 \<or> \<not> enabled")
  case True
  then show ?thesis using assms by (simp add: growth_phase_def)
next
  case False
  then obtain st where st: "run_fetch_phase tools pp chunks mode pipeline started (unat secs * 1000) inps (phase_start mode started cycle c) = (True, st)"
    and c': "c' = phase_end mode st"
    using assms(1) by (auto simp: growth_phase_def split: bool.splits prod.splits)
  have "I (ph_conn st)" using run_fetch_phase [OF st] assms(2) by (simp add: phase_start_def log phase_quiet)
  then show ?thesis by (simp add: c' phase_end_def log phase_quiet)
qed

lemma lambda_build:
  "lambda_build pp chunks t bs cycle c = (dead, cycle', c') \<Longrightarrow> I c \<Longrightarrow> I c'"
proof (induction bs arbitrary: cycle c)
  case (Cons b bs)
  obtain alive fetched where b: "b = (alive, fetched)" by force
  obtain ok m where res: "try_reserve (pp (gc_overlay c) (chunks ! (cycle mod length chunks))) (t div 2) (gc_acct c) = (ok, m)" by force
  show ?case
    using Cons.prems Cons.IH [OF _ acct [OF Cons.prems(2)]] acct [OF Cons.prems(2)] b res
    by (cases ok) (auto simp: Let_def split: if_splits)
qed simp

lemma final_sweep: "I c \<Longrightarrow> I (final_sweep tools sws c)"
proof (induction sws arbitrary: c)
  case (Cons sw sws)
  then show ?case by (cases sw) (simp add: Let_def emit)
qed simp

lemma confirmed: "I c \<Longrightarrow> I (confirm_event inp c)"
  by (simp add: confirm_event_def log phase_quiet split: sum.split)

lemma growth_flush: "I c \<Longrightarrow> I (fst (growth_flush sh fault c d))"
  by (simp add: growth_flush_def flushed split: prod.split)

end

locale growth_invariant = phase_invariant +
  assumes lambda_quiet: "quiet EvLambdaSkipped" "quiet (EvLambdaProbe accepted ms)" "quiet (EvLambda ms swept)"
    "quiet (EvLambdaTimeout swept)"
begin

lemma lambda_probe: "lambda_probe swept since timeout prs z c = (l, c') \<Longrightarrow> I c \<Longrightarrow> I c'"
proof (induction prs arbitrary: z c)
  case (Cons pr prs)
  obtain acc el where pr: "pr = (acc, el)" by force
  show ?case
  proof (cases acc)
    case (Some n)
    have "I (log_event (EvLambdaProbe n (elapsed_ms el)) (gc_note_accepted n c))"
      using Cons.prems(2) by (intro log lambda_quiet note_accepted)
    then show ?thesis
      using Cons.prems(1) Cons.IH pr Some by (cases "n = 0"; cases z) (auto simp: Let_def log lambda_quiet refreshed_at)
  qed (use Cons pr in simp)
qed (auto simp: log lambda_quiet refreshed_at)

lemma lambda_sample:
  assumes "lambda_sample tools pp chunks inp cycle c = (l, cycle', c')" "I c"
  shows "I c'"
proof -
  let ?c = "c\<lparr>gc_announced := li_announced inp\<rparr>"
  obtain dead cy c1 where b: "lambda_build pp chunks (gc_threshold ?c) (li_builds inp) cycle ?c = (dead, cy, c1)"
    by (metis prod_cases3)
  have i1: "I c1" using lambda_build [OF b] assms(2) by (simp add: announced)
  obtain r c2 where e: "gc_emit tools (li_env inp) (li_now inp) (fst (gc_debt c1)) c1 = (r, c2)" by force
  have i2: "I c2" using emit [OF i1] e by (metis snd_conv)
  obtain l3 c3 where pl: "lambda_probe (fst (gc_debt c1)) (li_now inp) (li_timeout inp) (map probe_answer (li_probes inp)) None c2 = (l3, c3)"
    by force
  have "I c3" by (rule lambda_probe [OF pl i2])
  then show ?thesis
    using assms(1) b e pl i1 i2
    by (cases dead; cases "fst (gc_debt c1) < LAMBDA_PROBE_UNITS * 4"; cases r)
      (auto simp: lambda_sample_def Let_def log lambda_quiet)
qed

lemma lambda_samples: "lambda_samples tools pp chunks inps cycle c = (ls, cycle', c') \<Longrightarrow> I c \<Longrightarrow> I c'"
proof (induction inps arbitrary: ls cycle c cycle' c')
  case (Cons ai inps)
  obtain alive inp where ai: "ai = (alive, inp)" by force
  obtain l cy c1 where l: "lambda_sample tools pp chunks inp cycle c = (l, cy, c1)" by (metis prod_cases3)
  obtain ls2 cy2 c2 where r: "lambda_samples tools pp chunks inps cy c1 = (ls2, cy2, c2)" by (metis prod_cases3)
  show ?case using Cons.prems Cons.IH [OF r] lambda_sample [OF l] ai l r by (cases alive) auto
qed simp

lemma sequence:
  assumes "growth_sequence tools sh pp chunks opts inp d c = Some (rep, c', d')"
    and "I (log_event (EvStart (gc_overlay c) (gc_threshold c) (length chunks)) c)"
  shows "\<exists>c_t. c' = log_event (end_event c_t) c_t \<and> I c_t"
proof -
  obtain c_a c_b c_p c_c c_t where st: "sequence_states tools sh pp chunks opts inp d c rep c' d' (c_a, c_b, c_p, c_c, c_t)"
    using growth_sequence_states [OF assms(1)] by (metis prod_cases5)
  have "I c_a" using st assms(2) growth_phase unfolding sequence_states_def prod.case by blast
  then have "I c_b" using st lambda_samples unfolding sequence_states_def prod.case by blast
  then have "I c_p" using st prepay unfolding sequence_states_def prod.case by metis
  then have "I c_c" using st growth_phase unfolding sequence_states_def prod.case by blast
  then have "I c_t" using st unfolding sequence_states_def prod.case by (auto intro: announced growth_flush confirmed final_sweep)
  then show ?thesis using st unfolding sequence_states_def prod.case by blast
qed

end

text \<open>\<open>lawful m c\<close>: the connection's cap is \<open>m\<close> and its issued cheques are within it.\<close>

definition lawful :: "u64 \<Rightarrow> growth_conn \<Rightarrow> bool" where
  "lawful m c \<longleftrightarrow> gc_max_issue_plur c = m \<and> sp_issued (gc_spend c) \<le> m"

interpretation lawful: growth_invariant "lawful m" "\<lambda>_. True" for m
proof
  show "lawful m (snd (gc_emit tools env now units c))" if "lawful m c" for tools env now units c
    using that growth.issue_within [where tools = tools and s = c and i = "(env, now, units)"]
      growth.cap_fixed [where tools = tools and s = c and i = "(env, now, units)"]
    by (simp add: lawful_def growth.within_def)
  show "lawful m (snd (gc_prepay tools env now units c))" if "lawful m c" for tools env now units c
    using that upfront.issue_within [where tools = tools and s = c and i = "(env, now, units)"]
      upfront.cap_fixed [where tools = tools and s = c and i = "(env, now, units)"]
    by (simp add: lawful_def upfront.within_def)
qed (simp_all add: lawful_def)

section \<open>Exposure and the final sweep\<close>

lemma ceiling_limit_exact:
  assumes "unat t * 105 < 2 ^ 64" "unat prepaid < 2 ^ 63"
  shows "unat (ceiling_limit prepaid t u) = unat prepaid + unat t * 105 div 100 - unat u"
    "unat (ceiling_limit prepaid t u) \<le> 2 ^ 64 - 2"
proof -
  have t: "unat (t * 105 div 100) = unat t * 105 div 100"
    using assms(1) unat_mult_lem [of t 105] by (simp add: unat_div)
  have "unat (prepaid + t * 105 div 100) = unat prepaid + unat t * 105 div 100"
    using assms t by (subst unat_add_no_overflow) (simp_all add: t)
  then show "unat (ceiling_limit prepaid t u) = unat prepaid + unat t * 105 div 100 - unat u"
    by (simp add: ceiling_limit_def unat_sat_sub)
  then show "unat (ceiling_limit prepaid t u) \<le> 2 ^ 64 - 2" using assms by simp
qed

lemma unvalidated_within_sum:
  "unvalidated_within now w c = (u, c') \<Longrightarrow> u = sum_list (map snd (gc_unvalidated c')) \<and> gc_acct c' = gc_acct c
    \<and> gc_prepaid c' = gc_prepaid c"
  by (auto simp: unvalidated_within_def Let_def)

lemma sweep_settles:
  assumes "gc_emit tools env now (sat_sub (fst (gc_debt c)) (gc_prepaid c)) c = (Inr u, c')"
  shows "sat_sub (fst (gc_debt c')) (gc_prepaid c') = 0"
proof -
  note f = gc_emit_fields [OF assms]
  have "unat (sat_sub (fst (gc_debt c')) (gc_prepaid c')) = 0"
    by (simp add: f gc_debt_def snapshot_def credit_def unat_sat_sub)
  then show ?thesis by (simp only: unat_eq_zero)
qed

lemma final_sweep_settled: "sat_sub (fst (gc_debt c)) (gc_prepaid c) = 0 \<Longrightarrow> final_sweep tools sws c = c"
  by (cases sws) (auto simp: Let_def)

lemma final_sweep_failed:
  assumes "gc_emit tools env now d c = (Inl e, c')"
  shows "gc_debt c' = gc_debt c" "gc_prepaid c' = gc_prepaid c" "gc_spend c' = gc_spend c" "gc_beneficiary c' = gc_beneficiary c"
    "gc_issuable c' = gc_issuable c" "gc_max_issue_plur c' = gc_max_issue_plur c"
  using assms by (auto simp: gc_emit_def gc_debt_def dest!: emit_err_restores split: prod.splits sum.splits)

lemma gc_emit_err_same:
  assumes "gc_emit tools env now d c = (Inl e, c')"
  shows "c' = c"
  using assms by (auto simp: gc_emit_def dest!: emit_err_restores split: prod.splits sum.splits)

section \<open>A sample measurement\<close>

definition sample_growth_opts :: growth_options where
  "sample_growth_opts = \<lparr>go_growth_secs = 0, go_ceiling_secs = 0, go_lambda_samples = 0, go_prepay_units = 100,
     go_pipeline_depth = 8, go_max_issue_plur = 500\<rparr>"

definition sample_growth_input :: growth_input where
  "sample_growth_input = \<lparr>gi_started = 0, gi_growth = [], gi_samples = [], gi_prepay_alive = True, gi_prepay_env = sample_env,
     gi_prepay_now = 0, gi_ceiling_alive = True, gi_ceiling_started = 0, gi_ceiling = [], gi_sweeps = [],
     gi_confirm_alive = False, gi_confirm = sample_probe, gi_flush = NoFault, gi_announced_end = None\<rparr>"

definition sample_growth :: growth_conn where
  "sample_growth = (new_growth_conn sample_growth_opts 1000 \<lparr>fl_map = [], fl_dirty = False\<rparr> (replicate 32 1) (replicate 20 7) None)
    \<lparr>gc_acct := \<lparr>mi_balance = 100, mi_reserved = 0\<rparr>\<rparr>"

lemma sample_growth_emit: "\<exists>c'. gc_emit sample_tools sample_env now 100 sample_growth = (Inr (), c')"
proof -
  have "gc_cheque 100 sample_growth = sample_emit" "gc_spend sample_growth = sample_spend 0"
    by (simp_all add: gc_cheque_def sample_growth_def sample_growth_opts_def new_growth_conn_def sample_emit_def sample_spend_def)
  then show ?thesis using sample_emit_ok by (auto simp: gc_emit_def)
qed

section \<open>Properties\<close>

text \<open>
  A fetch admitted by the ceiling phase keeps debt, reservations and the cheques inside the
  validation window within the prepaid units plus 1.05 times the threshold, and one admitted by
  the growth phase keeps debt and reservations within half of it, for thresholds below
  \<open>2\<^sup>6\<^sup>4 div 105\<close>.
\<close>
theorem phase_exposure_bounded:
  assumes "phase_limit mode now t c = (limit, c1)" "try_reserve price limit (gc_acct c1) = (True, m)"
    and "unat t * 105 < 2 ^ 64" "unat (gc_prepaid c) < 2 ^ 63" "0 < price"
  shows "case mode of
      Growth \<Rightarrow> unat (mi_balance m) + unat (mi_reserved m) \<le> unat t div 2
    | Ceiling w \<Rightarrow> unat (mi_balance m) + unat (mi_reserved m) + unat (sum_list (map snd (gc_unvalidated c1)))
        \<le> unat (gc_prepaid c) + unat t * 105 div 100"
proof (cases mode)
  case Growth
  with assms(1) have l: "limit = t div 2" by (simp add: phase_limit_def)
  have "unat limit \<le> 2 ^ 64 - 2" using u64_less [of t] by (simp add: l unat_div)
  then have "limit \<noteq> - 1" by (auto simp: unat_minus_one_word)
  from try_reserve_granted [OF assms(2) this] show ?thesis by (simp add: Growth l unat_div)
next
  case (Ceiling w)
  obtain u c2 where u: "unvalidated_within now w c = (u, c2)" by force
  with Ceiling assms(1) have l: "limit = ceiling_limit (gc_prepaid c2) t u" "c1 = c2" by (auto simp: phase_limit_def)
  note w = unvalidated_within_sum [OF u] and lim = ceiling_limit_exact [OF assms(3), of "gc_prepaid c2" u]
  have b: "unat limit \<le> 2 ^ 64 - 2" "unat limit = unat (gc_prepaid c) + unat t * 105 div 100 - unat u"
    using lim w assms(4) l by auto
  then have "limit \<noteq> - 1" by (auto simp: unat_minus_one_word)
  from try_reserve_granted [OF assms(2) this]
  have "unat (mi_balance m) + unat (mi_reserved m) \<le> unat limit" "0 < unat limit"
    using assms(5) by (auto simp: word_less_nat_alt)
  then show ?thesis using b(2) w l by (simp add: Ceiling)
qed

theorem phase_exposure_bounded_witness:
  "unat (mi_balance (snd (try_reserve 300 (1000 div 2) (gc_acct sample_growth)))) +
   unat (mi_reserved (snd (try_reserve 300 (1000 div 2) (gc_acct sample_growth)))) \<le> 500"
proof -
  have lim: "phase_limit Growth 0 1000 sample_growth = (1000 div 2, sample_growth)" by (simp add: phase_limit_def)
  have ok: "try_reserve 300 (1000 div 2) (gc_acct sample_growth) = (True, \<lparr>mi_balance = 100, mi_reserved = 300\<rparr>)"
    by (simp add: try_reserve_def sample_growth_def sat_add_def)
  show ?thesis
    unfolding ok using phase_exposure_bounded [OF lim ok] by (simp add: sample_growth_def new_growth_conn_def)
qed

text \<open>
  The ceiling gate scales the announced threshold with a wrapping multiplication: a peer that
  announces 175683276892471921 units gets a gate of zero, so no fetch is ever admitted, where the
  scheduler's saturating gate for the same threshold is above \<open>10\<^sup>1\<^sup>7\<close>.
\<close>
theorem ceiling_limit_wraps:
  "ceiling_limit 0 175683276892471921 0 = 0 \<and> 10 ^ 17 < unat (sat_mul (175683276892471921 :: u64) 105 div 100)"
  by (simp add: ceiling_limit_def sat_sub_def sat_mul_def unat_div)

text \<open>
  The final sweep of the growth measurement settles whatever is unpaid as soon as one of its
  attempts goes through on the live connection: failed attempts change nothing, and after the
  first successful one the debt above the prepaid units is zero and no further cheque is issued.
\<close>
theorem final_sweep_settles:
  assumes "\<And>env now. (True, env, now) \<in> set fails \<Longrightarrow>
      \<exists>e. fst (gc_emit tools env now (sat_sub (fst (gc_debt c)) (gc_prepaid c)) c) = Inl e"
    and "list_all fst fails"
    and "gc_emit tools env now (sat_sub (fst (gc_debt c)) (gc_prepaid c)) c = (Inr u, c')"
    and "sat_sub (fst (gc_debt c)) (gc_prepaid c) \<noteq> 0"
  shows "final_sweep tools (fails @ (True, env, now) # rest) c = c' \<and> sat_sub (fst (gc_debt c')) (gc_prepaid c') = 0"
  using assms(1,2)
proof (induction fails)
  case Nil
  then show ?case using assms(3,4) sweep_settles [OF assms(3)] by (simp add: Let_def final_sweep_settled)
next
  case (Cons sw fails)
  obtain env1 now1 where sw: "sw = (True, env1, now1)" using Cons.prems(2) by (cases sw) auto
  obtain e where "fst (gc_emit tools env1 now1 (sat_sub (fst (gc_debt c)) (gc_prepaid c)) c) = Inl e"
    using Cons.prems(1) sw by auto
  then have "snd (gc_emit tools env1 now1 (sat_sub (fst (gc_debt c)) (gc_prepaid c)) c) = c"
    using gc_emit_err_same by (metis prod.collapse)
  then show ?case using Cons sw assms(4) by (simp add: Let_def)
qed

theorem final_sweep_settles_witness:
  "\<exists>c'. final_sweep sample_tools [(True, sample_env\<lparr>ev_open := False\<rparr>, 1), (True, sample_env, 2)] sample_growth = c'
     \<and> sat_sub (fst (gc_debt c')) (gc_prepaid c') = 0"
proof -
  have d: "sat_sub (fst (gc_debt sample_growth)) (gc_prepaid sample_growth) = 100"
    by (simp add: gc_debt_def snapshot_def sample_growth_def sample_growth_opts_def new_growth_conn_def sat_sub_def)
  obtain c' where ok: "gc_emit sample_tools sample_env 2 (sat_sub (fst (gc_debt sample_growth)) (gc_prepaid sample_growth))
      sample_growth = (Inr (), c')" unfolding d using sample_growth_emit by blast
  have bad: "\<exists>e. fst (gc_emit sample_tools env now (sat_sub (fst (gc_debt sample_growth)) (gc_prepaid sample_growth)) sample_growth) = Inl e"
    if "(True, env, now) \<in> set [(True, sample_env\<lparr>ev_open := False\<rparr>, 1 :: nat)]" for env now
    using that by (auto simp: gc_emit_def emit_settlement_cheque_def cheque_amount_def)
  show ?thesis
    using final_sweep_settles [where fails = "[(True, sample_env\<lparr>ev_open := False\<rparr>, 1)]" and rest = "[]", OF bad _ ok] d by simp
qed

lemma sample_chequebook: "read_chequebook_issuable (Some (to_be_bytes 32 1000)) (Some (to_be_bytes 32 0)) = Inr 1000"
  unfolding read_chequebook_issuable_def sum_calls.simps length_to_be_bytes from_be_bytes_def be_nat_to_be_bytes
  by (simp add: checked_add_def)

lemma sample_growth_run:
  "\<exists>rep c d. probe_growth sample_tools show_uint parse_uint (\<lambda>_ _. 1000) (replicate 20 []) sample_growth_opts []
      True (Some (to_be_bytes 32 1000)) (Some (to_be_bytes 32 0)) (Shaken [] [] None) \<lparr>dk_file = None, dk_tmp = None\<rparr>
      sample_growth_input = Inr (Some (rep, c, d))"
  unfolding probe_growth_def sample_chequebook
  by (simp add: case_prod_beta growth_sequence_def growth_phase_def sample_growth_opts_def sample_growth_input_def Let_def)

text \<open>
  C27 Over a whole growth measurement, with its growth and ceiling phases, latency samples, prepay
  and final sweep, the cheques issued stay within the configured cap, whatever the peer announces
  and whatever the network answers.
\<close>
theorem growth_within_cap:
  assumes "probe_growth tools sh rd pp chunks opts overlay log_opens balance paid outcome d inp = Inr (Some (rep, c, d'))"
  shows "sp_issued (gc_spend c) \<le> go_max_issue_plur opts"
proof -
  obtain issuable eth announced where "growth_sequence tools sh pp chunks opts inp d
      (new_growth_conn opts issuable (ledger_open rd d) overlay eth announced) = Some (rep, c, d')"
    using probe_growth_runs [OF assms] by metis
  from lawful.sequence [OF this, of "go_max_issue_plur opts"] show ?thesis
    by (auto simp: lawful_def) (auto simp: new_growth_conn_def)
qed

theorem growth_within_cap_witness:
  "\<exists>rep c d. probe_growth sample_tools show_uint parse_uint (\<lambda>_ _. 1000) (replicate 20 []) sample_growth_opts []
      True (Some (to_be_bytes 32 1000)) (Some (to_be_bytes 32 0)) (Shaken [] [] None) \<lparr>dk_file = None, dk_tmp = None\<rparr>
      sample_growth_input = Inr (Some (rep, c, d)) \<and> sp_issued (gc_spend c) \<le> 500"
proof -
  obtain rep c d where run: "probe_growth sample_tools show_uint parse_uint (\<lambda>_ _. 1000) (replicate 20 []) sample_growth_opts []
      True (Some (to_be_bytes 32 1000)) (Some (to_be_bytes 32 0)) (Shaken [] [] None) \<lparr>dk_file = None, dk_tmp = None\<rparr>
      sample_growth_input = Inr (Some (rep, c, d))"
    using sample_growth_run by blast
  have "sp_issued (gc_spend c) \<le> go_max_issue_plur sample_growth_opts" by (rule growth_within_cap [OF run])
  with run show ?thesis by (auto simp: sample_growth_opts_def)
qed

end
