(* ===== verification/Crawl.thy ===== *)
theory Crawl
  imports Hive Topology
begin

text \<open>
  The topology crawler (\<^verbatim>\<open>rust/ds-net/src/crawl.rs\<close>): the frontier of dial candidates, the spaced
  dials with their handshakes, the harvest of gossip into the topology cache, the caps that end the
  crawl, and the two connection waits it shares its shape with (\<^verbatim>\<open>wait_connected\<close>,
  \<^verbatim>\<open>handshake_with_fallback_raw\<close> of \<^verbatim>\<open>rust/ds-net/src/direct.rs\<close>). Times are milliseconds since the
  start of the crawl; the events of the swarm task, the handshakes and the gossip are input. The
  commands sent to the swarm task are the trace \<open>cr_cmds\<close>; \<open>cr_tried\<close> records the peers attempted.
\<close>

section \<open>Options and state\<close>

record crawl_options =
  co_max_dials :: nat
  co_dial_interval :: nat
  co_dial_timeout :: nat
  co_harvest_window :: nat
  co_wall_cap :: nat

definition default_crawl_options :: crawl_options where
  "default_crawl_options = \<lparr>co_max_dials = 50, co_dial_interval = 500, co_dial_timeout = 20000,
     co_harvest_window = 4000, co_wall_cap = 600000\<rparr>"

datatype ('p, 'm) cmd = is_Dial: Dial 'm | Disconnect 'p

datatype 'p evt = Connected 'p | Failed 'p | Identified 'p

datatype stop_reason = WallCap | MaxDials | FrontierDrained

record ('p, 'm) crawl_state =
  cr_frontier :: "('p, 'm) peer_hint list"
  cr_queued :: "'p set"
  cr_cache :: topology_cache
  cr_dials_attempted :: nat
  cr_dials_ok :: nat
  cr_hints_seen :: nat
  cr_last_dial :: "nat option"
  cr_cmds :: "(nat \<times> ('p, 'm) cmd) list"
  cr_tried :: "'p list"

definition enqueue_seed :: "('m \<Rightarrow> 'p protocol list) \<Rightarrow> 'm \<Rightarrow> ('p, 'm) crawl_state \<Rightarrow> ('p, 'm) crawl_state" where
  "enqueue_seed protocols seed st =
     (case extract_peer_id protocols seed of
        None \<Rightarrow> st
      | Some peer \<Rightarrow>
          st\<lparr>cr_frontier := cr_frontier st @ [\<lparr>hi_peer_id = peer, hi_overlay = replicate 32 0, hi_underlays = [seed]\<rparr>],
             cr_queued := insert peer (cr_queued st)\<rparr>)"

definition crawl_start :: "('m \<Rightarrow> 'p protocol list) \<Rightarrow> swarm_address \<Rightarrow> 'm list \<Rightarrow> ('p, 'm) crawl_state" where
  "crawl_start protocols overlay seeds =
     fold (enqueue_seed protocols) seeds
       \<lparr>cr_frontier = [], cr_queued = {}, cr_cache = topology_new overlay, cr_dials_attempted = 0, cr_dials_ok = 0,
        cr_hints_seen = 0, cr_last_dial = None, cr_cmds = [], cr_tried = []\<rparr>"

section \<open>Dial and handshake\<close>

text \<open>A receive gives an event, the end of the channel or the timeout; the end of the list is a passed deadline.\<close>

datatype 'p received = Got "'p evt" | ChannelGone | RecvTimeout

datatype dial_error = SwarmGone | TimedOut | Refused | NoVersion

fun wait_identified :: "'p \<Rightarrow> bool \<Rightarrow> 'p received list \<Rightarrow> (dial_error, unit) result" where
  "wait_identified peer connected [] = Inl TimedOut"
| "wait_identified peer connected (Got (Connected p) # rest) = wait_identified peer (connected \<or> p = peer) rest"
| "wait_identified peer connected (Got (Identified p) # rest) =
     (if p = peer then Inr () else wait_identified peer connected rest)"
| "wait_identified peer connected (Got (Failed p) # rest) =
     (if p = peer then Inl Refused else wait_identified peer connected rest)"
| "wait_identified peer connected (ChannelGone # rest) = Inl SwarmGone"
| "wait_identified peer connected (RecvTimeout # rest) = (if connected then Inr () else Inl TimedOut)"

datatype wire_version = V15 | V14

datatype 'i handshake = OpenFails | HandshakeError | HandshakeOk 'i

fun try_versions :: "(wire_version \<Rightarrow> 'i handshake) \<Rightarrow> wire_version list \<Rightarrow> 'i option" where
  "try_versions shake [] = None"
| "try_versions shake (v # vs) = (case shake v of HandshakeOk info \<Rightarrow> Some info | _ \<Rightarrow> try_versions shake vs)"

definition handshake_with_fallback :: "(wire_version \<Rightarrow> 'i handshake) \<Rightarrow> 'i option" where
  "handshake_with_fallback shake = try_versions shake [V15, V14]"

record 'p dial_env =
  de_command :: bool
  de_events :: "'p received list"
  de_shake :: "wire_version \<Rightarrow> swarm_address handshake"
  de_elapsed :: nat

definition dial_and_handshake :: "'p \<Rightarrow> 'p dial_env \<Rightarrow> (dial_error, swarm_address \<times> u32) result" where
  "dial_and_handshake peer env =
     (if \<not> de_command env then Inl SwarmGone
      else case wait_identified peer False (de_events env) of
        Inl e \<Rightarrow> Inl e
      | Inr _ \<Rightarrow>
          (case handshake_with_fallback (de_shake env) of
             None \<Rightarrow> Inl NoVersion
           | Some overlay \<Rightarrow>
               Inr (overlay, case try_word (de_elapsed env) of Some ms \<Rightarrow> ms | None \<Rightarrow> - 1)))"

text \<open>
  The wait of a direct connection: the address of the established connection, once the peer has
  also identified itself. Events of other peers and identifications before the connection are skipped.
\<close>

datatype ('p, 'm) swarm_event = Established 'p 'm | DialError "'p option" | IdentifyReceived 'p | OtherEvent

datatype ('p, 'm) swarm_poll = Event "('p, 'm) swarm_event" | PollTimeout | SwarmEnded

fun wait_connected :: "'p \<Rightarrow> 'm option \<Rightarrow> ('p, 'm) swarm_poll list \<Rightarrow> (dial_error, 'm) result" where
  "wait_connected want addr [] = Inl TimedOut"
| "wait_connected want addr (PollTimeout # rest) = Inl TimedOut"
| "wait_connected want addr (SwarmEnded # rest) = Inl SwarmGone"
| "wait_connected want addr (Event (Established p a) # rest) =
     wait_connected want (if p = want then Some a else addr) rest"
| "wait_connected want addr (Event (DialError p) # rest) =
     (if p = Some want then Inl Refused else wait_connected want addr rest)"
| "wait_connected want addr (Event (IdentifyReceived p) # rest) =
     (if p = want then (case addr of Some a \<Rightarrow> Inr a | None \<Rightarrow> wait_connected want addr rest)
      else wait_connected want addr rest)"
| "wait_connected want addr (Event OtherEvent # rest) = wait_connected want addr rest"

section \<open>Crawl\<close>

definition elapsed_ticks :: "nat \<Rightarrow> u64" where
  "elapsed_ticks elapsed = (case try_word elapsed of Some t \<Rightarrow> t | None \<Rightarrow> - 1)"

definition harvest_hint ::
  "('m \<Rightarrow> string) \<Rightarrow> nat \<times> ('p, 'm) peer_hint \<Rightarrow> ('p, 'm) crawl_state \<Rightarrow> ('p, 'm) crawl_state" where
  "harvest_hint to_string th st =
     (case th of (t, hint) \<Rightarrow>
      let st1 = st\<lparr>cr_hints_seen := cr_hints_seen st + 1,
            cr_cache := upsert \<lparr>nr_overlay = hi_overlay hint, nr_underlays = map to_string (hi_underlays hint),
              nr_rtt_ms = None, nr_last_seen_tick = elapsed_ticks t, nr_dialed_ok = False\<rparr> (cr_cache st)\<rparr>
      in if hi_peer_id hint \<in> cr_queued st1 then st1
         else st1\<lparr>cr_queued := insert (hi_peer_id hint) (cr_queued st1), cr_frontier := cr_frontier st1 @ [hint]\<rparr>)"

text \<open>The hints received inside the harvest window, each with its time.\<close>

definition harvest ::
  "('m \<Rightarrow> string) \<Rightarrow> (nat \<times> ('p, 'm) peer_hint) list \<Rightarrow> ('p, 'm) crawl_state \<Rightarrow> ('p, 'm) crawl_state" where
  "harvest to_string gossip st = fold (harvest_hint to_string) gossip st"

text \<open>
  The input of one pass: the time at its top since the last dial (the start, before the first),
  how much later than asked the rate-limit sleep returns, the dial's events, the time of the
  record, the gossip, whether the last command is taken, and its time.
\<close>

record ('p, 'm) crawl_input =
  ci_since :: nat
  ci_late :: nat
  ci_env :: "'p dial_env"
  ci_seen :: nat
  ci_gossip :: "(nat \<times> ('p, 'm) peer_hint) list"
  ci_disconnect :: bool
  ci_end :: nat

definition pass_time :: "('p, 'm) crawl_input \<Rightarrow> nat option \<Rightarrow> nat" where
  "pass_time inp last_dial = (case last_dial of Some at \<Rightarrow> at + ci_since inp | None \<Rightarrow> ci_since inp)"

definition dial_time :: "crawl_options \<Rightarrow> ('p, 'm) crawl_input \<Rightarrow> nat option \<Rightarrow> nat" where
  "dial_time opts inp last_dial =
     (case last_dial of
        Some _ \<Rightarrow>
          if ci_since inp \<le> co_dial_interval opts
          then pass_time inp last_dial + (co_dial_interval opts - ci_since inp) + ci_late inp
          else pass_time inp last_dial
      | None \<Rightarrow> pass_time inp last_dial)"

definition send_cmd :: "bool \<Rightarrow> nat \<Rightarrow> ('p, 'm) cmd \<Rightarrow> ('p, 'm) crawl_state \<Rightarrow> ('p, 'm) crawl_state" where
  "send_cmd taken t c st = (if taken then st\<lparr>cr_cmds := cr_cmds st @ [(t, c)]\<rparr> else st)"

definition crawl_attempt ::
  "('m \<Rightarrow> string) \<Rightarrow> ('p, 'm) crawl_input \<Rightarrow> ('p, 'm) peer_hint \<Rightarrow> ('p, 'm) crawl_state \<Rightarrow> ('p, 'm) crawl_state" where
  "crawl_attempt to_string inp hint st =
     (case dial_and_handshake (hi_peer_id hint) (ci_env inp) of
        Inl _ \<Rightarrow> st
      | Inr (overlay, rtt) \<Rightarrow>
          harvest to_string (ci_gossip inp)
            (st\<lparr>cr_dials_ok := cr_dials_ok st + 1,
               cr_cache := upsert \<lparr>nr_overlay = overlay, nr_underlays = map to_string (hi_underlays hint),
                 nr_rtt_ms = Some rtt, nr_last_seen_tick = elapsed_ticks (ci_seen inp), nr_dialed_ok = True\<rparr> (cr_cache st)\<rparr>))"

definition crawl_pass ::
  "('m \<Rightarrow> string) \<Rightarrow> crawl_options \<Rightarrow> ('p, 'm) crawl_input \<Rightarrow> ('p, 'm) peer_hint \<Rightarrow> ('p, 'm) crawl_state \<Rightarrow> ('p, 'm) crawl_state" where
  "crawl_pass to_string opts inp hint st =
     (let t = dial_time opts inp (cr_last_dial st);
          st1 = st\<lparr>cr_last_dial := Some t, cr_dials_attempted := cr_dials_attempted st + 1,
                   cr_tried := cr_tried st @ [hi_peer_id hint]\<rparr>
      in case hi_underlays hint of
           [] \<Rightarrow> st1
         | addr # _ \<Rightarrow>
             send_cmd (ci_disconnect inp) (ci_end inp) (Disconnect (hi_peer_id hint))
               (crawl_attempt to_string inp hint (send_cmd (de_command (ci_env inp)) t (Dial addr) st1)))"

lemma harvest_attempted [simp]: "cr_dials_attempted (harvest f gs st) = cr_dials_attempted st"
  unfolding harvest_def
  by (induction gs arbitrary: st) (simp_all add: harvest_hint_def Let_def split: prod.split)

lemma crawl_pass_attempted [simp]: "cr_dials_attempted (crawl_pass f opts inp h st) = cr_dials_attempted st + 1"
  by (simp add: crawl_pass_def crawl_attempt_def send_cmd_def Let_def split: list.split sum.split prod.split)

text \<open>The inputs are indexed by the number of dials attempted so far, which grows in every pass.\<close>

function crawl_loop ::
  "('m \<Rightarrow> string) \<Rightarrow> crawl_options \<Rightarrow> (nat \<Rightarrow> ('p, 'm) crawl_input) \<Rightarrow> ('p, 'm) crawl_state \<Rightarrow> stop_reason \<times> ('p, 'm) crawl_state" where
  "crawl_loop to_string opts inp st =
     (case cr_frontier st of
        [] \<Rightarrow> (FrontierDrained, st)
      | hint # rest \<Rightarrow>
          let i = inp (cr_dials_attempted st); st1 = st\<lparr>cr_frontier := rest\<rparr> in
          if co_wall_cap opts \<le> pass_time i (cr_last_dial st) then (WallCap, st1)
          else if co_max_dials opts \<le> cr_dials_attempted st then (MaxDials, st1)
          else crawl_loop to_string opts inp (crawl_pass to_string opts i hint st1))"
  by pat_completeness auto
termination
  by (relation "measure (\<lambda>(_, opts, _, st). co_max_dials opts - cr_dials_attempted st)") auto

declare crawl_loop.simps [simp del]

definition crawl ::
  "('m \<Rightarrow> 'p protocol list) \<Rightarrow> ('m \<Rightarrow> string) \<Rightarrow> crawl_options \<Rightarrow> (nat \<Rightarrow> ('p, 'm) crawl_input) \<Rightarrow> swarm_address \<Rightarrow> 'm list \<Rightarrow>
   stop_reason \<times> ('p, 'm) crawl_state" where
  "crawl protocols to_string opts inp overlay seeds = crawl_loop to_string opts inp (crawl_start protocols overlay seeds)"

section \<open>Invariants of the crawl\<close>

text \<open>
  An invariant that every pass keeps holds where the loop stops: before the pop of the hint it
  stops at, if it stops at a cap. \<open>ok\<close> is what the invariant needs of a pass's input, \<open>good\<close> of the
  text of an address.
\<close>

locale crawl_invariant =
  fixes I :: "crawl_options \<Rightarrow> ('p, 'm) crawl_state \<Rightarrow> bool"
    and ok :: "('p, 'm) crawl_input \<Rightarrow> bool"
    and good :: "('m \<Rightarrow> string) \<Rightarrow> bool"
  assumes pass: "good to_string \<Longrightarrow> ok i \<Longrightarrow> I opts st \<Longrightarrow> cr_frontier st = hint # rest \<Longrightarrow> cr_dials_attempted st < co_max_dials opts \<Longrightarrow>
      I opts (crawl_pass to_string opts i hint (st\<lparr>cr_frontier := rest\<rparr>))"
begin

lemma loop_stops:
  assumes "good to_string" "\<And>n. ok (inp n)" "I opts st" "crawl_loop to_string opts inp st = (reason, st')"
  obtains s where "I opts s" "reason = FrontierDrained \<longrightarrow> cr_frontier s = [] \<and> st' = s"
    "reason = MaxDials \<longrightarrow> co_max_dials opts \<le> cr_dials_attempted s"
    "st' = s\<lparr>cr_frontier := tl (cr_frontier s)\<rparr>"
proof -
  have "\<exists>s. I opts s \<and> (reason = FrontierDrained \<longrightarrow> cr_frontier s = [] \<and> st' = s)
    \<and> (reason = MaxDials \<longrightarrow> co_max_dials opts \<le> cr_dials_attempted s) \<and> st' = s\<lparr>cr_frontier := tl (cr_frontier s)\<rparr>"
    using assms
  proof (induction to_string opts inp st rule: crawl_loop.induct)
    case (1 to_string opts inp st)
    note loop = crawl_loop.simps [of to_string opts inp st]
    show ?case
    proof (cases "cr_frontier st")
      case Nil
      with "1.prems" loop show ?thesis by (intro exI [of _ st]) auto
    next
      case (Cons hint rest)
      let ?i = "inp (cr_dials_attempted st)"
      show ?thesis
      proof (cases "co_wall_cap opts \<le> pass_time ?i (cr_last_dial st) \<or> co_max_dials opts \<le> cr_dials_attempted st")
        case True
        with Cons "1.prems" loop show ?thesis by (intro exI [of _ st]) (auto simp: Let_def split: if_splits)
      next
        case False
        then have "I opts (crawl_pass to_string opts ?i hint (st\<lparr>cr_frontier := rest\<rparr>))"
          using pass "1.prems" Cons by simp
        moreover have "crawl_loop to_string opts inp (crawl_pass to_string opts ?i hint (st\<lparr>cr_frontier := rest\<rparr>)) = (reason, st')"
          using "1.prems"(4) False Cons loop by (simp add: Let_def)
        ultimately show ?thesis using "1.IH" [OF Cons refl refl] False "1.prems"(1,2) by blast
      qed
    qed
  qed
  then show ?thesis using that by blast
qed

end

lemma harvest_frame [simp]:
  "cr_cmds (harvest f gs st) = cr_cmds st" "cr_last_dial (harvest f gs st) = cr_last_dial st"
  "cr_tried (harvest f gs st) = cr_tried st" "cr_dials_ok (harvest f gs st) = cr_dials_ok st"
  unfolding harvest_def
  by (induction gs arbitrary: st) (simp_all add: harvest_hint_def Let_def split: prod.split)

subsection \<open>Etiquette\<close>

definition dials :: "('p, 'm) crawl_state \<Rightarrow> nat list" where
  "dials st = map fst (filter (is_Dial \<circ> snd) (cr_cmds st))"

definition spaced :: "crawl_options \<Rightarrow> ('p, 'm) crawl_state \<Rightarrow> bool" where
  "spaced opts st \<longleftrightarrow> sorted_wrt (\<lambda>a b. a + co_dial_interval opts \<le> b) (dials st)
     \<and> (\<forall>a \<in> set (dials st). \<exists>l. cr_last_dial st = Some l \<and> a \<le> l)
     \<and> length (dials st) \<le> cr_dials_attempted st \<and> cr_dials_attempted st = length (cr_tried st)
     \<and> cr_dials_attempted st \<le> co_max_dials opts"

lemma crawl_attempt_frame [simp]:
  "cr_cmds (crawl_attempt f i h st) = cr_cmds st" "cr_last_dial (crawl_attempt f i h st) = cr_last_dial st"
  "cr_tried (crawl_attempt f i h st) = cr_tried st" "cr_dials_attempted (crawl_attempt f i h st) = cr_dials_attempted st"
  by (simp_all add: crawl_attempt_def split: sum.split prod.split)

lemma crawl_pass_trace:
  "cr_last_dial (crawl_pass f opts i h st) = Some (dial_time opts i (cr_last_dial st))"
  "cr_tried (crawl_pass f opts i h st) = cr_tried st @ [hi_peer_id h]"
  "\<exists>ts. dials (crawl_pass f opts i h st) = dials st @ ts \<and> (ts = [] \<or> ts = [dial_time opts i (cr_last_dial st)])"
  by (auto simp: crawl_pass_def send_cmd_def dials_def Let_def split: list.split)

lemma dial_time_spaced: "l + co_dial_interval opts \<le> dial_time opts i (Some l)"
  by (auto simp: dial_time_def pass_time_def)

interpretation etiquette: crawl_invariant "spaced :: crawl_options \<Rightarrow> ('p, 'm) crawl_state \<Rightarrow> bool" "\<lambda>_. True" "\<lambda>_. True"
proof
  fix i :: "('p, 'm) crawl_input" and opts rest and st :: "('p, 'm) crawl_state" and hint :: "('p, 'm) peer_hint" and to_string :: "'m \<Rightarrow> string"
  assume sp: "spaced opts st" and room: "cr_dials_attempted st < co_max_dials opts"
  let ?st = "st\<lparr>cr_frontier := rest\<rparr>"
  let ?t = "dial_time opts i (cr_last_dial st)"
  obtain ts where ts: "dials (crawl_pass to_string opts i hint ?st) = dials st @ ts" "ts = [] \<or> ts = [?t]"
    using crawl_pass_trace(3) [of to_string opts i hint ?st] by (auto simp: dials_def)
  have later: "a + co_dial_interval opts \<le> ?t" if a: "a \<in> set (dials st)" for a
  proof -
    obtain l where "cr_last_dial st = Some l" "a \<le> l" using sp a by (auto simp: spaced_def)
    then show ?thesis using dial_time_spaced [of l opts i] by simp
  qed
  have "a \<le> ?t" if "a \<in> set (dials st)" for a using later [OF that] by simp
  then show "spaced opts (crawl_pass to_string opts i hint ?st)"
    using sp room ts later by (auto simp: spaced_def crawl_pass_trace(1,2) sorted_wrt_append)
qed

subsection \<open>One attempt per peer\<close>

definition once :: "crawl_options \<Rightarrow> ('p, 'm) crawl_state \<Rightarrow> bool" where
  "once opts st \<longleftrightarrow> distinct (cr_tried st @ map hi_peer_id (cr_frontier st))
     \<and> set (cr_tried st) \<union> hi_peer_id ` set (cr_frontier st) = cr_queued st"

lemma harvest_once: "once opts st \<Longrightarrow> once opts (harvest f gs st)"
  unfolding harvest_def
proof (induction gs arbitrary: st)
  case (Cons g gs)
  have "once opts (harvest_hint f g st)"
    using Cons.prems by (auto simp: once_def harvest_hint_def Let_def split: prod.split)
  then show ?case using Cons.IH by simp
qed simp

lemma once_frame:
  "once opts (st\<lparr>cr_dials_ok := n, cr_cache := c\<rparr>) = once opts st" "once opts (send_cmd b t c0 st) = once opts st"
  by (simp_all add: once_def send_cmd_def)

lemma crawl_attempt_once: "once opts st \<Longrightarrow> once opts (crawl_attempt f i h st)"
  by (simp add: crawl_attempt_def harvest_once once_frame split: sum.split prod.split)

interpretation attempts: crawl_invariant "once :: crawl_options \<Rightarrow> ('p, 'm) crawl_state \<Rightarrow> bool" "\<lambda>_. True" "\<lambda>_. True"
proof
  fix i :: "('p, 'm) crawl_input" and opts rest and st :: "('p, 'm) crawl_state" and hint :: "('p, 'm) peer_hint" and to_string :: "'m \<Rightarrow> string"
  assume on: "once opts st" and fr: "cr_frontier st = hint # rest"
  then have "once opts (st\<lparr>cr_frontier := rest, cr_last_dial := d, cr_dials_attempted := n, cr_tried := cr_tried st @ [hi_peer_id hint]\<rparr>)" for d n
    by (auto simp: once_def)
  then show "once opts (crawl_pass to_string opts i hint (st\<lparr>cr_frontier := rest\<rparr>))"
    by (simp add: crawl_pass_def Let_def crawl_attempt_once once_frame split: list.split)
qed

subsection \<open>Cache\<close>

definition input_ok :: "('p, 'm) crawl_input \<Rightarrow> bool" where
  "input_ok i \<longleftrightarrow> (\<forall>v a. de_shake (ci_env i) v = HandshakeOk a \<longrightarrow> wf_addr a) \<and> (\<forall>g \<in> set (ci_gossip i). wf_addr (hi_overlay (snd g)))"

definition dialed :: "topology_cache \<Rightarrow> swarm_address set" where
  "dialed c = {a. \<exists>r. topology_get c a = Some r \<and> nr_dialed_ok r}"

definition cached :: "crawl_options \<Rightarrow> ('p, 'm) crawl_state \<Rightarrow> bool" where
  "cached opts st \<longleftrightarrow> topology_inv (cr_cache st) \<and> finite (dialed (cr_cache st)) \<and> card (dialed (cr_cache st)) \<le> cr_dials_ok st
     \<and> cr_dials_ok st \<le> cr_dials_attempted st"

lemma dialed_upsert: "dialed (upsert r c) = (if nr_dialed_ok r then insert (nr_overlay r) (dialed c) else dialed c)"
  by (auto simp: dialed_def topology_get_upsert merge_record_simps split: option.splits if_splits)

lemma harvest_cached: "list_all (\<lambda>g. wf_addr (hi_overlay (snd g))) gs \<Longrightarrow> cached opts st \<Longrightarrow> cached opts (harvest f gs st)"
  unfolding harvest_def
proof (induction gs arbitrary: st)
  case (Cons g gs)
  have "cached opts (harvest_hint f g st)"
    using Cons.prems by (auto simp: cached_def harvest_hint_def Let_def upsert_inv dialed_upsert split: prod.split)
  then show ?case using Cons by simp
qed simp

lemma handshake_ok: "handshake_with_fallback shake = Some a \<Longrightarrow> \<exists>v. shake v = HandshakeOk a"
  by (auto simp: handshake_with_fallback_def split: handshake.splits)

lemma crawl_attempt_cached:
  assumes "input_ok i" "cached opts st" "cr_dials_ok st < cr_dials_attempted st"
  shows "cached opts (crawl_attempt f i h st)"
proof (cases "dial_and_handshake (hi_peer_id h) (ci_env i)")
  case (Inl e)
  then show ?thesis using assms(2) by (simp add: crawl_attempt_def)
next
  case (Inr res)
  obtain a rtt where res: "res = (a, rtt)" by force
  have "wf_addr a"
    using Inr assms(1) handshake_ok by (fastforce simp: res dial_and_handshake_def input_ok_def split: if_splits sum.splits option.splits)
  let ?s = "st\<lparr>cr_dials_ok := cr_dials_ok st + 1,
      cr_cache := upsert \<lparr>nr_overlay = a, nr_underlays = map f (hi_underlays h), nr_rtt_ms = Some rtt,
        nr_last_seen_tick = elapsed_ticks (ci_seen i), nr_dialed_ok = True\<rparr> (cr_cache st)\<rparr>"
  have "card (insert a (dialed (cr_cache st))) \<le> Suc (cr_dials_ok st)"
    using assms(2) by (auto simp: cached_def card_insert_if)
  with \<open>wf_addr a\<close> have "cached opts ?s"
    using assms(2,3) by (simp add: cached_def upsert_inv dialed_upsert)
  moreover have "list_all (\<lambda>g. wf_addr (hi_overlay (snd g))) (ci_gossip i)"
    using assms(1) by (simp add: input_ok_def list_all_iff)
  ultimately have "cached opts (harvest f (ci_gossip i) ?s)" by (intro harvest_cached)
  then show ?thesis by (simp add: crawl_attempt_def Inr res)
qed

lemma cached_frame:
  "cached opts (send_cmd b t c0 st) = cached opts st" "cr_dials_ok (send_cmd b t c0 st) = cr_dials_ok st"
  "cr_dials_attempted (send_cmd b t c0 st) = cr_dials_attempted st"
  by (simp_all add: cached_def send_cmd_def)

interpretation cache: crawl_invariant "cached :: crawl_options \<Rightarrow> ('p, 'm) crawl_state \<Rightarrow> bool" input_ok "\<lambda>_. True"
proof
  fix i :: "('p, 'm) crawl_input" and opts rest and st :: "('p, 'm) crawl_state" and hint :: "('p, 'm) peer_hint" and to_string :: "'m \<Rightarrow> string"
  assume ok: "input_ok i" and c: "cached opts st"
  define s where "s = st\<lparr>cr_frontier := rest, cr_last_dial := Some (dial_time opts i (cr_last_dial st)),
      cr_dials_attempted := cr_dials_attempted st + 1, cr_tried := cr_tried st @ [hi_peer_id hint]\<rparr>"
  have "cached opts s" "cr_dials_ok s < cr_dials_attempted s" using c by (auto simp: cached_def s_def)
  then have "cached opts (crawl_attempt to_string i hint (send_cmd b t c0 s))" for b t c0
    using crawl_attempt_cached [OF ok] by (simp add: cached_frame)
  moreover have "crawl_pass to_string opts i hint (st\<lparr>cr_frontier := rest\<rparr>) =
      (case hi_underlays hint of [] \<Rightarrow> s | addr # _ \<Rightarrow> send_cmd (ci_disconnect i) (ci_end i) (Disconnect (hi_peer_id hint))
        (crawl_attempt to_string i hint (send_cmd (de_command (ci_env i)) (dial_time opts i (cr_last_dial st)) (Dial addr) s)))"
    by (simp add: crawl_pass_def s_def Let_def split: list.split)
  ultimately show "cached opts (crawl_pass to_string opts i hint (st\<lparr>cr_frontier := rest\<rparr>))"
    using \<open>cached opts s\<close> by (simp add: cached_frame split: list.split)
qed

lemma enqueue_seed_frame:
  "cr_cmds (fold (enqueue_seed pr) seeds st) = cr_cmds st" "cr_last_dial (fold (enqueue_seed pr) seeds st) = cr_last_dial st"
  "cr_tried (fold (enqueue_seed pr) seeds st) = cr_tried st" "cr_cache (fold (enqueue_seed pr) seeds st) = cr_cache st"
  "cr_dials_ok (fold (enqueue_seed pr) seeds st) = cr_dials_ok st"
  "cr_dials_attempted (fold (enqueue_seed pr) seeds st) = cr_dials_attempted st"
  by (induction seeds arbitrary: st) (simp_all add: enqueue_seed_def split: option.split)

lemma enqueue_seeds_frontier:
  "map hi_peer_id (cr_frontier (fold (enqueue_seed pr) seeds st))
     = map hi_peer_id (cr_frontier st) @ List.map_filter (extract_peer_id pr) seeds"
  "cr_queued (fold (enqueue_seed pr) seeds st) = cr_queued st \<union> set (List.map_filter (extract_peer_id pr) seeds)"
  by (induction seeds arbitrary: st) (auto simp: enqueue_seed_def List.map_filter_simps split: option.split)

lemma crawl_start_inv:
  "spaced opts (crawl_start pr ov seeds)" "cached opts (crawl_start pr ov seeds)"
  "distinct (List.map_filter (extract_peer_id pr) seeds) \<Longrightarrow> once opts (crawl_start pr ov seeds)"
proof -
  show "spaced opts (crawl_start pr ov seeds)" by (simp add: spaced_def crawl_start_def enqueue_seed_frame dials_def)
  show "cached opts (crawl_start pr ov seeds)"
    by (simp add: cached_def crawl_start_def enqueue_seed_frame dialed_def topology_get_def topology_new_def topology_inv_def)
  assume d: "distinct (List.map_filter (extract_peer_id pr) seeds)"
  let ?s = "crawl_start pr ov seeds"
  have f: "map hi_peer_id (cr_frontier ?s) = List.map_filter (extract_peer_id pr) seeds"
      "cr_queued ?s = set (List.map_filter (extract_peer_id pr) seeds)" "cr_tried ?s = []"
    by (simp_all add: crawl_start_def enqueue_seeds_frontier enqueue_seed_frame)
  moreover have "hi_peer_id ` set (cr_frontier ?s) = set (List.map_filter (extract_peer_id pr) seeds)"
    by (metis f(1) set_map)
  ultimately show "once opts ?s" using d by (simp add: once_def)
qed

section \<open>A sample crawl\<close>

definition sample_crawl_input :: "nat \<Rightarrow> (nat, nat) crawl_input" where
  "sample_crawl_input n = \<lparr>ci_since = 100, ci_late = 0, ci_env = \<lparr>de_command = True, de_events = [Got (Identified n)],
     de_shake = (\<lambda>v. HandshakeOk (replicate 32 (of_nat n))), de_elapsed = 7\<rparr>, ci_seen = 150,
     ci_gossip = [(160, \<lparr>hi_peer_id = 1, hi_overlay = replicate 32 1, hi_underlays = [1]\<rparr>)], ci_disconnect = True, ci_end = 200\<rparr>"

lemma sample_input_ok: "input_ok (sample_crawl_input n)"
  by (simp add: sample_crawl_input_def input_ok_def wf_addr_def)

section \<open>Properties\<close>

text \<open>
  C25 A crawl keeps its etiquette whatever the network does: it attempts at most \<open>max_dials\<close> peers, any
  two dials it issues are at least \<open>dial_interval\<close> apart, and it stops for the dial cap only when
  that many attempts were made.
\<close>
theorem crawl_etiquette:
  assumes "crawl pr to_string opts inp ov seeds = (reason, st)"
  shows "sorted_wrt (\<lambda>a b. a + co_dial_interval opts \<le> b) (dials st) \<and> length (dials st) \<le> cr_dials_attempted st
    \<and> cr_dials_attempted st \<le> co_max_dials opts \<and> (reason = MaxDials \<longrightarrow> cr_dials_attempted st = co_max_dials opts)"
proof -
  obtain s where "spaced opts s" "reason = MaxDials \<longrightarrow> co_max_dials opts \<le> cr_dials_attempted s"
    "st = s\<lparr>cr_frontier := tl (cr_frontier s)\<rparr>"
    using etiquette.loop_stops [OF TrueI _ crawl_start_inv(1) assms [unfolded crawl_def]] by blast
  then show ?thesis by (auto simp: spaced_def dials_def)
qed

theorem crawl_etiquette_witness:
  "cr_dials_attempted (snd (crawl (\<lambda>n. [P2p n]) (\<lambda>n. []) default_crawl_options sample_crawl_input (replicate 32 0) [0 :: nat])) \<le> 50"
proof -
  obtain reason st where "crawl (\<lambda>n. [P2p n]) (\<lambda>n. []) default_crawl_options sample_crawl_input (replicate 32 0) [0 :: nat] = (reason, st)"
    by force
  from crawl_etiquette [OF this] this show ?thesis by (simp add: default_crawl_options_def)
qed

text \<open>
  C24 No peer is attempted twice, however often it is gossiped, as long as the seeds name different
  peers, and a crawl that drains its frontier has attempted every peer it ever queued.
\<close>
theorem crawl_attempts_once:
  assumes "distinct (List.map_filter (extract_peer_id pr) seeds)" "crawl pr to_string opts inp ov seeds = (reason, st)"
  shows "distinct (cr_tried st) \<and> set (cr_tried st) \<subseteq> cr_queued st \<and> (reason = FrontierDrained \<longrightarrow> set (cr_tried st) = cr_queued st)"
proof -
  obtain s where "once opts s" "reason = FrontierDrained \<longrightarrow> cr_frontier s = [] \<and> st = s"
    "st = s\<lparr>cr_frontier := tl (cr_frontier s)\<rparr>"
    using attempts.loop_stops [OF TrueI _ crawl_start_inv(3) [OF assms(1)] assms(2) [unfolded crawl_def]] by blast
  then show ?thesis by (auto simp: once_def)
qed

theorem crawl_attempts_once_witness:
  "distinct (cr_tried (snd (crawl (\<lambda>n. [P2p n]) (\<lambda>n. []) default_crawl_options sample_crawl_input (replicate 32 0) [0 :: nat])))"
proof -
  obtain reason st where run: "crawl (\<lambda>n. [P2p n]) (\<lambda>n. []) default_crawl_options sample_crawl_input (replicate 32 0) [0 :: nat] = (reason, st)"
    by force
  have "distinct (List.map_filter (extract_peer_id (\<lambda>n :: nat. [P2p n])) [0])"
    by (simp add: extract_peer_id_def List.map_filter_simps)
  from crawl_attempts_once [OF this run] run show ?thesis by simp
qed

text \<open>
  C26 The cache a crawl builds is well-formed, and no more nodes are marked as dialed than handshakes
  succeeded, as long as the handshakes and the gossip carry 32-byte overlays (as \<open>decode_peers\<close>
  guarantees of the gossip).
\<close>
theorem crawl_cache_wellformed:
  assumes "\<And>n. input_ok (inp n)" "crawl pr to_string opts inp ov seeds = (reason, st)"
  shows "topology_inv (cr_cache st) \<and> card (dialed (cr_cache st)) \<le> cr_dials_ok st \<and> cr_dials_ok st \<le> co_max_dials opts"
proof -
  obtain s where "cached opts s" "st = s\<lparr>cr_frontier := tl (cr_frontier s)\<rparr>"
    using cache.loop_stops [OF TrueI assms(1) crawl_start_inv(2) assms(2) [unfolded crawl_def]] by blast
  then have "cached opts st" by (simp add: cached_def)
  obtain r where "spaced opts r" "st = r\<lparr>cr_frontier := tl (cr_frontier r)\<rparr>"
    using etiquette.loop_stops [OF TrueI _ crawl_start_inv(1) assms(2) [unfolded crawl_def]] by blast
  then have "cr_dials_attempted st \<le> co_max_dials opts" by (simp add: spaced_def)
  with \<open>cached opts st\<close> show ?thesis by (simp add: cached_def)
qed

theorem crawl_cache_wellformed_witness:
  "topology_inv (cr_cache (snd (crawl (\<lambda>n. [P2p n]) (\<lambda>n. []) default_crawl_options sample_crawl_input (replicate 32 0) [0 :: nat])))"
proof -
  obtain reason st where run: "crawl (\<lambda>n. [P2p n]) (\<lambda>n. []) default_crawl_options sample_crawl_input (replicate 32 0) [0 :: nat] = (reason, st)"
    by force
  from crawl_cache_wellformed [OF sample_input_ok run] run show ?thesis by simp
qed

text \<open>
  The seeds are pushed without a look at the queued set: a peer seeded under two addresses is dialed
  twice, and counts twice against the dial cap.
\<close>
lemma duplicate_seeds_dialed_twice:
  fixes opts inp
  defines "run \<equiv> crawl (\<lambda>m :: nat \<times> nat. [P2p (fst m)]) (\<lambda>m. []) \<lparr>co_max_dials = 50, co_dial_interval = 500, co_dial_timeout = 20000,
     co_harvest_window = 4000, co_wall_cap = 600000\<rparr>
     (\<lambda>n. \<lparr>ci_since = 0, ci_late = 0, ci_env = \<lparr>de_command = True, de_events = [], de_shake = (\<lambda>v. OpenFails), de_elapsed = 0\<rparr>,
       ci_seen = 0, ci_gossip = [], ci_disconnect = True, ci_end = 0\<rparr>) [] [(0, 0), (0, 1)]"
  shows "fst run = FrontierDrained \<and> cr_tried (snd run) = [0, 0] \<and> cr_cmds (snd run) = [(0, Dial (0, 0)), (0, Disconnect 0), (500, Dial (0, 1)), (0, Disconnect 0)]"
  by (simp add: run_def crawl_def crawl_start_def enqueue_seed_def extract_peer_id_def crawl_loop.simps crawl_pass_def crawl_attempt_def
      dial_and_handshake_def send_cmd_def dial_time_def pass_time_def)

end
