(* ===== verification/File_Fetch.thy ===== *)
theory File_Fetch
  imports Resume "HOL-Library.Sublist"
begin

text \<open>
  Fetching one file (\<^verbatim>\<open>rust/ds-net/src/fetch.rs\<close>) through the resume sidecar, and the chunk source
  over a bee node's HTTP interface (\<^verbatim>\<open>rust/ds-net/src/bee_api.rs\<close>). The joiner, the span decoder and
  the chunk validity checks are parameters. The disk holds the output file and the sidecar; every
  file operation can fail, a write or a sidecar commit also part-way.
\<close>

section \<open>Chunks over HTTP\<close>

record bee_fetcher =
  bf_base :: string
  bf_chunks_fetched :: u64
  bf_bytes_fetched :: u64

definition ATTEMPTS :: nat where "ATTEMPTS = 3"

datatype http_answer = TransportError | Response nat "bytes option"

datatype bee_error = NotFetched http_answer | FailedValidation nat

definition bee_new :: "string \<Rightarrow> bee_fetcher" where
  "bee_new base_url =
     \<lparr>bf_base = rev (dropWhile (\<lambda>c. c = CHR ''/'') (rev base_url)), bf_chunks_fetched = 0, bf_bytes_fetched = 0\<rparr>"

definition chunk_url :: "(bytes \<Rightarrow> string) \<Rightarrow> swarm_address \<Rightarrow> bee_fetcher \<Rightarrow> string" where
  "chunk_url hex_encode addr f = bf_base f @ ''/chunks/'' @ hex_encode addr"

definition is_success :: "nat \<Rightarrow> bool" where
  "is_success status \<longleftrightarrow> 200 \<le> status \<and> status < 300"

text \<open>
  The attempts are the requests that are answered so far; the result also counts the requests made.
  \<open>valid\<close> is the content-address or single-owner check of the chunk.
\<close>

fun bee_attempts ::
  "(bytes \<Rightarrow> bool) \<Rightarrow> http_answer list \<Rightarrow> http_answer \<Rightarrow> nat \<Rightarrow> bee_fetcher \<Rightarrow> (bee_error, bytes) result \<times> nat \<times> bee_fetcher" where
  "bee_attempts valid [] prev n f = (Inl (NotFetched prev), n, f)"
| "bee_attempts valid (TransportError # rest) prev n f = bee_attempts valid rest TransportError (Suc n) f"
| "bee_attempts valid (Response status body # rest) prev n f =
     (if \<not> is_success status then bee_attempts valid rest (Response status body) (Suc n) f
      else case body of
        None \<Rightarrow> bee_attempts valid rest (Response status None) (Suc n) f
      | Some b \<Rightarrow>
          if valid b then
            (Inr b, Suc n, f\<lparr>bf_chunks_fetched := bf_chunks_fetched f + 1,
                            bf_bytes_fetched := bf_bytes_fetched f + of_nat (length b)\<rparr>)
          else (Inl (FailedValidation (length b)), Suc n, f))"

definition bee_fetch ::
  "(swarm_address \<Rightarrow> bytes \<Rightarrow> bool) \<Rightarrow> (swarm_address \<Rightarrow> bytes \<Rightarrow> bool) \<Rightarrow> (string \<Rightarrow> nat \<Rightarrow> http_answer) \<Rightarrow> (bytes \<Rightarrow> string) \<Rightarrow>
   swarm_address \<Rightarrow> bee_fetcher \<Rightarrow> (bee_error, bytes) result \<times> nat \<times> bee_fetcher" where
  "bee_fetch cac_valid soc_valid get hex_encode addr f =
     bee_attempts (\<lambda>b. cac_valid addr b \<or> soc_valid addr b)
       (map (get (chunk_url hex_encode addr f)) [0..<ATTEMPTS]) TransportError 0 f"

section \<open>Files\<close>

definition COMMIT_INTERVAL :: u64 where "COMMIT_INTERVAL = 8388608"

record fetch_disk =
  fd_out :: "bytes option"
  fd_sidecar :: "string option"

record fetch_outcome =
  fo_total_span :: u64
  fo_bytes_written :: u64
  fo_resumed_from :: u64

datatype file_error = RootUnfetchable | MalformedRoot nat | JoinError | IoError

definition sidecar_path :: "string \<Rightarrow> string" where
  "sidecar_path out_path = out_path @ SIDECAR_SUFFIX"

definition read_resume_offset :: "bool \<Rightarrow> swarm_address \<Rightarrow> u64 \<Rightarrow> fetch_disk \<Rightarrow> u64" where
  "read_resume_offset readable root total_span d =
     (case (if readable then fd_sidecar d else None) of
        None \<Rightarrow> 0
      | Some text \<Rightarrow>
          (case parse text of
             Some state \<Rightarrow> if rs_root state = root \<and> rs_offset state \<le> total_span then rs_offset state else 0
           | None \<Rightarrow> 0))"

datatype sink_fault = SinkOk | SinkWriteFails nat | SinkSyncFails | SinkCommitFails nat

definition commit_sidecar :: "sink_fault \<Rightarrow> swarm_address \<Rightarrow> u64 \<Rightarrow> fetch_disk \<Rightarrow> bool \<times> fetch_disk" where
  "commit_sidecar fault root offset d =
     (let text = render \<lparr>rs_root = root, rs_offset = offset\<rparr> in
      case fault of
        SinkCommitFails k \<Rightarrow> (False, d\<lparr>fd_sidecar := Some (take k text)\<rparr>)
      | _ \<Rightarrow> (True, d\<lparr>fd_sidecar := Some text\<rparr>))"

definition append_out :: "bytes \<Rightarrow> fetch_disk \<Rightarrow> fetch_disk" where
  "append_out buf d = d\<lparr>fd_out := map_option (\<lambda>out. out @ buf) (fd_out d)\<rparr>"

text \<open>The sink's loop over the received buffers, each with the fault of its pass: written bytes and disk.\<close>

fun sink_loop ::
  "swarm_address \<Rightarrow> (bytes \<times> sink_fault) list \<Rightarrow> u64 \<Rightarrow> u64 \<Rightarrow> fetch_disk \<Rightarrow> bool \<times> u64 \<times> fetch_disk" where
  "sink_loop root [] written last_commit d = (True, written, d)"
| "sink_loop root ((buf, fault) # rest) written last_commit d =
     (case fault of
        SinkWriteFails n \<Rightarrow> (False, written, append_out (take n buf) d)
      | _ \<Rightarrow>
          let d1 = append_out buf d; written1 = written + of_nat (length buf) in
          if COMMIT_INTERVAL \<le> written1 - last_commit then
            if fault = SinkSyncFails then (False, written1, d1)
            else case commit_sidecar fault root written1 d1 of
              (False, d2) \<Rightarrow> (False, written1, d2)
            | (True, d2) \<Rightarrow> sink_loop root rest written1 written1 d2
          else sink_loop root rest written1 last_commit d1)"

definition join_range :: "(u64 \<Rightarrow> u64 \<Rightarrow> u64 \<Rightarrow> 'r option) \<Rightarrow> u64 \<Rightarrow> u64 \<Rightarrow> 'r option" where
  "join_range byte_range start total_span =
     (if start = 0 \<or> total_span = 0 then None else byte_range start (total_span - 1) total_span)"

record 'r file_env =
  fe_readable :: bool
  fe_open :: bool
  fe_set_len :: bool
  fe_join :: "'r option \<Rightarrow> bytes list \<times> bool"
  fe_faults :: "nat \<Rightarrow> sink_fault"
  fe_final_sync :: bool
  fe_final_commit :: sink_fault
  fe_removed :: bool

definition remove_sidecar :: "bool \<Rightarrow> fetch_disk \<Rightarrow> fetch_disk" where
  "remove_sidecar removed d = (if removed then d\<lparr>fd_sidecar := None\<rparr> else d)"

definition set_len :: "nat \<Rightarrow> bytes \<Rightarrow> bytes" where
  "set_len n out = take n out @ replicate (n - length out) 0"

definition fetch_body ::
  "(u64 \<Rightarrow> u64 \<Rightarrow> u64 \<Rightarrow> 'r option) \<Rightarrow> 'r file_env \<Rightarrow> swarm_address \<Rightarrow> u64 \<Rightarrow> u64 \<Rightarrow> fetch_disk \<Rightarrow>
   (file_error, fetch_outcome) result \<times> fetch_disk" where
  "fetch_body byte_range env root total_span start d =
     (case fe_join env (join_range byte_range start total_span) of
        (bufs, joined) \<Rightarrow>
          (case sink_loop root (zip bufs (map (fe_faults env) [0..<length bufs])) start start d of
             (False, _, d1) \<Rightarrow> (Inl IoError, d1)
           | (True, written, d1) \<Rightarrow>
               if \<not> fe_final_sync env then (Inl IoError, d1)
               else if \<not> joined then
                 (case commit_sidecar (fe_final_commit env) root written d1 of
                    (True, d2) \<Rightarrow> (Inl JoinError, d2)
                  | (False, d2) \<Rightarrow> (Inl IoError, d2))
               else (Inr \<lparr>fo_total_span = total_span, fo_bytes_written = written - start, fo_resumed_from = start\<rparr>,
                     remove_sidecar (fe_removed env) d1)))"

definition fetch_to_file ::
  "(swarm_address \<Rightarrow> bytes option) \<Rightarrow> (bytes \<Rightarrow> nat \<times> bytes) \<Rightarrow> (u64 \<Rightarrow> u64 \<Rightarrow> u64 \<Rightarrow> 'r option) \<Rightarrow> 'r file_env \<Rightarrow>
   swarm_address \<Rightarrow> fetch_disk \<Rightarrow> (file_error, fetch_outcome) result \<times> fetch_disk" where
  "fetch_to_file fetch decode_span byte_range env root d =
     (case fetch root of
        None \<Rightarrow> (Inl RootUnfetchable, d)
      | Some root_wire \<Rightarrow>
          if length root_wire < 8 then (Inl (MalformedRoot (length root_wire)), d)
          else
            let total_span = from_be_bytes (rev (snd (decode_span (take 8 root_wire))));
                start = read_resume_offset (fe_readable env) root total_span d
            in if 0 < total_span \<and> total_span \<le> start then
                 (Inr \<lparr>fo_total_span = total_span, fo_bytes_written = 0, fo_resumed_from = start\<rparr>,
                  remove_sidecar (fe_removed env) d)
               else if \<not> fe_open env then (Inl IoError, d)
               else
                 let out = (case fd_out d of Some b \<Rightarrow> b | None \<Rightarrow> []) in
                 if \<not> fe_set_len env then (Inl IoError, d\<lparr>fd_out := Some out\<rparr>)
                 else fetch_body byte_range env root total_span start (d\<lparr>fd_out := Some (set_len (unat start) out)\<rparr>))"

section \<open>Requests\<close>

definition retryable :: "http_answer \<Rightarrow> bool" where
  "retryable a \<longleftrightarrow> (case a of TransportError \<Rightarrow> True | Response status body \<Rightarrow> \<not> is_success status \<or> body = None)"

definition bee_spec ::
  "(bytes \<Rightarrow> bool) \<Rightarrow> http_answer list \<Rightarrow> nat \<Rightarrow> bee_fetcher \<Rightarrow> (bee_error, bytes) result \<Rightarrow> nat \<Rightarrow> bee_fetcher \<Rightarrow> bool" where
  "bee_spec valid as n f r m f' \<longleftrightarrow>
     (case r of
        Inr b \<Rightarrow> valid b \<and> (\<exists>k status. k < length as \<and> as ! k = Response status (Some b) \<and> is_success status
            \<and> (\<forall>j < k. retryable (as ! j)) \<and> m = n + Suc k)
          \<and> f' = f\<lparr>bf_chunks_fetched := bf_chunks_fetched f + 1, bf_bytes_fetched := bf_bytes_fetched f + of_nat (length b)\<rparr>
      | Inl e \<Rightarrow> f' = f \<and> m \<le> n + length as \<and> (\<forall>a. e = NotFetched a \<longrightarrow> m = n + length as \<and> (\<forall>x \<in> set as. retryable x)))"

lemma bee_spec_retry: "retryable a \<Longrightarrow> bee_spec valid rest (Suc n) f r m f' \<Longrightarrow> bee_spec valid (a # rest) n f r m f'"
  by (auto simp: bee_spec_def All_less_Suc2 intro: exI [of _ "Suc _"] split: sum.splits)

lemma bee_attempts_spec: "bee_attempts valid as prev n f = (r, m, f') \<Longrightarrow> bee_spec valid as n f r m f'"
proof (induction valid "as" prev n f rule: bee_attempts.induct)
  case (1 valid prev n f)
  then show ?case by (auto simp: bee_spec_def)
next
  case (2 valid rest prev n f)
  then show ?case by (simp add: bee_spec_retry retryable_def)
next
  case (3 valid status body rest prev n f)
  show ?case
  proof (cases "is_success status \<and> body \<noteq> None")
    case True
    with "3.prems" show ?thesis by (auto simp: bee_spec_def split: if_splits) (rule exI [of _ 0], simp)
  next
    case False
    then have "retryable (Response status body)" by (auto simp: retryable_def)
    moreover have "bee_spec valid rest (Suc n) f r m f'"
      using "3.prems" "3.IH" False by (cases "is_success status") auto
    ultimately show ?thesis by (rule bee_spec_retry)
  qed
qed

section \<open>Torn sidecars\<close>

lemma split_on_take: "\<exists>m n. m < length (split_on c s) \<and> split_on c (take k s) = take m (split_on c s) @ [take n (split_on c s ! m)]"
proof (induction s arbitrary: k)
  case Nil
  then show ?case by (intro exI [of _ 0]) simp
next
  case (Cons x xs)
  show ?case
  proof (cases k)
    case 0
    then show ?thesis using split_on_nonempty [of c "x # xs"] by (intro exI [of _ 0]) auto
  next
    case (Suc k')
    obtain m n where m: "m < length (split_on c xs)"
        "split_on c (take k' xs) = take m (split_on c xs) @ [take n (split_on c xs ! m)]"
      using Cons.IH by blast
    obtain p ps where ps: "split_on c xs = p # ps" using split_on_nonempty by (cases "split_on c xs") auto
    show ?thesis
    proof (cases "x = c")
      case True
      then show ?thesis using m Suc by (intro exI [of _ "Suc m"] exI [of _ n]) simp
    next
      case False
      show ?thesis
      proof (cases m)
        case 0
        with m Suc ps False show ?thesis by (intro exI [of _ 0] exI [of _ "Suc n"]) simp
      next
        case (Suc m')
        with m \<open>k = Suc k'\<close> ps False show ?thesis by (intro exI [of _ m] exI [of _ n]) simp
      qed
    qed
  qed
qed

lemma parse_digits_mono: "parse_digits acc s = Some v \<Longrightarrow> acc \<le> v"
  by (induction s arbitrary: acc) (fastforce split: option.splits)+

lemma parse_uint_prefix:
  assumes "parse_uint (take n (show_uint (w :: u64))) = Some (v :: u64)"
  shows "v \<le> w"
proof -
  let ?s = "take n (show_uint w)"
  obtain x where x: "parse_nat ?s = Some x" "try_word x = Some v"
    using assms by (auto simp: parse_uint_def bind_eq_Some_conv)
  have "CHR ''+'' \<notin> set (show_uint w)" by (rule decimal_not_char [OF decimal_show_uint]) simp
  then have "CHR ''+'' \<notin> set ?s" using in_set_takeD by fastforce
  then have d: "parse_digits 0 ?s = Some x" using x(1) by (auto simp: parse_nat_def split: list.splits)
  have "parse_digits 0 (?s @ drop n (show_uint w)) = Some (unat w)"
    by (simp add: show_uint_def parse_digits_show_nat)
  then have "parse_digits x (drop n (show_uint w)) = Some (unat w)" by (simp only: parse_digits_append d) simp
  then have "x \<le> unat w" by (rule parse_digits_mono)
  moreover have "unat v = x" using x(2) by (auto simp: try_word_def unat_of_nat split: if_splits)
  ultimately show ?thesis by (simp add: word_le_nat_alt)
qed

lemma lines_no_cr: "CR \<notin> set (concat ps) \<Longrightarrow> map strip_cr ps = ps"
  by (induction ps) (auto simp: strip_cr_def dest: last_in_set)

lemma render_pieces:
  "split_on NL (render s) = [MAGIC, ''root='' @ render_root (rs_root s), ''offset='' @ show_uint (rs_offset s), []]"
  "CR \<notin> set MAGIC" "CR \<notin> set (''root='' @ render_root (rs_root s))" "CR \<notin> set (''offset='' @ show_uint (rs_offset s))"
proof -
  have a: "NL \<notin> set MAGIC \<and> CR \<notin> set MAGIC" by (simp add: MAGIC_def NL_def CR_def)
  have b: "NL \<notin> set (''root='' @ render_root (rs_root s)) \<and> CR \<notin> set (''root='' @ render_root (rs_root s))"
    using own_hex.encode_no_sep(1,2) [of "rs_root s"] by (simp add: NL_def CR_def)
  have c: "NL \<notin> set (''offset='' @ show_uint (rs_offset s)) \<and> CR \<notin> set (''offset='' @ show_uint (rs_offset s))"
    using decimal_no_sep(1,2) [OF decimal_show_uint [of "rs_offset s"]] by (simp add: NL_def CR_def)
  show "CR \<notin> set MAGIC" "CR \<notin> set (''root='' @ render_root (rs_root s))" "CR \<notin> set (''offset='' @ show_uint (rs_offset s))"
    using a b c by blast+
  show "split_on NL (render s) = [MAGIC, ''root='' @ render_root (rs_root s), ''offset='' @ show_uint (rs_offset s), []]"
    unfolding render_unlines using a b c by (subst split_on_unlines) auto
qed

text \<open>
  A commit cut off at any byte names no other root and no larger offset: the offset's digits can
  only lose their tail.
\<close>

lemma torn_sidecar:
  assumes "parse (take k (render s)) = Some s'" "length (rs_root s) = 32"
  shows "rs_root s' = rs_root s \<and> rs_offset s' \<le> rs_offset s"
proof -
  let ?ps = "[MAGIC, ''root='' @ render_root (rs_root s), ''offset='' @ show_uint (rs_offset s), []]"
  obtain m n where mn: "m < length ?ps" "split_on NL (take k (render s)) = take m ?ps @ [take n (?ps ! m)]"
    using split_on_take [where c = NL and s = "render s" and k = k] by (auto simp: render_pieces(1))
  have cr: "CR \<notin> set (concat (take m ?ps))"
    using render_pieces(2) render_pieces(3,4) [of s] by (auto dest!: in_set_takeD)
  define tail where "tail = take n (?ps ! m)"
  have ls: "str_lines (take k (render s)) = take m ?ps @ (if tail = [] then [] else [tail])"
    unfolding str_lines_def Let_def mn(2) tail_def [symmetric] using lines_no_cr [OF cr] by simp
  have root: "parse_hex32 (render_root (rs_root s)) = Some (rs_root s)"
    by (rule parse_hex32_render_root [OF assms(2)])
  consider "m = 0" | "m = 1" | "m = 2" | "m = 3" using mn(1) by fastforce
  then show ?thesis
  proof cases
    case 3
    have t: "tail = take n (''offset='' @ show_uint (rs_offset s))" by (simp add: tail_def 3 eval_nat_numeral)
    with assms(1) ls 3 have "Option.bind (strip_prefix ''offset='' tail) parse_uint = Some (rs_offset s')" "rs_root s' = rs_root s"
      using root strip_prefix_append [of "''root=''" "render_root (rs_root s)"]
      by (auto simp: parse_def eval_nat_numeral split: if_splits option.splits)
    moreover have "parse_uint (take (n - 7) (show_uint (rs_offset s))) = Some (rs_offset s')"
    proof (cases "7 \<le> n")
      case True
      then have "tail = ''offset='' @ take (n - 7) (show_uint (rs_offset s))"
        unfolding t take_append by (subst take_all) (simp_all add: eval_nat_numeral)
      with calculation(1) show ?thesis using strip_prefix_append by simp
    next
      case False
      obtain h where "strip_prefix ''offset='' tail = Some h" using calculation(1) by (auto simp: bind_eq_Some_conv)
      then have "tail = ''offset='' @ h" by (rule strip_prefix_SomeD)
      then have "7 \<le> length tail" by simp
      with False t show ?thesis by simp
    qed
    ultimately show ?thesis using parse_uint_prefix by blast
  next
    case 4
    then have "tail = []" by (simp add: tail_def eval_nat_numeral)
    with assms(1) ls 4 have "rs_root s' = rs_root s \<and> rs_offset s' = rs_offset s"
      using root strip_prefix_append [of "''root=''" "render_root (rs_root s)"]
        strip_prefix_append [of "''offset=''" "show_uint (rs_offset s)"]
      by (auto simp: parse_def eval_nat_numeral)
    then show ?thesis by simp
  qed (use assms(1) ls in \<open>auto simp: parse_def split: if_splits option.splits\<close>)
qed

section \<open>Resuming\<close>

text \<open>
  The contract of the joiner: asked for a range of the file it sends a prefix of the bytes from the
  start of the range on, and all of them when it does not fail.
\<close>

definition joins_body :: "(u64 \<Rightarrow> u64 \<Rightarrow> u64 \<Rightarrow> 'r option) \<Rightarrow> bytes \<Rightarrow> ('r option \<Rightarrow> bytes list \<times> bool) \<Rightarrow> bool" where
  "joins_body byte_range body join \<longleftrightarrow>
     (\<forall>start bufs joined. join (join_range byte_range start (of_nat (length body))) = (bufs, joined) \<longrightarrow>
        unat start \<le> length body \<longrightarrow>
        prefix (concat bufs) (drop (unat start) body) \<and> (joined \<longrightarrow> concat bufs = drop (unat start) body))"

text \<open>A disk from which a fetch of \<open>body\<close> under \<open>root\<close> can resume: the offset a sidecar claims is in the file.\<close>

definition resumable :: "swarm_address \<Rightarrow> bytes \<Rightarrow> fetch_disk \<Rightarrow> bool" where
  "resumable root body d \<longleftrightarrow>
     (\<forall>tx s. fd_sidecar d = Some tx \<longrightarrow> parse tx = Some s \<longrightarrow> rs_root s = root \<longrightarrow> rs_offset s \<noteq> 0 \<longrightarrow>
        (\<exists>out. fd_out d = Some out \<and> prefix out body \<and> unat (rs_offset s) \<le> length out))"

lemma prefix_append_drop:
  assumes "prefix (out @ b) body" shows "prefix (out @ take n b) body"
  by (metis assms append_assoc append_take_drop_id prefixI prefix_def prefix_order.trans)

lemma commit_resumable:
  assumes "commit_sidecar fault root off d = (ok, d')" "length root = 32"
    and "fd_out d = Some out" "prefix out body" "unat off \<le> length out"
  shows "resumable root body d' \<and> fd_out d' = Some out \<and> (ok \<longrightarrow> fd_sidecar d' = Some (render \<lparr>rs_root = root, rs_offset = off\<rparr>))"
proof -
  let ?s = "\<lparr>rs_root = root, rs_offset = off\<rparr>"
  have "\<exists>k. fd_sidecar d' = Some (take k (render ?s))"
    using assms(1) by (cases fault) (auto simp: commit_sidecar_def Let_def intro: exI [of _ "length (render ?s)"])
  then obtain k where "fd_sidecar d' = Some (take k (render ?s))" ..
  moreover have "fd_out d' = Some out" "ok \<longrightarrow> fd_sidecar d' = Some (render ?s)"
    using assms(1,3) by (cases fault; auto simp: commit_sidecar_def Let_def)+
  moreover have "unat (rs_offset s) \<le> length out" if "parse (take k (render ?s)) = Some s" for s
    using torn_sidecar [OF that] assms(2,5) by (simp add: word_le_nat_alt)
  ultimately show ?thesis using assms(4) by (auto simp: resumable_def)
qed

lemma sink_loop_spec:
  assumes "sink_loop root bs written last_commit d = (ok, w, d')" "length root = 32"
    and "fd_out d = Some out" "resumable root body d" "prefix (out @ concat (map fst bs)) body"
    and "unat written = length out" "length body < 2 ^ 64"
  shows "\<exists>out'. fd_out d' = Some out' \<and> resumable root body d' \<and> prefix out' body \<and> prefix out out'
    \<and> (ok \<longrightarrow> out' = out @ concat (map fst bs) \<and> unat w = length out')"
  using assms
proof (induction bs arbitrary: written last_commit d out)
  case Nil
  then show ?case by auto
next
  case (Cons bf rest)
  obtain buf fault where bf: "bf = (buf, fault)" by force
  note prems = Cons.prems [unfolded bf]
  have keep: "resumable root body d1" if "fd_sidecar d1 = fd_sidecar d" "fd_out d1 = Some (out @ b)" "prefix (out @ b) body" for d1 b
    using that prems(3,4) by (fastforce simp: resumable_def)
  show ?case
  proof (cases "\<exists>n. fault = SinkWriteFails n")
    case True
    then obtain n where n: "fault = SinkWriteFails n" by blast
    with prems(1,3) have d': "fd_out d' = Some (out @ take n buf)" "fd_sidecar d' = fd_sidecar d" "\<not> ok"
      by (auto simp: append_out_def)
    moreover have "prefix (out @ take n buf) body"
      using prefix_append_drop [of out "buf @ concat (map fst rest)" body] prefix_append_drop [of out buf body n] prems(5)
      by (metis append_assoc append_prefixD concat.simps(2) fst_conv list.simps(9))
    ultimately show ?thesis using keep by auto
  next
    case False
    let ?d1 = "append_out buf d" and ?w1 = "written + of_nat (length buf)"
    have d1: "fd_out ?d1 = Some (out @ buf)" "fd_sidecar ?d1 = fd_sidecar d"
      using prems(3) by (auto simp: append_out_def)
    have pre: "prefix (out @ buf) body" "prefix ((out @ buf) @ concat (map fst rest)) body"
      using prems(5) by (auto intro: append_prefixD)
    have res1: "resumable root body ?d1" by (rule keep [OF d1(2,1) pre(1)])
    have w1: "unat ?w1 = length (out @ buf)"
    proof -
      have "length out + length buf < 2 ^ 64" using prefix_length_le [OF pre(1)] prems(7) by simp
      then show ?thesis using prems(6) by (subst unat_add_no_overflow) (simp_all add: unat_of_nat)
    qed
    consider (commit) "COMMIT_INTERVAL \<le> ?w1 - last_commit" | (go) "\<not> COMMIT_INTERVAL \<le> ?w1 - last_commit" by blast
    then show ?thesis
    proof cases
      case go
      then have "sink_loop root rest ?w1 last_commit ?d1 = (ok, w, d')"
        using prems(1) False by (cases fault) (auto simp: Let_def)
      from Cons.IH [OF this prems(2) d1(1) res1 pre(2) w1 prems(7)]
      show ?thesis by (auto simp: bf dest: append_prefixD)
    next
      case commit
      show ?thesis
      proof (cases "fault = SinkSyncFails")
        case True
        then show ?thesis using prems(1) commit d1 res1 pre(1) by (auto simp: Let_def)
      next
        case no_sync: False
        obtain b d2 where c: "commit_sidecar fault root ?w1 ?d1 = (b, d2)" by force
        have c2: "resumable root body d2" "fd_out d2 = Some (out @ buf)"
          using commit_resumable [OF c prems(2) d1(1) pre(1)] w1 by simp_all
        show ?thesis
        proof (cases b)
          case True
          then have "sink_loop root rest ?w1 ?w1 d2 = (ok, w, d')"
            using prems(1) False no_sync commit c by (cases fault) (auto simp: Let_def)
          from Cons.IH [OF this prems(2) c2(2,1) pre(2) w1 prems(7)]
          show ?thesis by (auto simp: bf dest: append_prefixD)
        next
          case b: False
          then have "d' = d2" "\<not> ok" using prems(1) False no_sync commit c by (cases fault; auto simp: Let_def)+
          then show ?thesis using c2 pre(1) by auto
        qed
      qed
    qed
  qed
qed

lemma concat_zip_fst: "concat (map fst (zip bufs (map f [0..<length bufs]))) = concat bufs"
  by (simp add: map_fst_zip)

lemma remove_resumable:
  "resumable root body d \<Longrightarrow> resumable root body (remove_sidecar b d) \<and> fd_out (remove_sidecar b d) = fd_out d"
  by (simp add: remove_sidecar_def resumable_def)

lemma resume_offset_sound:
  assumes "resumable root body d"
  obtains "read_resume_offset readable root span d = 0"
  | out where "fd_out d = Some out" "prefix out body" "unat (read_resume_offset readable root span d) \<le> length out"
      "read_resume_offset readable root span d \<le> span"
proof (cases "read_resume_offset readable root span d = 0")
  case False
  then obtain tx s where "fd_sidecar d = Some tx" "parse tx = Some s" "rs_root s = root"
      "read_resume_offset readable root span d = rs_offset s" "rs_offset s \<le> span"
    by (auto simp: read_resume_offset_def split: if_splits option.splits)
  then show ?thesis using assms that(2) False by (auto simp: resumable_def)
qed (use that in blast)

lemma resume_after_commit:
  assumes "length root = 32" "fd_sidecar d = Some (render \<lparr>rs_root = root, rs_offset = off\<rparr>)" "off \<le> span"
  shows "read_resume_offset True root span d = off"
  using assms parse_render_state [of "\<lparr>rs_root = root, rs_offset = off\<rparr>"] by (simp add: read_resume_offset_def)

lemma fetch_body_spec:
  assumes "fetch_body byte_range env root span start d = (res, d')" "length root = 32"
    and "joins_body byte_range body (fe_join env)" "unat span = length body"
    and "fd_out d = Some (take (unat start) body)" "unat start \<le> length body" "resumable root body d"
  shows "resumable root body d' \<and>
    (case res of
       Inr oc \<Rightarrow> fd_out d' = Some body \<and> fo_total_span oc = span \<and> fo_resumed_from oc = start
         \<and> unat (fo_bytes_written oc) + unat start = length body
     | Inl e \<Rightarrow> (\<exists>out. fd_out d' = Some out \<and> prefix out body)
         \<and> (e = JoinError \<longrightarrow> unat start \<le> unat (read_resume_offset True root span d')))"
proof -
  obtain bufs joined where j: "fe_join env (join_range byte_range start span) = (bufs, joined)" by force
  let ?bs = "zip bufs (map (fe_faults env) [0..<length bufs])"
  obtain ok w d1 where sl: "sink_loop root ?bs start start d = (ok, w, d1)" by (metis prod_cases3)
  have tot: "span = of_nat (length body)" "length body < 2 ^ 64"
    using u64_less [of span] by (simp_all flip: assms(4))
  have jb: "prefix (concat bufs) (drop (unat start) body)" "joined \<Longrightarrow> concat bufs = drop (unat start) body"
    using assms(3,6) j unfolding joins_body_def tot(1) by blast+
  have "prefix (take (unat start) body @ concat (map fst ?bs)) body"
    using jb(1) by (metis append_take_drop_id concat_zip_fst same_prefix_prefix)
  then obtain out where out: "fd_out d1 = Some out" "resumable root body d1" "prefix out body" "prefix (take (unat start) body) out"
      "ok \<longrightarrow> out = take (unat start) body @ concat bufs \<and> unat w = length out"
    using sink_loop_spec [OF sl assms(2,5,7) _ _ tot(2)] assms(6) by (auto simp: concat_zip_fst)
  have len: "unat start \<le> length out" using prefix_length_le [OF out(4)] assms(6) by simp
  consider (io) "res = Inl IoError" "d' = d1"
    | (join) "ok" "\<not> joined" | (finish) ok joined "res = Inr \<lparr>fo_total_span = span, fo_bytes_written = w - start, fo_resumed_from = start\<rparr>"
        "d' = remove_sidecar (fe_removed env) d1"
    using assms(1) j sl by (auto simp: fetch_body_def split: if_splits bool.splits)
  then show ?thesis
  proof cases
    case io
    then show ?thesis using out by auto
  next
    case join
    show ?thesis
    proof (cases "fe_final_sync env")
      case False
      then show ?thesis using assms(1) j sl join out by (auto simp: fetch_body_def)
    next
      case True
      obtain b d2 where c: "commit_sidecar (fe_final_commit env) root w d1 = (b, d2)" by force
      then have res: "res = Inl (if b then JoinError else IoError)" "d' = d2"
        using assms(1) j sl join True by (auto simp: fetch_body_def split: bool.splits)
      have w: "unat w \<le> length out" "unat start \<le> unat w" using out(5) join(1) len by simp_all
      note cs = commit_resumable [OF c assms(2) out(1,3) w(1)]
      have "w \<le> span" using w(1) prefix_length_le [OF out(3)] assms(4) by (simp add: word_le_nat_alt)
      then show ?thesis using cs res w(2) resume_after_commit [OF assms(2), of d2 w span] out(3) by auto
    qed
  next
    case finish
    have "out = body" using finish(1,2) out(5) jb(2) by simp
    moreover have "unat (w - start) = unat w - unat start"
      using out(5) finish(1) len by (intro unat_sub) (simp add: word_le_nat_alt)
    ultimately show ?thesis using finish out len remove_resumable by auto
  qed
qed

lemma resume_start:
  assumes "resumable root body d" "unat span = length body"
  defines "start \<equiv> read_resume_offset True root span d"
    and "out \<equiv> (case fd_out d of Some b \<Rightarrow> b | None \<Rightarrow> [])"
  shows "set_len (unat start) out = take (unat start) body" "unat start \<le> length body"
    "resumable root body (d\<lparr>fd_out := Some (take (unat start) body)\<rparr>)" "resumable root body (d\<lparr>fd_out := Some out\<rparr>)"
    "span \<le> start \<Longrightarrow> 0 < span \<Longrightarrow> fd_out d = Some body"
proof -
  have claim: "rs_offset s = start" if sc: "fd_sidecar d = Some tx" "parse tx = Some s" "rs_root s = root" "rs_offset s \<noteq> 0" for tx s
  proof -
    obtain f where "prefix f body" "unat (rs_offset s) \<le> length f" using sc assms(1) by (auto simp: resumable_def)
    then have "rs_offset s \<le> span" using assms(2) prefix_length_le by (fastforce simp: word_le_nat_alt)
    then show ?thesis using sc by (simp add: start_def read_resume_offset_def)
  qed
  have some: "fd_out d = Some out \<and> prefix out body \<and> unat start \<le> length out" if "start \<noteq> 0"
    using assms(1) that by (cases rule: resume_offset_sound [of root body d True span]) (auto simp: start_def out_def)
  show s: "set_len (unat start) out = take (unat start) body"
    using some by (cases "start = 0") (auto simp: set_len_def prefix_def)
  show le: "unat start \<le> length body" using some prefix_length_le by (cases "start = 0") fastforce+
  show "resumable root body (d\<lparr>fd_out := Some (take (unat start) body)\<rparr>)"
    using claim le by (auto simp: resumable_def take_is_prefix)
  show "resumable root body (d\<lparr>fd_out := Some out\<rparr>)" using claim some by (fastforce simp: resumable_def)
  show "fd_out d = Some body" if "span \<le> start" "0 < span"
  proof -
    have "start \<noteq> 0" using that by auto
    then have o: "fd_out d = Some out" "prefix out body" "unat start \<le> length out" using some by blast+
    moreover have "length body \<le> length out" using o(3) that(1) assms(2) by (simp add: word_le_nat_alt)
    ultimately show ?thesis by (auto simp: prefix_def)
  qed
qed

lemma fetch_to_file_eq:
  assumes "fetch root = Some wire" "8 \<le> length wire" "from_be_bytes (rev (snd (decode_span (take 8 wire)))) = (span :: u64)"
    and "read_resume_offset (fe_readable env) root span d = start" "(case fd_out d of Some b \<Rightarrow> b | None \<Rightarrow> []) = out"
  shows "fetch_to_file fetch decode_span byte_range env root d =
    (if 0 < span \<and> span \<le> start then
       (Inr \<lparr>fo_total_span = span, fo_bytes_written = 0, fo_resumed_from = start\<rparr>, remove_sidecar (fe_removed env) d)
     else if \<not> fe_open env then (Inl IoError, d)
     else if \<not> fe_set_len env then (Inl IoError, d\<lparr>fd_out := Some out\<rparr>)
     else fetch_body byte_range env root span start (d\<lparr>fd_out := Some (set_len (unat start) out)\<rparr>))"
  using assms by (simp add: fetch_to_file_def Let_def)

lemma fetch_to_file_spec:
  assumes "fetch_to_file fetch decode_span byte_range env root d = (res, d')" "length root = 32"
    and "fetch root = Some wire" "8 \<le> length wire" "unat (from_be_bytes (rev (snd (decode_span (take 8 wire)))) :: u64) = length body"
    and "fe_readable env" "joins_body byte_range body (fe_join env)" "resumable root body d"
  shows "resumable root body d' \<and>
    (\<forall>oc. res = Inr oc \<longrightarrow> fd_out d' = Some body \<and> unat (fo_bytes_written oc) + unat (fo_resumed_from oc) = length body)
    \<and> (res = Inl JoinError \<longrightarrow> unat (read_resume_offset True root (of_nat (length body)) d)
         \<le> unat (read_resume_offset True root (of_nat (length body)) d'))"
proof -
  define span :: u64 where "span = from_be_bytes (rev (snd (decode_span (take 8 wire))))"
  define start where "start = read_resume_offset True root span d"
  define out where "out = (case fd_out d of Some b \<Rightarrow> b | None \<Rightarrow> [])"
  have span: "unat span = length body" "of_nat (length body) = span" using assms(5) by (simp_all add: span_def flip: assms(5))
  note rs = resume_start [OF assms(8) span(1), folded start_def out_def]
  have st: "read_resume_offset (fe_readable env) root span d = start" using assms(6) by (simp add: start_def)
  note run = fetch_to_file_eq [where fetch = fetch and decode_span = decode_span and env = env and d = d and byte_range = byte_range,
      OF assms(3,4) span_def [symmetric] st out_def [symmetric]]
  show ?thesis
  proof (cases "0 < span \<and> span \<le> start")
    case True
    then have "unat start = length body" using rs(2) span(1) by (simp add: word_le_nat_alt)
    moreover have "res = Inr \<lparr>fo_total_span = span, fo_bytes_written = 0, fo_resumed_from = start\<rparr>"
        "d' = remove_sidecar (fe_removed env) d"
      using assms(1) unfolding run if_P [OF True] by simp_all
    ultimately show ?thesis using rs(5) True remove_resumable [OF assms(8)] by auto
  next
    case False
    note run = run [unfolded if_not_P [OF False]]
    show ?thesis
    proof (cases "fe_open env \<and> fe_set_len env")
      case True
      then have "fetch_body byte_range env root span start (d\<lparr>fd_out := Some (take (unat start) body)\<rparr>) = (res, d')"
        using assms(1) unfolding run rs(1) by simp
      from fetch_body_spec [OF this assms(2,7) span(1) _ rs(2,3)] span(2) show ?thesis
        by (auto simp: start_def split: sum.splits)
    next
      case closed: False
      then have "res = Inl IoError \<and> (d' = d \<or> d' = d\<lparr>fd_out := Some out\<rparr>)"
        using assms(1) unfolding run by (cases "fe_open env") auto
      then show ?thesis using assms(8) rs(4) by auto
    qed
  qed
qed

lemma fetch_runs_resumable:
  assumes "length root = 32" "fetch root = Some wire" "8 \<le> length wire"
    and "unat (from_be_bytes (rev (snd (decode_span (take 8 wire)))) :: u64) = length body"
    and "list_all (\<lambda>e. fe_readable e \<and> joins_body byte_range body (fe_join e)) envs" "resumable root body d"
  shows "resumable root body (fold (\<lambda>e d. snd (fetch_to_file fetch decode_span byte_range e root d)) envs d)"
  using assms(5,6)
proof (induction envs arbitrary: d)
  case (Cons e envs)
  obtain r d' where run: "fetch_to_file fetch decode_span byte_range e root d = (r, d')" by force
  have "resumable root body d'" using fetch_to_file_spec [OF run assms(1-4)] Cons.prems by simp
  with Cons run show ?case by simp
qed simp

text \<open>With a disk that never fails and a joiner that completes, a fetch whose root is there returns.\<close>

definition disk_healthy :: "'r file_env \<Rightarrow> bool" where
  "disk_healthy env \<longleftrightarrow> fe_open env \<and> fe_set_len env \<and> (\<forall>n. fe_faults env n = SinkOk) \<and> fe_final_sync env"

lemma sink_loop_healthy: "list_all (\<lambda>b. snd b = SinkOk) bs \<Longrightarrow> fst (sink_loop root bs written committed d)"
  by (induction bs arbitrary: written committed d) (auto simp: Let_def commit_sidecar_def)

lemma fetch_to_file_returns:
  assumes "disk_healthy env" "\<And>r. snd (fe_join env r)" "fetch root = Some wire" "8 \<le> length wire"
  shows "\<exists>oc d'. fetch_to_file fetch decode_span byte_range env root d = (Inr oc, d')"
proof -
  have body: "\<exists>oc d'. fetch_body byte_range env root span start d = (Inr oc, d')" for span start d
  proof -
    obtain bufs where j: "fe_join env (join_range byte_range start span) = (bufs, True)"
      using assms(2) by (metis prod.collapse)
    have "list_all (\<lambda>b. snd b = SinkOk) (zip bufs (map (fe_faults env) [0..<length bufs]))"
      using assms(1) by (auto simp: list_all_iff disk_healthy_def dest!: set_zip_rightD)
    then obtain w d1 where "sink_loop root (zip bufs (map (fe_faults env) [0..<length bufs])) start start d = (True, w, d1)"
      using sink_loop_healthy by (metis prod.collapse)
    then show ?thesis using j assms(1) by (simp add: fetch_body_def disk_healthy_def)
  qed
  show ?thesis using assms body by (auto simp: fetch_to_file_def Let_def disk_healthy_def)
qed

lemma fetch_body_one:
  assumes "fe_join env (join_range byte_range start span) = ([buf], joined)" "fe_faults env 0 = SinkOk" "fe_final_sync env"
    and "length buf < 8388608"
  shows "fetch_body byte_range env root span start d =
    (if joined then (Inr \<lparr>fo_total_span = span, fo_bytes_written = of_nat (length buf), fo_resumed_from = start\<rparr>,
        remove_sidecar (fe_removed env) (append_out buf d))
     else case commit_sidecar (fe_final_commit env) root (start + of_nat (length buf)) (append_out buf d) of
        (True, d2) \<Rightarrow> (Inl JoinError, d2) | (False, d2) \<Rightarrow> (Inl IoError, d2))"
proof -
  have "unat (of_nat (length buf) :: u64) = length buf" using assms(4) by (simp add: unat_of_nat)
  then have "\<not> COMMIT_INTERVAL \<le> of_nat (length buf)" using assms(4) by (simp add: COMMIT_INTERVAL_def word_le_nat_alt)
  then show ?thesis using assms(1-3) by (simp add: fetch_body_def Let_def)
qed

section \<open>Properties\<close>


definition sample_file_env :: "bytes list \<Rightarrow> bool \<Rightarrow> u64 file_env" where
  "sample_file_env bufs joined = \<lparr>fe_readable = True, fe_open = True, fe_set_len = True, fe_join = (\<lambda>_. (bufs, joined)),
     fe_faults = (\<lambda>_. SinkOk), fe_final_sync = True, fe_final_commit = SinkOk, fe_removed = True\<rparr>"

definition sample_join :: "u64 option \<Rightarrow> bytes list \<times> bool" where
  "sample_join r = (case r of None \<Rightarrow> ([[10]], False) | Some s \<Rightarrow> ([drop (unat s) [10, 20]], True))"

lemma sample_joins: "joins_body (\<lambda>s _ _. Some s) [10, 20] sample_join"
  by (auto simp: joins_body_def sample_join_def join_range_def split: if_splits)

lemma sample_span: "from_be_bytes (rev (snd (0 :: nat, take 8 [2, 0, 0, 0, 0, 0, 0, 0 :: u8]))) = (2 :: u64)"
  by (simp add: from_be_bytes_def)

definition sample_wire :: bytes where
  "sample_wire = [2, 0, 0, 0, 0, 0, 0, 0]"

definition sample_env :: "u64 file_env" where
  "sample_env = (sample_file_env [] True)\<lparr>fe_join := sample_join\<rparr>"

lemma sample_runs:
  assumes "length root = 32"
  shows "fetch_to_file (\<lambda>_. Some sample_wire) (\<lambda>s. (0, s)) (\<lambda>s _ _. Some s) sample_env root \<lparr>fd_out = None, fd_sidecar = None\<rparr>
      = (Inl JoinError, \<lparr>fd_out = Some [10], fd_sidecar = Some (render \<lparr>rs_root = root, rs_offset = 1\<rparr>)\<rparr>)"
    and "\<exists>oc d2. fetch_to_file (\<lambda>_. Some sample_wire) (\<lambda>s. (0, s)) (\<lambda>s _ _. Some s) sample_env root
      \<lparr>fd_out = Some [10], fd_sidecar = Some (render \<lparr>rs_root = root, rs_offset = 1\<rparr>)\<rparr> = (Inr oc, d2)"
proof -
  have len: "8 \<le> length sample_wire" by (simp add: sample_wire_def)
  have span: "from_be_bytes (rev (snd (0 :: nat, take 8 sample_wire))) = (2 :: u64)" unfolding sample_wire_def by (rule sample_span)
  have env: "fe_readable sample_env" "fe_open sample_env" "fe_set_len sample_env" "fe_join sample_env = sample_join"
      "fe_faults sample_env 0 = SinkOk" "fe_final_sync sample_env" "fe_final_commit sample_env = SinkOk"
    by (simp_all add: sample_env_def sample_file_env_def)
  have pr: "parse (render \<lparr>rs_root = root, rs_offset = 1\<rparr>) = Some \<lparr>rs_root = root, rs_offset = 1\<rparr>"
    using assms by (intro parse_render_state) simp
  note eq = fetch_to_file_eq [where fetch = "\<lambda>_. Some sample_wire" and root = root and decode_span = "\<lambda>s. (0, s)" and env = sample_env
      and byte_range = "\<lambda>s _ _. Some s", OF refl len span]
  show "fetch_to_file (\<lambda>_. Some sample_wire) (\<lambda>s. (0, s)) (\<lambda>s _ _. Some s) sample_env root \<lparr>fd_out = None, fd_sidecar = None\<rparr>
      = (Inl JoinError, \<lparr>fd_out = Some [10], fd_sidecar = Some (render \<lparr>rs_root = root, rs_offset = 1\<rparr>)\<rparr>)"
    by (subst eq [where start = 0 and out = "[]"])
      (simp_all add: env fetch_body_one [where buf = "[10]" and joined = False] read_resume_offset_def set_len_def
        sample_join_def join_range_def append_out_def commit_sidecar_def)
  show "\<exists>oc d2. fetch_to_file (\<lambda>_. Some sample_wire) (\<lambda>s. (0, s)) (\<lambda>s _ _. Some s) sample_env root
      \<lparr>fd_out = Some [10], fd_sidecar = Some (render \<lparr>rs_root = root, rs_offset = 1\<rparr>)\<rparr> = (Inr oc, d2)"
    by (subst eq [where start = 1 and out = "[10]"])
      (simp_all add: pr env fetch_body_one [where buf = "[20]" and joined = True] read_resume_offset_def set_len_def
        sample_join_def join_range_def word_le_nat_alt)
qed

lemma sample_hyps:
  "8 \<le> length sample_wire" "unat (from_be_bytes (rev (snd (0 :: nat, take 8 sample_wire))) :: u64) = length [10 :: u8, 20]"
  "list_all (\<lambda>e. fe_readable e \<and> joins_body (\<lambda>s _ _. Some s) [10, 20] (fe_join e)) [sample_env, sample_env]"
proof -
  show "8 \<le> length sample_wire" by (simp add: sample_wire_def)
  show "unat (from_be_bytes (rev (snd (0 :: nat, take 8 sample_wire))) :: u64) = length [10 :: u8, 20]"
    unfolding sample_wire_def sample_span by simp
  show "list_all (\<lambda>e. fe_readable e \<and> joins_body (\<lambda>s _ _. Some s) [10, 20] (fe_join e)) [sample_env, sample_env]"
    using sample_joins by (simp add: sample_env_def sample_file_env_def)
qed


text \<open>
  C40 A sidecar left by another file in the same place makes a later fetch wrong: a fetch of root \<open>B\<close>
  that fails in a write before its first commit truncates the output but leaves the sidecar of root
  \<open>A\<close>, and the next fetch of \<open>A\<close> pads the missing bytes with zeros, joins only the rest and reports
  success.
\<close>
theorem foreign_sidecar_corrupts:
  assumes "length root = 32" "other \<noteq> root" "decode_span (take 8 wire) = (0, [2, 0, 0, 0, 0, 0, 0, 0])" "8 \<le> length wire"
    and "d = \<lparr>fd_out = Some [10], fd_sidecar = Some (render \<lparr>rs_root = root, rs_offset = 1\<rparr>)\<rparr>"
    and "(res1, d1) = fetch_to_file (\<lambda>_. Some wire) decode_span (\<lambda>s _ _. Some s)
      ((sample_file_env [[7]] True)\<lparr>fe_faults := (\<lambda>_. SinkWriteFails 0)\<rparr>) other d"
    and "(res2, d2) = fetch_to_file (\<lambda>_. Some wire) decode_span (\<lambda>s _ _. Some s) (sample_file_env [[20]] True) root d1"
  shows "res1 = Inl IoError \<and> (\<exists>oc. res2 = Inr oc) \<and> fd_out d2 = Some [0, 20]"
proof -
  have span: "from_be_bytes (rev [2, 0, 0, 0, 0, 0, 0, 0 :: u8]) = (2 :: u64)" by (simp add: from_be_bytes_def)
  have pr: "parse (render \<lparr>rs_root = root, rs_offset = 1\<rparr>) = Some \<lparr>rs_root = root, rs_offset = 1\<rparr>"
    using assms(1) by (intro parse_render_state) simp
  note eq = fetch_to_file_eq [where fetch = "\<lambda>_. Some wire" and decode_span = decode_span and span = 2 and byte_range = "\<lambda>s _ _. Some s",
      OF refl assms(4)]
  let ?sc = "Some (render \<lparr>rs_root = root, rs_offset = 1\<rparr>)"
  have "fetch_to_file (\<lambda>_. Some wire) decode_span (\<lambda>s _ _. Some s)
      ((sample_file_env [[7]] True)\<lparr>fe_faults := (\<lambda>_. SinkWriteFails 0)\<rparr>) other d
    = (Inl IoError, \<lparr>fd_out = Some [], fd_sidecar = ?sc\<rparr>)"
    using assms(2,3,5) span pr
    by (subst eq [where start = 0 and out = "[10]"])
      (simp_all add: fetch_body_def read_resume_offset_def set_len_def sample_file_env_def append_out_def)
  then have one: "res1 = Inl IoError" "d1 = \<lparr>fd_out = Some [], fd_sidecar = ?sc\<rparr>" using assms(6) by auto
  have "\<exists>oc. fetch_to_file (\<lambda>_. Some wire) decode_span (\<lambda>s _ _. Some s) (sample_file_env [[20]] True) root d1
      = (Inr oc, \<lparr>fd_out = Some [0, 20], fd_sidecar = None\<rparr>)"
    using assms(3) span pr one(2)
    by (subst eq [where start = 1 and out = "[]"])
      (simp_all add: fetch_body_one [where buf = "[20]" and joined = True] read_resume_offset_def set_len_def sample_file_env_def
        append_out_def remove_sidecar_def word_le_nat_alt)
  then obtain oc where "fetch_to_file (\<lambda>_. Some wire) decode_span (\<lambda>s _ _. Some s) (sample_file_env [[20]] True) root d1
      = (Inr oc, \<lparr>fd_out = Some [0, 20], fd_sidecar = None\<rparr>)" ..
  then show ?thesis using one assms(7) by simp
qed

theorem foreign_sidecar_corrupts_witness:
  "\<exists>d1. fd_out (snd (fetch_to_file (\<lambda>_. Some (replicate 8 0)) (\<lambda>_. (0, [2, 0, 0, 0, 0, 0, 0, 0])) (\<lambda>s _ _. Some s)
     (sample_file_env [[20]] True) (replicate 32 1) d1)) = Some [0, 20]"
proof -
  let ?root = "replicate 32 1 :: swarm_address" and ?other = "replicate 32 2 :: swarm_address"
  let ?run = "fetch_to_file (\<lambda>_. Some (replicate 8 0)) (\<lambda>_. (0, [2, 0, 0, 0, 0, 0, 0, 0])) (\<lambda>s _ _. Some s)"
  obtain res1 d1 where st1: "(res1, d1) = ?run ((sample_file_env [[7]] True)\<lparr>fe_faults := (\<lambda>_. SinkWriteFails 0)\<rparr>) ?other
      \<lparr>fd_out = Some [10], fd_sidecar = Some (render \<lparr>rs_root = ?root, rs_offset = 1\<rparr>)\<rparr>" by (metis surj_pair)
  obtain res2 d2 where st2: "(res2, d2) = ?run (sample_file_env [[20]] True) ?root d1" by (metis surj_pair)
  have "?other \<noteq> ?root" by simp
  from foreign_sidecar_corrupts [OF _ this _ _ refl st1 st2] st2 show ?thesis by (metis length_replicate order_refl snd_conv)
qed

text \<open>
  C39 The HTTP chunk source only returns bytes that validate against the address, asks at most three
  times, retries exactly the transport errors, error statuses and broken bodies, stops at once on
  bytes that fail validation, and counts exactly the chunks and bytes it returns.
\<close>
theorem bee_fetch_validated:
  assumes "bee_fetch cac soc get hex addr f = (r, n, f')"
  shows "n \<le> 3 \<and> (case r of
      Inr b \<Rightarrow> (cac addr b \<or> soc addr b)
        \<and> (\<exists>k status. k < 3 \<and> get (chunk_url hex addr f) k = Response status (Some b) \<and> is_success status
            \<and> (\<forall>j < k. retryable (get (chunk_url hex addr f) j)) \<and> n = Suc k)
        \<and> f' = f\<lparr>bf_chunks_fetched := bf_chunks_fetched f + 1, bf_bytes_fetched := bf_bytes_fetched f + of_nat (length b)\<rparr>
    | Inl e \<Rightarrow> f' = f \<and> ((\<exists>a. e = NotFetched a) \<longrightarrow> n = 3 \<and> (\<forall>k < 3. retryable (get (chunk_url hex addr f) k))))"
proof -
  let ?g = "get (chunk_url hex addr f)"
  have "bee_spec (\<lambda>b. cac addr b \<or> soc addr b) (map ?g [0..<3]) 0 f r n f'"
    using bee_attempts_spec assms by (simp add: bee_fetch_def ATTEMPTS_def)
  then show ?thesis by (auto simp: bee_spec_def split: sum.splits)
qed

theorem bee_fetch_validated_witness:
  "\<exists>n f'. bee_fetch (\<lambda>a b. b = [1]) (\<lambda>a b. False) (\<lambda>url k. if k = 0 then TransportError else Response 200 (Some [1])) render_root
     (replicate 32 0) (bee_new ''http://bee/'') = (Inr [1], n, f') \<and> n \<le> 3 \<and> bf_chunks_fetched f' = 1"
proof -
  let ?run = "bee_fetch (\<lambda>a b. b = [1]) (\<lambda>a b. False) (\<lambda>url k. if k = 0 then TransportError else Response 200 (Some [1])) render_root
     (replicate 32 0) (bee_new ''http://bee/'')"
  obtain n f' where run: "?run = (Inr [1], n, f')"
    by (simp add: bee_fetch_def ATTEMPTS_def is_success_def eval_nat_numeral)
  from bee_fetch_validated [OF run] run show ?thesis by (simp add: bee_new_def)
qed

end
