(* ===== verification/Inventory.thy ===== *)
theory Inventory
  imports Topology Resume
begin

text \<open>
  The files and arguments the commands read (\<^verbatim>\<open>rust/ds-cli/src\<close>): hexadecimal arguments, the chunk
  inventory in its three readers, the seed list, and the topology cache, written by
  \<^verbatim>\<open>crawl.rs\<close> and read by \<^verbatim>\<open>fetchdirect.rs\<close>. A file is its text, or \<open>None\<close> when it cannot be
  read. The \<open>hex\<close> crate and the multiaddr parser are parameters.
\<close>

section \<open>Arguments\<close>

function trim_start_matches :: "string \<Rightarrow> string \<Rightarrow> string" where
  "trim_start_matches p s =
     (if p = [] then s else case strip_prefix p s of None \<Rightarrow> s | Some r \<Rightarrow> trim_start_matches p r)"
  by pat_completeness auto
termination
  by (relation "measure (\<lambda>(p, s). length s)") (auto dest!: strip_prefix_SomeD)

declare trim_start_matches.simps [simp del]

definition parse_hex :: "(nat \<Rightarrow> string \<Rightarrow> bytes option) \<Rightarrow> nat \<Rightarrow> string \<Rightarrow> bytes option" where
  "parse_hex hex_decode n s = hex_decode n (trim_start_matches ''0X'' (trim_start_matches ''0x'' (str_trim s)))"

datatype ref_error = NotHex | BadLength nat

definition parse_ref :: "(string \<Rightarrow> bytes option) \<Rightarrow> string \<Rightarrow> (ref_error, swarm_address) result" where
  "parse_ref hex_decode_vec reference =
     (case hex_decode_vec reference of
        None \<Rightarrow> Inl NotHex
      | Some bs \<Rightarrow> if length bs = 32 then Inr bs else Inl (BadLength (length bs)))"

section \<open>Inventories\<close>

datatype csv_error = Unreadable | EmptyCsv | NoColumn | NoSeeds | BadSeed string

fun position :: "('a \<Rightarrow> bool) \<Rightarrow> 'a list \<Rightarrow> nat option" where
  "position p [] = None"
| "position p (x # xs) = (if p x then Some 0 else map_option Suc (position p xs))"

definition nth_opt :: "'a list \<Rightarrow> nat \<Rightarrow> 'a option" where
  "nth_opt xs i = (if i < length xs then Some (xs ! i) else None)"

text \<open>The rows that parse, in order, until \<open>full\<close> holds of their number after a push.\<close>

fun collect_rows :: "(string \<Rightarrow> 'a option) \<Rightarrow> (nat \<Rightarrow> bool) \<Rightarrow> string list \<Rightarrow> 'a list \<Rightarrow> 'a list" where
  "collect_rows p full [] out = out"
| "collect_rows p full (l # ls) out =
     (case p l of
        None \<Rightarrow> collect_rows p full ls out
      | Some a \<Rightarrow>
          let out1 = out @ [a] in if full (length out1) then out1 else collect_rows p full ls out1)"

definition cells :: "string \<Rightarrow> string list" where
  "cells line = split_on (CHR '','') line"

definition inventory_rows :: "string option \<Rightarrow> (csv_error, nat \<times> string list) result" where
  "inventory_rows csv =
     (case csv of
        None \<Rightarrow> Inl Unreadable
      | Some content \<Rightarrow>
          (case str_lines content of
             [] \<Rightarrow> Inl EmptyCsv
           | header # ls \<Rightarrow>
               (case position (\<lambda>c. str_trim c = ''address_hex'') (cells header) of
                  None \<Rightarrow> Inl NoColumn
                | Some col \<Rightarrow> Inr (col, ls))))"

definition chunk_cell :: "(nat \<Rightarrow> string \<Rightarrow> bytes option) \<Rightarrow> nat \<Rightarrow> string \<Rightarrow> swarm_address option" where
  "chunk_cell hex_decode col line =
     (case nth_opt (cells line) col of None \<Rightarrow> None | Some cell \<Rightarrow> parse_hex hex_decode 32 cell)"

definition load_chunks :: "(nat \<Rightarrow> string \<Rightarrow> bytes option) \<Rightarrow> nat \<Rightarrow> string option \<Rightarrow> (csv_error, swarm_address list) result" where
  "load_chunks hex_decode limit csv =
     (case inventory_rows csv of
        Inl e \<Rightarrow> Inl e
      | Inr (col, ls) \<Rightarrow> Inr (collect_rows (chunk_cell hex_decode col) (\<lambda>n. 0 < limit \<and> limit \<le> n) ls []))"

definition crawl_load_chunks :: "(nat \<Rightarrow> string \<Rightarrow> bytes option) \<Rightarrow> string option \<Rightarrow> (csv_error, swarm_address list) result" where
  "crawl_load_chunks hex_decode csv =
     (case inventory_rows csv of
        Inl e \<Rightarrow> Inl e
      | Inr (col, ls) \<Rightarrow>
          Inr (read_rows (\<lambda>line. case nth_opt (cells line) col of None \<Rightarrow> None | Some cell \<Rightarrow> hex_decode 32 (str_trim cell)) ls))"

definition stored_cell ::
  "(nat \<Rightarrow> string \<Rightarrow> bytes option) \<Rightarrow> swarm_address \<Rightarrow> nat \<Rightarrow> nat \<Rightarrow> string \<Rightarrow> swarm_address option" where
  "stored_cell hex_decode overlay min_po col line =
     (case chunk_cell hex_decode col line of
        None \<Rightarrow> None
      | Some addr \<Rightarrow> if min_po \<le> proximity addr overlay then Some addr else None)"

definition load_chunk_addresses ::
  "(nat \<Rightarrow> string \<Rightarrow> bytes option) \<Rightarrow> swarm_address \<Rightarrow> nat \<Rightarrow> nat \<Rightarrow> string option \<Rightarrow> (csv_error, swarm_address list) result" where
  "load_chunk_addresses hex_decode overlay min_po max_chunks csv =
     (case inventory_rows csv of
        Inl e \<Rightarrow> Inl e
      | Inr (col, ls) \<Rightarrow> Inr (collect_rows (stored_cell hex_decode overlay min_po col) (\<lambda>n. max_chunks \<le> n) ls []))"

section \<open>Seeds\<close>

definition public_ip4 :: "string \<Rightarrow> bool" where
  "public_ip4 u \<longleftrightarrow> starts_with ''/ip4/'' u \<and> \<not> starts_with ''/ip4/10.'' u \<and> \<not> starts_with ''/ip4/192.168'' u
     \<and> \<not> starts_with ''/ip4/172.'' u \<and> \<not> str_contains ''/ws'' u"

definition seed_dialable :: "(string \<Rightarrow> 'm option) \<Rightarrow> string \<Rightarrow> 'm option" where
  "seed_dialable parse_maddr field = find_map parse_maddr (filter public_ip4 (split_on (CHR ''|'') field))"

fun parse_seeds :: "(string \<Rightarrow> 'm option) \<Rightarrow> string list \<Rightarrow> (csv_error, 'm list) result" where
  "parse_seeds parse_maddr [] = Inr []"
| "parse_seeds parse_maddr (s # ss) =
     (case parse_maddr s of
        None \<Rightarrow> Inl (BadSeed s)
      | Some a \<Rightarrow> (case parse_seeds parse_maddr ss of Inl e \<Rightarrow> Inl e | Inr rest \<Rightarrow> Inr (a # rest)))"

definition seed_row :: "(string \<Rightarrow> 'm option) \<Rightarrow> nat \<Rightarrow> nat option \<Rightarrow> string \<Rightarrow> 'm option" where
  "seed_row parse_maddr ucol okcol line =
     (let cs = cells line in
      if (case okcol of None \<Rightarrow> True | Some i \<Rightarrow> map_option str_trim (nth_opt cs i) = Some ''1'')
      then Option.bind (nth_opt cs ucol) (seed_dialable parse_maddr) else None)"

definition load_seeds ::
  "(string \<Rightarrow> 'm option) \<Rightarrow> string list \<Rightarrow> nat \<Rightarrow> string option \<Rightarrow> (csv_error, 'm list) result" where
  "load_seeds parse_maddr seed seed_count csv =
     (if seed \<noteq> [] then parse_seeds parse_maddr seed
      else case csv of
        None \<Rightarrow> Inl Unreadable
      | Some content \<Rightarrow>
          (case str_lines content of
             [] \<Rightarrow> Inl EmptyCsv
           | header # ls \<Rightarrow>
               let cols = map str_trim (cells header) in
               (case position (\<lambda>c. c = ''underlay'') cols of
                  None \<Rightarrow> Inl NoColumn
                | Some ucol \<Rightarrow>
                    let seeds = collect_rows (seed_row parse_maddr ucol (position (\<lambda>c. c = ''dial_ok'') cols))
                                  (\<lambda>n. seed_count \<le> n) ls []
                    in if seeds = [] then Inl NoSeeds else Inr seeds)))"

section \<open>Topology file\<close>

definition TOPOLOGY_HEADER :: string where
  "TOPOLOGY_HEADER = ''overlay_hex,dialed_ok,rtt_ms,last_seen_ms,underlays''"

definition render_node_row :: "(bytes \<Rightarrow> string) \<Rightarrow> node_record \<Rightarrow> string" where
  "render_node_row hex_encode r =
     join_with (CHR '','')
       [hex_encode (nr_overlay r), if nr_dialed_ok r then ''1'' else ''0'',
        case nr_rtt_ms r of None \<Rightarrow> [] | Some v \<Rightarrow> show_uint v,
        show_uint (nr_last_seen_tick r), join_with (CHR ''|'') (nr_underlays r)]"

definition cache_csv :: "(bytes \<Rightarrow> string) \<Rightarrow> topology_cache \<Rightarrow> string" where
  "cache_csv hex_encode c = unlines (TOPOLOGY_HEADER # map (render_node_row hex_encode) (topology_records c))"

text \<open>The file is created in place, so a failing write leaves a prefix of the text.\<close>

definition write_cache_csv ::
  "io_fault \<Rightarrow> (bytes \<Rightarrow> string) \<Rightarrow> topology_cache \<Rightarrow> string option \<Rightarrow> (io_fault, unit) result \<times> string option" where
  "write_cache_csv fault hex_encode c csv =
     (case fault of
        MkdirFails \<Rightarrow> (Inl fault, csv)
      | CreateFails \<Rightarrow> (Inl fault, csv)
      | WriteFails n \<Rightarrow> (Inl fault, Some (take n (cache_csv hex_encode c)))
      | _ \<Rightarrow> (Inr (), Some (cache_csv hex_encode c)))"

definition parse_node_row :: "(nat \<Rightarrow> string \<Rightarrow> bytes option) \<Rightarrow> string \<Rightarrow> node_record option" where
  "parse_node_row hex_decode line =
     (case cells line of
        ov_hex # dialed # rtt # seen # addrs # _ \<Rightarrow>
          (case parse_hex hex_decode 32 ov_hex of
             None \<Rightarrow> None
           | Some overlay \<Rightarrow>
               Some \<lparr>nr_overlay = overlay, nr_underlays = split_on (CHR ''|'') addrs, nr_rtt_ms = parse_uint rtt,
                     nr_last_seen_tick = (case parse_uint seen of Some t \<Rightarrow> t | None \<Rightarrow> 0), nr_dialed_ok = (dialed = ''1'')\<rparr>)
      | _ \<Rightarrow> None)"

definition load_topology ::
  "(nat \<Rightarrow> string \<Rightarrow> bytes option) \<Rightarrow> swarm_address \<Rightarrow> string option \<Rightarrow> (csv_error, topology_cache) result" where
  "load_topology hex_decode reference csv =
     (case csv of
        None \<Rightarrow> Inl Unreadable
      | Some content \<Rightarrow>
          Inr (fold (\<lambda>line c. case parse_node_row hex_decode line of None \<Rightarrow> c | Some r \<Rightarrow> upsert r c)
                 (tl (str_lines content)) (topology_new reference)))"

section \<open>Report figures\<close>

definition median :: "u64 list \<Rightarrow> u64" where
  "median sorted_ms = (if sorted_ms = [] then 0 else sorted_ms ! (length sorted_ms div 2))"

definition percentile95 :: "u64 list \<Rightarrow> u64" where
  "percentile95 sorted_ms =
     (if sorted_ms = [] then 0 else sorted_ms ! min (length sorted_ms * 95 div 100) (length sorted_ms - 1))"

section \<open>Readers\<close>

lemma collect_rows_take:
  "length out < m \<Longrightarrow> collect_rows p (\<lambda>n. m \<le> n) ls out = out @ take (m - length out) (read_rows p ls)"
proof (induction ls arbitrary: out)
  case (Cons l ls)
  show ?case
  proof (cases "p l")
    case (Some a)
    show ?thesis
    proof (cases "m \<le> Suc (length out)")
      case True
      with Cons.prems have "m - length out = 1" by simp
      with True Some show ?thesis by (simp add: Let_def)
    next
      case False
      then have "m - length out = Suc (m - Suc (length out))" by simp
      with False Some Cons.IH [of "out @ [a]"] show ?thesis by (simp add: Let_def)
    qed
  qed (use Cons in simp)
qed simp

lemma collect_rows_all: "collect_rows p (\<lambda>_. False) ls out = out @ read_rows p ls"
  by (induction ls arbitrary: out) (simp_all add: Let_def split: option.split)

lemma collect_rows_one: "collect_rows p (\<lambda>_. True) ls [] = take 1 (read_rows p ls)"
  by (induction ls) (simp_all add: Let_def split: option.split)

lemma read_rows_filter:
  "read_rows (\<lambda>l. case p l of None \<Rightarrow> None | Some a \<Rightarrow> if q a then Some a else None) ls = filter q (read_rows p ls)"
  by (induction ls) (simp_all split: option.split)

lemma set_read_rows: "set (read_rows p ls) = {a. \<exists>l \<in> set ls. p l = Some a}"
  by (induction ls) (auto split: option.splits)

lemma trim_start_no_match: "strip_prefix p s = None \<Longrightarrow> trim_start_matches p s = s"
  by (subst trim_start_matches.simps) simp

lemma str_trim_id: "list_all (\<lambda>c. \<not> ascii_space c) s \<Longrightarrow> str_trim s = s"
proof -
  assume s: "list_all (\<lambda>c. \<not> ascii_space c) s"
  have "dropWhile ascii_space t = t" if "set t \<subseteq> set s" for t
    using that s by (cases t) (auto simp: list_all_iff)
  then show ?thesis by (simp add: str_trim_def)
qed

lemma hex_not_space: "hex_char c \<Longrightarrow> \<not> ascii_space c"
  by (auto simp: hex_char_def to_digit_def ascii_space_def)

lemma hex_no_prefix:
  assumes "\<forall>c \<in> set s. hex_char c" "\<not> hex_char x"
  shows "strip_prefix [z, x] s = None"
proof (cases s)
  case (Cons a as)
  with assms show ?thesis by (cases as) auto
qed simp

text \<open>
  A node record whose row can be read back: a 32-byte overlay and at least one address, none of them
  with a separator of the file in its text.
\<close>

definition field_ok :: "string \<Rightarrow> bool" where
  "field_ok u \<longleftrightarrow> list_all (\<lambda>c. c \<notin> {NL, CR, CHR '','', CHR ''|''}) u"

definition row_ok :: "node_record \<Rightarrow> bool" where
  "row_ok r \<longleftrightarrow> wf_addr (nr_overlay r) \<and> nr_underlays r \<noteq> [] \<and> list_all field_ok (nr_underlays r)"

lemma join_with_chars: "set (join_with c ps) \<subseteq> insert c (\<Union> (set ` set ps))"
  by (induction c ps rule: join_with.induct) auto

lemma underlays_field:
  assumes "row_ok r"
  shows "NL \<notin> set (join_with (CHR ''|'') (nr_underlays r))" "CR \<notin> set (join_with (CHR ''|'') (nr_underlays r))"
    "CHR '','' \<notin> set (join_with (CHR ''|'') (nr_underlays r))"
    "split_on (CHR ''|'') (join_with (CHR ''|'') (nr_underlays r)) = nr_underlays r"
proof -
  have ok: "\<And>u. u \<in> set (nr_underlays r) \<Longrightarrow> field_ok u" "nr_underlays r \<noteq> []"
    using assms by (auto simp: row_ok_def list_all_iff)
  have sep: "NL \<noteq> CHR ''|''" "CR \<noteq> CHR ''|''" "CHR '','' \<noteq> CHR ''|''" by (simp_all add: NL_def CR_def)
  have *: "c \<notin> set (join_with (CHR ''|'') (nr_underlays r))" if "c \<in> {NL, CR, CHR '',''}" for c
  proof -
    have "c \<noteq> CHR ''|''" using that sep by auto
    moreover have "c \<notin> \<Union> (set ` set (nr_underlays r))" using that ok by (auto simp: field_ok_def list_all_iff)
    ultimately show ?thesis using join_with_chars [of "CHR ''|''" "nr_underlays r"] by blast
  qed
  show "NL \<notin> set (join_with (CHR ''|'') (nr_underlays r))" "CR \<notin> set (join_with (CHR ''|'') (nr_underlays r))"
    "CHR '','' \<notin> set (join_with (CHR ''|'') (nr_underlays r))" by (rule *, simp)+
  show "split_on (CHR ''|'') (join_with (CHR ''|'') (nr_underlays r)) = nr_underlays r"
    using ok by (intro split_on_join) (auto simp: field_ok_def list_all_iff)
qed

lemma rtt_field:
  "NL \<notin> set (case rtt of None \<Rightarrow> [] | Some v \<Rightarrow> show_uint (v :: u32))" "CR \<notin> set (case rtt of None \<Rightarrow> [] | Some v \<Rightarrow> show_uint v)"
  "CHR '','' \<notin> set (case rtt of None \<Rightarrow> [] | Some v \<Rightarrow> show_uint v)" "parse_uint (case rtt of None \<Rightarrow> [] | Some v \<Rightarrow> show_uint v) = rtt"
  by (cases rtt; simp)+

context hex_codec
begin

lemma parse_hex_encode: "length bs = n \<Longrightarrow> parse_hex hex_decode n (hex_encode bs) = Some bs"
proof -
  have chars: "\<forall>c \<in> set (hex_encode bs). hex_char c" using encode_chars by blast
  have "str_trim (hex_encode bs) = hex_encode bs"
    using chars hex_not_space by (intro str_trim_id) (auto simp: list_all_iff)
  moreover have "strip_prefix ''0x'' (hex_encode bs) = None" "strip_prefix ''0X'' (hex_encode bs) = None"
    by (rule hex_no_prefix [OF chars], simp add: hex_char_def to_digit_def)+
  moreover assume "length bs = n"
  ultimately show ?thesis using decode_encode [of bs] by (simp add: parse_hex_def trim_start_no_match)
qed

end

sublocale hex_codec \<subseteq> node_rows: row_format row_ok "render_node_row hex_encode" "parse_node_row hex_decode"
proof
  fix r
  assume ok: "row_ok r"
  have other: "NL \<noteq> CHR '',''" "CR \<noteq> CHR '',''" "NL \<noteq> CHR ''1''" "CR \<noteq> CHR ''1''" "NL \<noteq> CHR ''0''" "CR \<noteq> CHR ''0''"
    by (simp_all add: NL_def CR_def)
  show "NL \<notin> set (render_node_row hex_encode r)" "CR \<notin> set (render_node_row hex_encode r)"
    using underlays_field [OF ok] encode_no_sep [of "nr_overlay r"] rtt_field [of "nr_rtt_ms r"] other
    by (simp_all add: render_node_row_def)
  have "cells (render_node_row hex_encode r) =
      [hex_encode (nr_overlay r), if nr_dialed_ok r then ''1'' else ''0'', case nr_rtt_ms r of None \<Rightarrow> [] | Some v \<Rightarrow> show_uint v,
        show_uint (nr_last_seen_tick r), join_with (CHR ''|'') (nr_underlays r)]"
    using underlays_field [OF ok] encode_no_sep [of "nr_overlay r"] rtt_field [of "nr_rtt_ms r"]
    unfolding cells_def render_node_row_def by (intro split_on_join) (auto split: if_splits)
  moreover have "parse_hex hex_decode 32 (hex_encode (nr_overlay r)) = Some (nr_overlay r)"
    using ok by (intro parse_hex_encode) (simp add: row_ok_def wf_addr_def)
  ultimately show "parse_node_row hex_decode (render_node_row hex_encode r) = Some r"
    using underlays_field(4) [OF ok] rtt_field(4) [of "nr_rtt_ms r"] by (simp add: parse_node_row_def)
qed

lemma TOPOLOGY_HEADER_line: "NL \<notin> set TOPOLOGY_HEADER \<and> CR \<notin> set TOPOLOGY_HEADER"
  by (simp add: TOPOLOGY_HEADER_def NL_def CR_def)

lemma fold_rows:
  "fold (\<lambda>l c. case p l of None \<Rightarrow> c | Some r \<Rightarrow> upsert r c) ls c = fold upsert (read_rows p ls) c"
  by (induction ls arbitrary: c) (simp_all split: option.split)

lemma records_of_overlay:
  assumes "topology_inv c"
  shows "filter (\<lambda>r. nr_overlay r = k) (topology_records c) = (case topology_get c k of None \<Rightarrow> [] | Some r \<Rightarrow> [r])"
proof -
  have "filter (\<lambda>r. nr_overlay r = k) (hm_values m) = (case hm_get m k of None \<Rightarrow> [] | Some r \<Rightarrow> [r])"
    if "hm_wf m" "\<forall>(k, r) \<in> set m. nr_overlay r = k" for m :: "(swarm_address, node_record) hash_map"
    using that
  proof (induction m)
    case (Cons kr m)
    have "filter (\<lambda>r. nr_overlay r = fst kr) (hm_values m) = []"
      using Cons.prems by (force simp: hm_wf_def filter_empty_conv)
    with Cons show ?case by (cases kr) (auto simp: hm_wf_def)
  qed simp
  then show ?thesis
    using assms by (auto simp: topology_inv_def topology_records_def topology_get_def)
qed

lemma fold_records:
  assumes "topology_inv c"
  shows "topology_get (fold upsert (topology_records c) (topology_new ref)) = topology_get c"
proof
  fix k
  show "topology_get (fold upsert (topology_records c) (topology_new ref)) k = topology_get c k"
    using records_of_overlay [OF assms, of k] get_fold_upsert [of "topology_records c" "topology_new ref" k]
    by (simp add: topology_new_def topology_get_def split: option.splits)
qed

lemma fold_upsert_reference: "tc_reference (fold upsert rs c) = tc_reference c"
  by (induction rs arbitrary: c) simp_all

context hex_codec
begin

lemma load_rows:
  assumes "list_all row_ok rs"
  shows "load_topology hex_decode ref (Some (unlines (TOPOLOGY_HEADER # map (render_node_row hex_encode) rs)))
    = Inr (fold upsert rs (topology_new ref))"
proof -
  have "str_lines (unlines (TOPOLOGY_HEADER # map (render_node_row hex_encode) rs)) = TOPOLOGY_HEADER # map (render_node_row hex_encode) rs"
    using node_rows.file_lines [of "[TOPOLOGY_HEADER]" rs] assms TOPOLOGY_HEADER_line by simp
  then show ?thesis
    using node_rows.read_back [OF assms] by (simp add: load_topology_def fold_rows)
qed

end

section \<open>Properties\<close>

text \<open>
  Topology round trip: a cache that the crawl command writes is read back by the fetch command
  with the same record for every overlay, provided every record has an address and no address
  holds a separator of the file.
\<close>
lemma topology_csv_roundtrip:
  assumes "hex_codec hex_encode hex_decode" "topology_inv c" "list_all row_ok (topology_records c)"
    and "write_cache_csv NoFault hex_encode c old = (r, csv)"
  shows "r = Inr () \<and> (\<exists>c'. load_topology hex_decode ref csv = Inr c' \<and> topology_inv c' \<and> tc_reference c' = ref
    \<and> topology_get c' = topology_get c)"
proof -
  have csv: "csv = Some (cache_csv hex_encode c)" "r = Inr ()" using assms(4) by (auto simp: write_cache_csv_def)
  have "list_all (\<lambda>r. wf_addr (nr_overlay r)) (topology_records c)" using assms(3) by (auto simp: list_all_iff row_ok_def)
  then show ?thesis
    using hex_codec.load_rows [OF assms(1,3)] fold_records [OF assms(2)] fold_upsert_inv [OF topology_inv_new] csv
    by (simp add: cache_csv_def fold_upsert_reference) (simp add: topology_new_def)
qed

text \<open>
  The probe commands take the first chunks of the inventory, in file order, that the storer's
  neighborhood holds: as many as asked for, but one also when none is asked for.
\<close>
lemma load_chunk_addresses_correct:
  assumes "inventory_rows csv = Inr (col, ls)"
  shows "load_chunk_addresses hdec overlay min_po n csv
    = Inr (take (max 1 n) (filter (\<lambda>a. min_po \<le> proximity a overlay) (read_rows (chunk_cell hdec col) ls)))"
proof -
  have "read_rows (stored_cell hdec overlay min_po col) ls
      = filter (\<lambda>a. min_po \<le> proximity a overlay) (read_rows (chunk_cell hdec col) ls)"
    using read_rows_filter [where p = "chunk_cell hdec col" and q = "\<lambda>a. min_po \<le> proximity a overlay"] by (simp add: stored_cell_def [abs_def])
  moreover have "collect_rows p (\<lambda>k. n \<le> k) ls [] = take (max 1 n) (read_rows p ls)" for p :: "string \<Rightarrow> swarm_address option"
    using collect_rows_take [of "[]" n p ls] collect_rows_one [of p ls] by (cases n) simp_all
  ultimately show ?thesis using assms by (simp add: load_chunk_addresses_def)
qed

text \<open>The fetch command takes the first \<open>limit\<close> addresses of the inventory, and all of them for the limit 0.\<close>
lemma load_chunks_correct:
  assumes "inventory_rows csv = Inr (col, ls)"
  shows "load_chunks hdec limit csv
    = Inr (let all = read_rows (chunk_cell hdec col) ls in if limit = 0 then all else take limit all)"
  using assms collect_rows_take [of "[]" limit] by (auto simp: load_chunks_def collect_rows_all Let_def)

text \<open>
  An address whose text holds a line break adds a row of its own to the topology file: the reader
  takes it for a node that was dialed, though no such node was ever seen.
\<close>
lemma newline_adds_node:
  assumes "hex_codec he hdec" "wf_addr a" "wf_addr b" "a \<noteq> b"
    and "c = upsert \<lparr>nr_overlay = a, nr_underlays = [''x'' @ [NL] @ he b @ '',1,,0,y''], nr_rtt_ms = None,
               nr_last_seen_tick = 0, nr_dialed_ok = False\<rparr> (topology_new ref)"
  shows "topology_get c b = None \<and> (\<exists>c'. load_topology hdec ref (Some (cache_csv he c)) = Inr c'
    \<and> topology_get c' b = Some \<lparr>nr_overlay = b, nr_underlays = [''y''], nr_rtt_ms = None, nr_last_seen_tick = 0, nr_dialed_ok = True\<rparr>)"
proof -
  let ?rx = "\<lparr>nr_overlay = a, nr_underlays = [''x''], nr_rtt_ms = None, nr_last_seen_tick = 0, nr_dialed_ok = False\<rparr>"
  let ?ry = "\<lparr>nr_overlay = b, nr_underlays = [''y''], nr_rtt_ms = None, nr_last_seen_tick = 0, nr_dialed_ok = True\<rparr>"
  have zero: "show_uint (0 :: u64) = ''0''" by code_simp
  have ok: "row_ok ?rx" "row_ok ?ry" using assms(2,3) by (simp_all add: row_ok_def field_ok_def NL_def CR_def)
  have "cache_csv he c = unlines (TOPOLOGY_HEADER # map (render_node_row he) [?rx, ?ry])"
    by (simp add: cache_csv_def assms(5) topology_records_def upsert_def topology_new_def hm_insert_def render_node_row_def unlines_def zero)
  then have "load_topology hdec ref (Some (cache_csv he c)) = Inr (fold upsert [?rx, ?ry] (topology_new ref))"
    using hex_codec.load_rows [OF assms(1), of "[?rx, ?ry]"] ok by simp
  then show ?thesis
    using assms(4,5) by (simp add: topology_get_upsert) (simp add: topology_get_def topology_new_def)
qed

text \<open>On a sorted list of latencies the 95th percentile is one of them and no less than the median.\<close>
lemma percentile95_median:
  assumes "sorted ms" "ms \<noteq> []"
  shows "median ms \<le> percentile95 ms \<and> median ms \<in> set ms \<and> percentile95 ms \<in> set ms"
proof -
  have "length ms div 2 \<le> min (length ms * 95 div 100) (length ms - 1)" "min (length ms * 95 div 100) (length ms - 1) < length ms"
    using length_greater_0_conv [of ms] assms(2) by linarith+
  then show ?thesis using assms by (auto simp: median_def percentile95_def intro!: sorted_nth_mono nth_mem)
qed

end
