(* ===== verification/Identity_Keys.thy ===== *)
theory Identity_Keys
  imports Inventory
begin

text \<open>
  The settlement identity: decryption of the version-3 keystore (\<^verbatim>\<open>rust/ds-net/src/keystore.rs\<close>),
  loading of the identity with its persisted overlay nonce (\<^verbatim>\<open>rust/ds-net/src/identity.rs\<close>), and
  the deposit into the chequebook (\<^verbatim>\<open>rust/ds-net/src/fund.rs\<close>). Key derivation, hashes, ciphers,
  curve arithmetic, the JSON reader and the chain client are libraries outside the sources: they
  are the parameters \<open>crypto_lib\<close>, \<open>key_lib\<close> and \<open>chain_env\<close>.
\<close>

section \<open>Keystore\<close>

text \<open>A numeric parameter is present when the JSON value is an unsigned integer, a textual one when it is a string.\<close>

record kdf_params =
  kp_dklen :: "u64 option"
  kp_salt :: "string option"
  kp_n :: "u64 option"
  kp_r :: "u64 option"
  kp_p :: "u64 option"
  kp_c :: "u64 option"
  kp_prf :: "string option"

record keystore =
  ks_version :: u32
  ks_cipher :: string
  ks_iv :: string
  ks_ciphertext :: string
  ks_kdf :: string
  ks_kdfparams :: kdf_params
  ks_mac :: string

datatype keystore_error =
  BadJson | BadVersion u32 | BadCipher string | BadHex | BadIv nat | DerivedTooShort nat | MacMismatch | CipherInit
| BadSecret nat | DklenTooSmall nat | SaltMissing | ParamMissing string | ParamRange string | NotPowerOfTwo u64
| ScryptFails | BadPrf string | BadKdf string

record crypto_lib =
  cl_parse :: "string \<Rightarrow> keystore option"
  cl_hex :: "string \<Rightarrow> bytes option"
  cl_scrypt :: "nat \<Rightarrow> u32 \<Rightarrow> u32 \<Rightarrow> nat \<Rightarrow> bytes \<Rightarrow> bytes \<Rightarrow> bytes option"
  cl_pbkdf2 :: "u32 \<Rightarrow> nat \<Rightarrow> bytes \<Rightarrow> bytes \<Rightarrow> bytes"
  cl_keccak256 :: "bytes \<Rightarrow> bytes"
  cl_aes_ctr :: "bytes \<Rightarrow> bytes \<Rightarrow> bytes \<Rightarrow> bytes option"

definition eq_ignore_case :: "string \<Rightarrow> string \<Rightarrow> bool" where
  "eq_ignore_case a b \<longleftrightarrow> map ascii_lower a = map ascii_lower b"

definition decode_hex :: "crypto_lib \<Rightarrow> string \<Rightarrow> (keystore_error, bytes) result" where
  "decode_hex L s =
     (let digits = (case strip_prefix ''0x'' s of
                      Some r \<Rightarrow> r
                    | None \<Rightarrow> (case strip_prefix ''0X'' s of Some r \<Rightarrow> r | None \<Rightarrow> s))
      in case cl_hex L digits of None \<Rightarrow> Inl BadHex | Some bs \<Rightarrow> Inr bs)"

definition u64_param :: "string \<Rightarrow> u64 option \<Rightarrow> (keystore_error, u64) result" where
  "u64_param key v = (case v of None \<Rightarrow> Inl (ParamMissing key) | Some n \<Rightarrow> Inr n)"

definition u32_param :: "string \<Rightarrow> u64 option \<Rightarrow> (keystore_error, u32) result" where
  "u32_param key v =
     (case u64_param key v of
        Inl e \<Rightarrow> Inl e
      | Inr n \<Rightarrow> (case try_word (unat n) of None \<Rightarrow> Inl (ParamRange key) | Some w \<Rightarrow> Inr w))"

text \<open>\<open>is_power_of_two\<close> with \<open>trailing_zeros\<close>: the exponent of a power of two.\<close>

definition power_of_two :: "u64 \<Rightarrow> nat option" where
  "power_of_two n = find (\<lambda>k. n = 2 ^ k) [0..<64]"

definition derive_scrypt :: "crypto_lib \<Rightarrow> kdf_params \<Rightarrow> nat \<Rightarrow> bytes \<Rightarrow> bytes \<Rightarrow> (keystore_error, bytes) result" where
  "derive_scrypt L params dklen password salt =
     (case u64_param ''n'' (kp_n params) of
        Inl e \<Rightarrow> Inl e
      | Inr n \<Rightarrow>
          (case u32_param ''r'' (kp_r params) of
             Inl e \<Rightarrow> Inl e
           | Inr r \<Rightarrow>
               (case u32_param ''p'' (kp_p params) of
                  Inl e \<Rightarrow> Inl e
                | Inr p \<Rightarrow>
                    (case power_of_two n of
                       None \<Rightarrow> Inl (NotPowerOfTwo n)
                     | Some log_n \<Rightarrow>
                         (case cl_scrypt L log_n r p dklen password salt of None \<Rightarrow> Inl ScryptFails | Some out \<Rightarrow> Inr out)))))"

definition derive_pbkdf2 :: "crypto_lib \<Rightarrow> kdf_params \<Rightarrow> nat \<Rightarrow> bytes \<Rightarrow> bytes \<Rightarrow> (keystore_error, bytes) result" where
  "derive_pbkdf2 L params dklen password salt =
     (let prf = (case kp_prf params of Some s \<Rightarrow> s | None \<Rightarrow> ''hmac-sha256'') in
      if \<not> eq_ignore_case prf ''hmac-sha256'' then Inl (BadPrf prf)
      else case u32_param ''c'' (kp_c params) of
        Inl e \<Rightarrow> Inl e
      | Inr c \<Rightarrow> Inr (cl_pbkdf2 L c dklen password salt))"

definition derive_key :: "crypto_lib \<Rightarrow> string \<Rightarrow> kdf_params \<Rightarrow> bytes \<Rightarrow> (keystore_error, bytes) result" where
  "derive_key L kdf params password =
     (let dklen = (case kp_dklen params of Some n \<Rightarrow> unat n | None \<Rightarrow> 32) in
      if dklen < 32 then Inl (DklenTooSmall dklen)
      else case kp_salt params of
        None \<Rightarrow> Inl SaltMissing
      | Some s \<Rightarrow>
          (case decode_hex L s of
             Inl e \<Rightarrow> Inl e
           | Inr salt \<Rightarrow>
               if map ascii_lower kdf = ''scrypt'' then derive_scrypt L params dklen password salt
               else if map ascii_lower kdf = ''pbkdf2'' then derive_pbkdf2 L params dklen password salt
               else Inl (BadKdf kdf)))"

definition check_mac :: "crypto_lib \<Rightarrow> bytes \<Rightarrow> bytes \<Rightarrow> string \<Rightarrow> (keystore_error, unit) result" where
  "check_mac L derived ciphertext mac =
     (case decode_hex L mac of
        Inl e \<Rightarrow> Inl e
      | Inr want \<Rightarrow>
          if cl_keccak256 L (take 16 (drop 16 derived) @ ciphertext) = want then Inr () else Inl MacMismatch)"

definition decrypt_v3 :: "crypto_lib \<Rightarrow> string \<Rightarrow> bytes \<Rightarrow> (keystore_error, bytes) result" where
  "decrypt_v3 L json password =
     (case cl_parse L json of
        None \<Rightarrow> Inl BadJson
      | Some ks \<Rightarrow>
          if ks_version ks \<noteq> 3 then Inl (BadVersion (ks_version ks))
          else if \<not> eq_ignore_case (ks_cipher ks) ''aes-128-ctr'' then Inl (BadCipher (ks_cipher ks))
          else case decode_hex L (ks_ciphertext ks) of
            Inl e \<Rightarrow> Inl e
          | Inr ciphertext \<Rightarrow>
              (case decode_hex L (ks_iv ks) of
                 Inl e \<Rightarrow> Inl e
               | Inr iv \<Rightarrow>
                   if length iv \<noteq> 16 then Inl (BadIv (length iv))
                   else case derive_key L (ks_kdf ks) (ks_kdfparams ks) password of
                     Inl e \<Rightarrow> Inl e
                   | Inr derived \<Rightarrow>
                       if length derived < 32 then Inl (DerivedTooShort (length derived))
                       else case check_mac L derived ciphertext (ks_mac ks) of
                         Inl e \<Rightarrow> Inl e
                       | Inr _ \<Rightarrow>
                           (case cl_aes_ctr L (take 16 derived) iv ciphertext of
                              None \<Rightarrow> Inl CipherInit
                            | Some buf \<Rightarrow> if length buf \<noteq> 32 then Inl (BadSecret (length buf)) else Inr buf)))"

section \<open>Identity\<close>

record identity =
  id_secret :: bytes
  id_eth :: bytes
  id_nonce :: bytes
  id_overlay :: swarm_address

datatype identity_error =
  KeyUnreadable | KeyError keystore_error | NonceParse | NoRandomness | NonceDir | NonceWrite | BadScalar | BadLibp2pKey

record key_lib =
  kl_address :: "bytes \<Rightarrow> bytes option"
  kl_overlay :: "bytes \<Rightarrow> u64 \<Rightarrow> bytes \<Rightarrow> swarm_address"
  kl_libp2p :: "bytes \<Rightarrow> bool"

text \<open>
  The environment of one load: whether the random source, the directory and the write work. A
  failing write may leave part of the text.
\<close>

record nonce_env =
  ne_fresh :: "bytes option"
  ne_mkdir :: bool
  ne_write :: "nat option"

definition load_nonce ::
  "(bytes \<Rightarrow> string) \<Rightarrow> (nat \<Rightarrow> string \<Rightarrow> bytes option) \<Rightarrow> nonce_env \<Rightarrow> string option \<Rightarrow> (identity_error, bytes) result \<times> string option" where
  "load_nonce hex_encode hex_decode env nonce_file =
     (case nonce_file of
        Some content \<Rightarrow>
          (case hex_decode 32 (str_trim content) of
             None \<Rightarrow> (Inl NonceParse, nonce_file)
           | Some nonce \<Rightarrow> (Inr nonce, nonce_file))
      | None \<Rightarrow>
          (case ne_fresh env of
             None \<Rightarrow> (Inl NoRandomness, None)
           | Some nonce \<Rightarrow>
               if \<not> ne_mkdir env then (Inl NonceDir, None)
               else case ne_write env of
                 Some n \<Rightarrow> (Inl NonceWrite, Some (take n (hex_encode nonce)))
               | None \<Rightarrow> (Inr nonce, Some (hex_encode nonce))))"

definition identity_load ::
  "crypto_lib \<Rightarrow> key_lib \<Rightarrow> (bytes \<Rightarrow> string) \<Rightarrow> (nat \<Rightarrow> string \<Rightarrow> bytes option) \<Rightarrow> nonce_env \<Rightarrow>
   string option \<Rightarrow> bytes \<Rightarrow> u64 \<Rightarrow> string option \<Rightarrow> (identity_error, identity) result \<times> string option" where
  "identity_load L K hex_encode hex_decode env key_file password network_id nonce_file =
     (case key_file of
        None \<Rightarrow> (Inl KeyUnreadable, nonce_file)
      | Some json \<Rightarrow>
          (case decrypt_v3 L json password of
             Inl e \<Rightarrow> (Inl (KeyError e), nonce_file)
           | Inr secret \<Rightarrow>
               (case load_nonce hex_encode hex_decode env nonce_file of
                  (Inl e, f) \<Rightarrow> (Inl e, f)
                | (Inr nonce, f) \<Rightarrow>
                    (case kl_address K secret of
                       None \<Rightarrow> (Inl BadScalar, f)
                     | Some eth \<Rightarrow>
                         if \<not> kl_libp2p K secret then (Inl BadLibp2pKey, f)
                         else (Inr \<lparr>id_secret = secret, id_eth = eth, id_nonce = nonce,
                                    id_overlay = kl_overlay K eth network_id nonce\<rparr>, f)))))"

section \<open>Chequebook deposit\<close>

record fund_outcome =
  fu_tx_hash :: bytes
  fu_block_number :: u64
  fu_wallet_before :: u128
  fu_wallet_after :: u128
  fu_book_before :: u128
  fu_book_after :: u128

datatype fund_error =
  WalletRead | BookRead | Insufficient u128 u128 | NonceRead | SignFails | SendFails | ReceiptMissing bytes

record legacy_tx =
  tx_nonce :: u64
  tx_data :: bytes

record chain_env =
  ce_wallet_before :: "u128 option"
  ce_book_before :: "u128 option"
  ce_nonce :: "u64 option"
  ce_calldata :: "bytes \<Rightarrow> U256 \<Rightarrow> bytes"
  ce_sign :: "legacy_tx \<Rightarrow> (bytes \<times> bytes) option"
  ce_send :: "bytes \<Rightarrow> bool"
  ce_receipt :: "bytes \<Rightarrow> u64 option"
  ce_wallet_after :: "u128 option"
  ce_book_after :: "u128 option"

text \<open>The result, with the raw transactions handed to the chain client.\<close>

definition fund_chequebook :: "chain_env \<Rightarrow> bytes \<Rightarrow> u128 \<Rightarrow> (fund_error, fund_outcome) result \<times> bytes list" where
  "fund_chequebook env chequebook amount =
     (case ce_wallet_before env of
        None \<Rightarrow> (Inl WalletRead, [])
      | Some wallet_before \<Rightarrow>
          (case ce_book_before env of
             None \<Rightarrow> (Inl BookRead, [])
           | Some book_before \<Rightarrow>
               if wallet_before < amount then (Inl (Insufficient wallet_before amount), [])
               else case ce_nonce env of
                 None \<Rightarrow> (Inl NonceRead, [])
               | Some nonce \<Rightarrow>
                   (case ce_sign env \<lparr>tx_nonce = nonce, tx_data = ce_calldata env chequebook (ucast amount)\<rparr> of
                      None \<Rightarrow> (Inl SignFails, [])
                    | Some (raw, tx_hash) \<Rightarrow>
                        if \<not> ce_send env raw then (Inl SendFails, [raw])
                        else case ce_receipt env tx_hash of
                          None \<Rightarrow> (Inl (ReceiptMissing tx_hash), [raw])
                        | Some block \<Rightarrow>
                            (Inr \<lparr>fu_tx_hash = tx_hash, fu_block_number = block, fu_wallet_before = wallet_before,
                               fu_wallet_after = (case ce_wallet_after env of Some w \<Rightarrow> w | None \<Rightarrow> wallet_before),
                               fu_book_before = book_before,
                               fu_book_after = (case ce_book_after env of Some b \<Rightarrow> b | None \<Rightarrow> book_before)\<rparr>, [raw]))))"

section \<open>Opening a keystore\<close>

text \<open>
  A keystore that seals \<open>secret\<close> under \<open>password\<close>: the password derives a key, the ciphertext is
  the secret under its first half, and the MAC covers the ciphertext under its second half.
\<close>

definition seals :: "crypto_lib \<Rightarrow> keystore \<Rightarrow> bytes \<Rightarrow> bytes \<Rightarrow> bool" where
  "seals L ks password secret \<longleftrightarrow>
     ks_version ks = 3 \<and> eq_ignore_case (ks_cipher ks) ''aes-128-ctr'' \<and> length secret = 32
     \<and> (\<exists>dk iv ct. derive_key L (ks_kdf ks) (ks_kdfparams ks) password = Inr dk \<and> 32 \<le> length dk
          \<and> decode_hex L (ks_iv ks) = Inr iv \<and> length iv = 16 \<and> decode_hex L (ks_ciphertext ks) = Inr ct
          \<and> cl_aes_ctr L (take 16 dk) iv secret = Some ct
          \<and> decode_hex L (ks_mac ks) = Inr (cl_keccak256 L (take 16 (drop 16 dk) @ ct)))"

text \<open>Counter mode adds the same key stream both ways.\<close>

definition involutive :: "crypto_lib \<Rightarrow> bool" where
  "involutive L \<longleftrightarrow> (\<forall>k iv m c. cl_aes_ctr L k iv m = Some c \<longrightarrow> cl_aes_ctr L k iv c = Some m)"

lemma decrypt_sealed:
  assumes "involutive L" "cl_parse L json = Some ks" "seals L ks pw secret"
  shows "decrypt_v3 L json pw = Inr secret"
proof -
  obtain dk iv ct where s: "derive_key L (ks_kdf ks) (ks_kdfparams ks) pw = Inr dk" "32 \<le> length dk"
      "decode_hex L (ks_iv ks) = Inr iv" "length iv = 16" "decode_hex L (ks_ciphertext ks) = Inr ct"
      "cl_aes_ctr L (take 16 dk) iv secret = Some ct"
      "decode_hex L (ks_mac ks) = Inr (cl_keccak256 L (take 16 (drop 16 dk) @ ct))"
    and k: "ks_version ks = 3" "eq_ignore_case (ks_cipher ks) ''aes-128-ctr''" "length secret = 32"
    using assms(3) by (auto simp: seals_def)
  have "cl_aes_ctr L (take 16 dk) iv ct = Some secret" using assms(1) s(6) unfolding involutive_def by blast
  with s(1-5,7) k show ?thesis using assms(2) by (simp add: decrypt_v3_def check_mac_def)
qed

lemma load_nonce_again:
  assumes "hex_codec he hdec" "load_nonce he hdec env f = (Inr nonce, f1)" "\<And>n. ne_fresh env = Some n \<Longrightarrow> length n = 32"
  shows "load_nonce he hdec env2 f1 = (Inr nonce, f1) \<and> length nonce = 32"
proof (cases f)
  case None
  then have n: "ne_fresh env = Some nonce" "f1 = Some (he nonce)"
    using assms(2) by (auto simp: load_nonce_def split: option.splits if_splits)
  have "str_trim (he nonce) = he nonce"
    using hex_codec.encode_chars [OF assms(1)] hex_not_space by (intro str_trim_id) (auto simp: list_all_iff)
  then show ?thesis using n assms(3) hex_codec.decode_encode [OF assms(1), of nonce] by (simp add: load_nonce_def)
next
  case (Some content)
  then show ?thesis
    using assms(2) hex_codec.decode_length [OF assms(1)] by (auto simp: load_nonce_def split: option.splits)
qed

section \<open>Properties\<close>

text \<open>
  C38 A keystore opens with its password and with no other: the sealed secret comes back under the
  password it was sealed with, and a password whose derived key gives another MAC is refused with
  the MAC error, before anything is decrypted.
\<close>
theorem keystore_opens_with_password:
  assumes "involutive L" "cl_parse L json = Some ks" "seals L ks password secret"
  shows "decrypt_v3 L json password = Inr secret
    \<and> (\<forall>dk ct. derive_key L (ks_kdf ks) (ks_kdfparams ks) other = Inr dk \<and> 32 \<le> length dk
          \<and> decode_hex L (ks_ciphertext ks) = Inr ct \<and> decode_hex L (ks_mac ks) \<noteq> Inr (cl_keccak256 L (take 16 (drop 16 dk) @ ct))
        \<longrightarrow> decrypt_v3 L json other = Inl MacMismatch)"
proof -
  have "decrypt_v3 L json other = Inl MacMismatch"
    if "derive_key L (ks_kdf ks) (ks_kdfparams ks) other = Inr dk" "32 \<le> length dk" "decode_hex L (ks_ciphertext ks) = Inr ct"
      "decode_hex L (ks_mac ks) \<noteq> Inr (cl_keccak256 L (take 16 (drop 16 dk) @ ct))" for dk ct
    using that assms(2,3) by (auto simp: decrypt_v3_def check_mac_def seals_def)
  then show ?thesis using decrypt_sealed [OF assms] by blast
qed

definition sample_lib :: crypto_lib where
  "sample_lib = \<lparr>cl_parse = (\<lambda>_. Some \<lparr>ks_version = 3, ks_cipher = ''aes-128-ctr'', ks_iv = ''iv'', ks_ciphertext = ''ct'',
       ks_kdf = ''pbkdf2'', ks_kdfparams = \<lparr>kp_dklen = None, kp_salt = Some ''0xsalt'', kp_n = None, kp_r = None, kp_p = None,
         kp_c = Some 1, kp_prf = None\<rparr>, ks_mac = ''mac''\<rparr>),
     cl_hex = (\<lambda>s. if s = ''iv'' then Some (replicate 16 0) else if s = ''ct'' then Some (replicate 32 5)
       else if s = ''mac'' then Some [7] else if s = ''salt'' then Some [1] else None),
     cl_scrypt = (\<lambda>_ _ _ _ _ _. None), cl_pbkdf2 = (\<lambda>_ n pw _. replicate n (hd pw)),
     cl_keccak256 = (\<lambda>bs. [hd bs]), cl_aes_ctr = (\<lambda>k iv m. Some m)\<rparr>"

theorem keystore_opens_with_password_witness:
  "decrypt_v3 sample_lib [] [7] = Inr (replicate 32 5) \<and> decrypt_v3 sample_lib [] [8] = Inl MacMismatch"
proof -
  obtain ks where ks: "cl_parse sample_lib [] = Some ks" by (simp add: sample_lib_def)
  have d: "derive_key sample_lib (ks_kdf ks) (ks_kdfparams ks) [b] = Inr (replicate 32 b)" for b
    using ks by (auto simp: sample_lib_def derive_key_def derive_pbkdf2_def decode_hex_def eq_ignore_case_def ascii_lower_def
        u32_param_def u64_param_def try_word_def)
  have hex: "decode_hex sample_lib (ks_ciphertext ks) = Inr (replicate 32 5)" "decode_hex sample_lib (ks_iv ks) = Inr (replicate 16 0)"
      "decode_hex sample_lib (ks_mac ks) = Inr [7]"
    using ks by (auto simp: sample_lib_def decode_hex_def)
  have "seals sample_lib ks [7] (replicate 32 5)"
    using ks d hex by (auto simp: seals_def sample_lib_def eq_ignore_case_def ascii_lower_def)
  moreover have "involutive sample_lib" by (simp add: involutive_def sample_lib_def)
  moreover have "cl_keccak256 sample_lib (take 16 (drop 16 (replicate 32 8)) @ replicate 32 5) = [8]" by (simp add: sample_lib_def)
  ultimately show ?thesis
    using keystore_opens_with_password [of sample_lib "[]" ks "[7]" "replicate 32 5" "[8]"] ks d [of 8] hex by simp
qed

text \<open>
  The identity is stable: once a load has succeeded, every later one with the same keystore,
  password and network gives the same secret, address, nonce and overlay, whatever the random
  source answers and whether or not the nonce file can still be written.
\<close>
theorem identity_load_stable:
  assumes "hex_codec hex_encode hex_decode" "\<And>n. ne_fresh env = Some n \<Longrightarrow> length n = 32"
    and "identity_load L K hex_encode hex_decode env key_file password net nonce_file = (Inr ident, nonce_file1)"
  shows "identity_load L K hex_encode hex_decode env2 key_file password net nonce_file1 = (Inr ident, nonce_file1)
    \<and> length (id_secret ident) = 32 \<and> length (id_nonce ident) = 32"
proof -
  obtain json secret nonce where l: "key_file = Some json" "decrypt_v3 L json password = Inr secret"
      "load_nonce hex_encode hex_decode env nonce_file = (Inr nonce, nonce_file1)" "id_secret ident = secret" "id_nonce ident = nonce"
    using assms(3) by (auto simp: identity_load_def split: option.splits sum.splits prod.splits if_splits)
  have "length secret = 32" using l(2) by (auto simp: decrypt_v3_def split: if_splits option.splits sum.splits)
  then show ?thesis
    using load_nonce_again [OF assms(1) l(3) assms(2)] assms(3) l by (simp add: identity_load_def)
qed

theorem identity_load_stable_witness:
  "\<exists>ident f. identity_load sample_lib \<lparr>kl_address = Some, kl_overlay = (\<lambda>e n b. b), kl_libp2p = (\<lambda>_. True)\<rparr> render_root parse_hex_pairs
     \<lparr>ne_fresh = None, ne_mkdir = False, ne_write = None\<rparr> (Some []) [7] 1 f = (Inr ident, f) \<and> id_nonce ident = replicate 32 9"
proof -
  let ?K = "\<lparr>kl_address = Some, kl_overlay = (\<lambda>e n b. b), kl_libp2p = (\<lambda>_. True)\<rparr>"
  let ?env = "\<lparr>ne_fresh = Some (replicate 32 9), ne_mkdir = True, ne_write = None\<rparr>"
  have "decrypt_v3 sample_lib [] [7] = Inr (replicate 32 5)"
    by (simp add: decrypt_v3_def sample_lib_def derive_key_def derive_pbkdf2_def decode_hex_def eq_ignore_case_def ascii_lower_def
        u32_param_def u64_param_def try_word_def check_mac_def)
  then obtain ident where first: "identity_load sample_lib ?K render_root parse_hex_pairs ?env (Some []) [7] 1 None
      = (Inr ident, Some (render_root (replicate 32 9)))" "id_nonce ident = replicate 32 9"
    by (simp add: identity_load_def load_nonce_def)
  have "length n = 32" if "ne_fresh ?env = Some n" for n using that by auto
  from identity_load_stable [OF own_hex.hex_codec_axioms this first(1)] first(2) show ?thesis by blast
qed

text \<open>
  A deposit is sent only when both balances were read and the wallet holds the amount, at most once,
  and it carries the requested amount to the chequebook; an outcome is reported only for a mined one.
\<close>
lemma fund_sends_only_covered:
  assumes "fund_chequebook env book amount = (r, sent)"
  shows "length sent \<le> 1
    \<and> (\<forall>raw \<in> set sent. \<exists>w nonce h. ce_wallet_before env = Some w \<and> amount \<le> w \<and> ce_book_before env \<noteq> None
          \<and> ce_nonce env = Some nonce \<and> ce_sign env \<lparr>tx_nonce = nonce, tx_data = ce_calldata env book (ucast amount)\<rparr> = Some (raw, h))
    \<and> (\<forall>oc. r = Inr oc \<longrightarrow> (\<exists>raw. sent = [raw] \<and> ce_send env raw) \<and> ce_receipt env (fu_tx_hash oc) = Some (fu_block_number oc))"
  using assms by (auto simp: fund_chequebook_def not_less split: option.splits if_splits)

end
