(* ===== verification/Commands.thy ===== *)
theory Commands
  imports Schedule Growth_Probe Crawl File_Fetch Probe Identity_Keys
begin

text \<open>
  The commands (\<^verbatim>\<open>rust/ds-cli/src\<close>): how their arguments become the options and requests of the
  components, which early return gives which exit code, and what a command leaves on disk. The
  printing is left out; the arguments and their dispatch are in \<open>Cli\<close>, the rows appended to the
  measurement files in \<open>Measurements\<close>. \<open>connect\<close>-style parameters stand for the run of a component whose own model is elsewhere.
\<close>

section \<open>Fetch\<close>

definition default_output :: "string \<Rightarrow> string" where
  "default_output reference = take 16 reference @ ''.bin''"

definition output_path :: "string option \<Rightarrow> string \<Rightarrow> string" where
  "output_path output reference = (case output of Some p \<Rightarrow> p | None \<Rightarrow> default_output reference)"

text \<open>The exit code and the disks at each path; \<open>client\<close> is whether the HTTP client could be built.\<close>

definition fetch_command ::
  "(string \<Rightarrow> bytes option) \<Rightarrow> bool \<Rightarrow> (swarm_address \<Rightarrow> bytes option) \<Rightarrow> (bytes \<Rightarrow> nat \<times> bytes) \<Rightarrow>
   (u64 \<Rightarrow> u64 \<Rightarrow> u64 \<Rightarrow> 'r option) \<Rightarrow> 'r file_env \<Rightarrow> string \<Rightarrow> string option \<Rightarrow> (string \<Rightarrow> fetch_disk) \<Rightarrow> int \<times> (string \<Rightarrow> fetch_disk)" where
  "fetch_command hex_decode_vec client fetch decode_span byte_range env reference output fs =
     (case parse_ref hex_decode_vec reference of
        Inl _ \<Rightarrow> (2, fs)
      | Inr root \<Rightarrow>
          if \<not> client then (1, fs)
          else
            let out_path = output_path output reference in
            case fetch_to_file fetch decode_span byte_range env root (fs out_path) of
              (Inr _, d) \<Rightarrow> (0, fs(out_path := d))
            | (Inl _, d) \<Rightarrow> (1, fs(out_path := d)))"

section \<open>Probes\<close>

record probe_args =
  pa_underlay :: string
  pa_overlay :: string
  pa_chunks_csv :: "string option"
  pa_min_po :: nat
  pa_max_chunks :: nat
  pa_pipeline_depth :: nat
  pa_chequebook :: string
  pa_max_issue_plur :: u64

record 'm probe_request =
  pr_underlay :: 'm
  pr_overlay :: swarm_address
  pr_chequebook :: bytes
  pr_chunks :: "swarm_address list"
  pr_pipeline_depth :: nat
  pr_max_issue_plur :: u64

text \<open>The checks both probe commands begin with; every failure is the exit code 2.\<close>

definition probe_inputs ::
  "(nat \<Rightarrow> string \<Rightarrow> bytes option) \<Rightarrow> (string \<Rightarrow> 'm option) \<Rightarrow> probe_args \<Rightarrow> 'm probe_request option" where
  "probe_inputs hex_decode parse_maddr args =
     (case parse_hex hex_decode 32 (pa_overlay args) of
        None \<Rightarrow> None
      | Some overlay \<Rightarrow>
          (case parse_hex hex_decode 20 (pa_chequebook args) of
             None \<Rightarrow> None
           | Some chequebook \<Rightarrow>
               (case parse_maddr (pa_underlay args) of
                  None \<Rightarrow> None
                | Some underlay \<Rightarrow>
                    (case load_chunk_addresses hex_decode overlay (pa_min_po args) (pa_max_chunks args) (pa_chunks_csv args) of
                       Inl _ \<Rightarrow> None
                     | Inr chunks \<Rightarrow>
                         if chunks = [] then None
                         else Some \<lparr>pr_underlay = underlay, pr_overlay = overlay, pr_chequebook = chequebook, pr_chunks = chunks,
                                    pr_pipeline_depth = pa_pipeline_depth args, pr_max_issue_plur = pa_max_issue_plur args\<rparr>))))"

text \<open>The exit code and the requests made of the storer.\<close>

definition probe_run ::
  "(nat \<Rightarrow> string \<Rightarrow> bytes option) \<Rightarrow> (string \<Rightarrow> 'm option) \<Rightarrow> 'i option \<Rightarrow> ('i \<Rightarrow> 'm probe_request \<Rightarrow> probe_report option) \<Rightarrow>
   probe_args \<Rightarrow> int \<times> 'm probe_request list" where
  "probe_run hex_decode parse_maddr ident probe_storer args =
     (case probe_inputs hex_decode parse_maddr args of
        None \<Rightarrow> (2, [])
      | Some inputs \<Rightarrow>
          (case ident of
             None \<Rightarrow> (1, [])
           | Some i \<Rightarrow>
               let req = inputs\<lparr>pr_pipeline_depth := min (pr_pipeline_depth inputs) 32\<rparr> in
               (case probe_storer i req of
                  None \<Rightarrow> (1, [req])
                | Some rep \<Rightarrow> (if rp_chunks_ok rep = 0 then 1 else 0, [req]))))"

definition growth_options_of ::
  "(swarm_address \<Rightarrow> swarm_address \<Rightarrow> u64) \<Rightarrow> u64 \<Rightarrow> u64 \<Rightarrow> nat \<Rightarrow> u64 \<Rightarrow> 'm probe_request \<Rightarrow> growth_options" where
  "growth_options_of peer_price growth_secs ceiling_secs samples prepay_chunks req =
     \<lparr>go_growth_secs = growth_secs, go_ceiling_secs = ceiling_secs, go_lambda_samples = samples,
      go_prepay_units = prepay_chunks * (case pr_chunks req of [] \<Rightarrow> 220000 | a # _ \<Rightarrow> peer_price (pr_overlay req) a),
      go_pipeline_depth = pr_pipeline_depth req, go_max_issue_plur = pr_max_issue_plur req\<rparr>"

definition growth_run ::
  "(nat \<Rightarrow> string \<Rightarrow> bytes option) \<Rightarrow> (string \<Rightarrow> 'm option) \<Rightarrow> (swarm_address \<Rightarrow> swarm_address \<Rightarrow> u64) \<Rightarrow> 'i option \<Rightarrow>
   ('i \<Rightarrow> 'm probe_request \<Rightarrow> growth_options \<Rightarrow> bool) \<Rightarrow> u64 \<Rightarrow> u64 \<Rightarrow> nat \<Rightarrow> u64 \<Rightarrow> probe_args \<Rightarrow>
   int \<times> ('m probe_request \<times> growth_options) list" where
  "growth_run hex_decode parse_maddr peer_price ident measure_storer growth_secs ceiling_secs samples prepay_chunks args =
     (case probe_inputs hex_decode parse_maddr args of
        None \<Rightarrow> (2, [])
      | Some inputs \<Rightarrow>
          (case ident of
             None \<Rightarrow> (1, [])
           | Some i \<Rightarrow>
               let req = inputs\<lparr>pr_pipeline_depth := max 1 (min 32 (pr_pipeline_depth inputs))\<rparr>;
                   opts = growth_options_of peer_price growth_secs ceiling_secs samples prepay_chunks req
               in if measure_storer i req opts then (0, [(req, opts)]) else (1, [(req, opts)])))"

section \<open>Crawl\<close>

record crawl_args =
  ca_seed :: "string list"
  ca_seed_csv :: "string option"
  ca_seed_count :: nat
  ca_chunks_csv :: "string option"
  ca_depth :: nat
  ca_max_dials :: nat
  ca_dial_interval_ms :: nat
  ca_harvest_secs :: nat
  ca_wall_secs :: nat

definition crawl_args_options :: "crawl_args \<Rightarrow> crawl_options" where
  "crawl_args_options args =
     \<lparr>co_max_dials = ca_max_dials args, co_dial_interval = ca_dial_interval_ms args, co_dial_timeout = 20000,
      co_harvest_window = 1000 * ca_harvest_secs args, co_wall_cap = 1000 * ca_wall_secs args\<rparr>"

text \<open>
  The exit code with the topology file, or \<open>None\<close> where the coverage report panics. \<open>built\<close> is
  whether the swarm could be built, the only failure of a crawl.
\<close>

definition crawl_run ::
  "(bytes \<Rightarrow> string) \<Rightarrow> (nat \<Rightarrow> string \<Rightarrow> bytes option) \<Rightarrow> (string \<Rightarrow> 'm option) \<Rightarrow> ('m \<Rightarrow> 'p protocol list) \<Rightarrow> ('m \<Rightarrow> string) \<Rightarrow>
   identity option \<Rightarrow> bool \<Rightarrow> (nat \<Rightarrow> ('p, 'm) crawl_input) \<Rightarrow> io_fault \<Rightarrow> crawl_args \<Rightarrow> string option \<Rightarrow> (int \<times> string option) option" where
  "crawl_run hex_encode hex_decode parse_maddr protocols to_string ident built inp fault args csv =
     (case load_seeds parse_maddr (ca_seed args) (ca_seed_count args) (ca_seed_csv args) of
        Inl _ \<Rightarrow> Some (2, csv)
      | Inr seeds \<Rightarrow>
          (case crawl_load_chunks hex_decode (ca_chunks_csv args) of
             Inl _ \<Rightarrow> Some (2, csv)
           | Inr chunks \<Rightarrow>
               (case ident of
                  None \<Rightarrow> Some (1, csv)
                | Some i \<Rightarrow>
                    if \<not> built then Some (1, csv)
                    else
                      let cache = cr_cache (snd (crawl protocols to_string (crawl_args_options args) inp (id_overlay i) seeds)) in
                      (case coverage_of cache chunks (ca_depth args) of
                         None \<Rightarrow> None
                       | Some _ \<Rightarrow>
                           Some (if topology_is_empty cache then 1 else 0, snd (write_cache_csv fault hex_encode cache csv))))))"

section \<open>Direct fetch\<close>

record fetch_direct_args =
  fa_reference :: "string option"
  fa_chunks_csv :: "string option"
  fa_topology_csv :: "string option"
  fa_max_chunks :: nat
  fa_connections :: nat
  fa_depth :: nat
  fa_nbhd_depth :: nat
  fa_max_issue_plur :: u64
  fa_store_base :: string
  fa_measure_lambda :: bool
  fa_redundancy :: nat
  fa_stall_exit :: bool
  fa_prepay :: bool
  fa_repeat :: nat
  fa_direct_only :: bool
  fa_verify :: bool
  fa_output :: "string option"
  fa_chequebook :: string

definition direct_options :: "fetch_direct_args \<Rightarrow> schedule_options" where
  "direct_options args =
     \<lparr>so_depth = fa_nbhd_depth args, so_direct_only = fa_direct_only args, so_redundancy = fa_redundancy args,
      so_connections = fa_connections args, so_start_depth = fa_depth args, so_prepay = fa_prepay args,
      so_measure_lambda = fa_measure_lambda args, so_max_issue_plur = fa_max_issue_plur args,
      so_stall_exit = fa_stall_exit args, so_parking = True\<rparr>"

text \<open>
  \<open>Path::with_extension\<close> on a path that does not end in a separator: the extension of the last
  component, from its last dot on unless it starts with it, is replaced.
\<close>

definition file_name :: "string \<Rightarrow> string" where
  "file_name path = last (split_on (CHR ''/'') path)"

definition file_stem :: "string \<Rightarrow> string" where
  "file_stem name =
     (let parts = split_on (CHR ''.'') name;
          stem = join_with (CHR ''.'') (butlast parts)
      in if length parts = 1 \<or> stem = [] then name else stem)"

definition with_extension :: "string \<Rightarrow> string \<Rightarrow> string" where
  "with_extension path ext =
     take (length path - length (file_name path)) path @ file_stem (file_name path) @ CHR ''.'' # ext"

definition cleared_paths :: "string \<Rightarrow> string list" where
  "cleared_paths base = [with_extension base ''dat'', with_extension base ''idx'']"

text \<open>
  The iterations on a world that holds the store's files, the warm connections and the rest: from
  the second on the named files are removed first; a failing fetch ends them.
\<close>

fun repeat_fetch ::
  "(string list \<Rightarrow> 'w \<Rightarrow> 'w) \<Rightarrow> (nat \<Rightarrow> 'w \<Rightarrow> schedule_report option \<times> 'w) \<Rightarrow> string \<Rightarrow> nat list \<Rightarrow> schedule_report option \<Rightarrow> 'w \<Rightarrow>
   (unit, schedule_report option) result \<times> 'w" where
  "repeat_fetch remove fetch base [] report w = (Inr report, w)"
| "repeat_fetch remove fetch base (iter # iters) report w =
     (let w1 = (if 1 < iter then remove (cleared_paths base) w else w) in
      case fetch iter w1 of
        (Some r, w2) \<Rightarrow> repeat_fetch remove fetch base iters (Some r) w2
      | (None, w2) \<Rightarrow> (Inl (), w2))"

definition verify_run ::
  "(nat \<Rightarrow> string \<Rightarrow> bytes option) \<Rightarrow> (store_inner \<times> store_disk) option \<Rightarrow> (bytes \<Rightarrow> nat \<times> bytes) \<Rightarrow> (u64 \<Rightarrow> u64 \<Rightarrow> u64 \<Rightarrow> 'r option) \<Rightarrow>
   'r file_env \<Rightarrow> fetch_direct_args \<Rightarrow> (string \<Rightarrow> fetch_disk) \<Rightarrow> int \<times> (string \<Rightarrow> fetch_disk)" where
  "verify_run hex_decode opened decode_span byte_range env args fs =
     (case fa_reference args of
        None \<Rightarrow> (2, fs)
      | Some reference \<Rightarrow>
          (case parse_hex hex_decode 32 reference of
             None \<Rightarrow> (2, fs)
           | Some root \<Rightarrow>
               (case opened of
                  None \<Rightarrow> (1, fs)
                | Some gd \<Rightarrow>
                    let out_path = output_path (fa_output args) reference;
                        fetch = (\<lambda>a. case store_fetch gd a of Inl _ \<Rightarrow> None | Inr w \<Rightarrow> Some w)
                    in case fetch_to_file fetch decode_span byte_range env root (fs out_path) of
                         (Inr _, d) \<Rightarrow> (0, fs(out_path := d))
                       | (Inl _, d) \<Rightarrow> (1, fs(out_path := d)))))"

definition fetch_direct_run ::
  "(nat \<Rightarrow> string \<Rightarrow> bytes option) \<Rightarrow> identity option \<Rightarrow> (string list \<Rightarrow> 'w \<Rightarrow> 'w) \<Rightarrow>
   (identity \<Rightarrow> topology_cache \<Rightarrow> swarm_address list \<Rightarrow> schedule_options \<Rightarrow> bytes \<Rightarrow> nat \<Rightarrow> 'w \<Rightarrow> schedule_report option \<times> 'w) \<Rightarrow>
   ('w \<Rightarrow> int \<times> 'w) \<Rightarrow> fetch_direct_args \<Rightarrow> 'w \<Rightarrow> int \<times> 'w" where
  "fetch_direct_run hex_decode ident remove fetch_scheduled verify args w =
     (case load_chunks hex_decode (fa_max_chunks args) (fa_chunks_csv args) of
        Inl _ \<Rightarrow> (2, w)
      | Inr chunks \<Rightarrow>
          if chunks = [] then (2, w)
          else case parse_hex hex_decode 20 (fa_chequebook args) of
            None \<Rightarrow> (2, w)
          | Some chequebook \<Rightarrow>
              (case ident of
                 None \<Rightarrow> (1, w)
               | Some i \<Rightarrow>
                   (case load_topology hex_decode (id_overlay i) (fa_topology_csv args) of
                      Inl _ \<Rightarrow> (2, w)
                    | Inr cache \<Rightarrow>
                        (case repeat_fetch remove (fetch_scheduled i cache chunks (direct_options args) chequebook)
                                (fa_store_base args) [1..<Suc (max 1 (fa_repeat args))] None w of
                           (Inl _, w1) \<Rightarrow> (1, w1)
                         | (Inr report, w1) \<Rightarrow>
                             if fa_verify args then verify w1
                             else (case report of
                                     Some r \<Rightarrow> (if sr_chunks_from_direct r = 0 then 1 else 0)
                                   | None \<Rightarrow> 1, w1)))))"

section \<open>Deposit\<close>

definition fund_run ::
  "(nat \<Rightarrow> string \<Rightarrow> bytes option) \<Rightarrow> 'i option \<Rightarrow> ('i \<Rightarrow> chain_env) \<Rightarrow> u128 \<Rightarrow> string \<Rightarrow> int \<times> bytes list" where
  "fund_run hex_decode ident env amount chequebook =
     (case parse_hex hex_decode 20 chequebook of
        None \<Rightarrow> (2, [])
      | Some book \<Rightarrow>
          (case ident of
             None \<Rightarrow> (1, [])
           | Some i \<Rightarrow>
               (case fund_chequebook (env i) book amount of
                  (Inr _, sent) \<Rightarrow> (0, sent)
                | (Inl _, sent) \<Rightarrow> (1, sent))))"

section \<open>Requests\<close>

lemma probe_inputs_SomeD:
  assumes "probe_inputs hdec parse_maddr args = Some req"
  shows "pr_chunks req \<noteq> [] \<and> length (pr_chunks req) \<le> max 1 (pa_max_chunks args)
    \<and> (\<forall>c \<in> set (pr_chunks req). pa_min_po args \<le> proximity c (pr_overlay req)) \<and> pr_max_issue_plur req = pa_max_issue_plur args
    \<and> pr_pipeline_depth req = pa_pipeline_depth args"
proof -
  obtain col ls where rows: "inventory_rows (pa_chunks_csv args) = Inr (col, ls)"
    using assms by (auto simp: probe_inputs_def load_chunk_addresses_def split: option.splits sum.splits if_splits)
  have req: "load_chunk_addresses hdec (pr_overlay req) (pa_min_po args) (pa_max_chunks args) (pa_chunks_csv args) = Inr (pr_chunks req)"
      "pr_chunks req \<noteq> []" "pr_max_issue_plur req = pa_max_issue_plur args" "pr_pipeline_depth req = pa_pipeline_depth args"
    using assms by (auto simp: probe_inputs_def split: option.splits sum.splits if_splits)
  define held where "held = filter (\<lambda>a. pa_min_po args \<le> proximity a (pr_overlay req)) (read_rows (chunk_cell hdec col) ls)"
  have taken: "pr_chunks req = take (max 1 (pa_max_chunks args)) held"
    using load_chunk_addresses_correct [OF rows, of hdec "pr_overlay req" "pa_min_po args" "pa_max_chunks args"] req(1)
    by (simp add: held_def)
  have "set (pr_chunks req) \<subseteq> set held" "length (pr_chunks req) \<le> max 1 (pa_max_chunks args)"
    unfolding taken by (auto dest: in_set_takeD)
  then show ?thesis using req(2-4) by (auto simp: held_def)
qed

lemma file_stem_no_dot: "CHR ''.'' \<notin> set name \<Longrightarrow> file_stem name = name"
  by (simp add: file_stem_def split_on_no_sep)

text \<open>
  The files removed between two iterations are those of the chunk store as long as the last
  component of its path has no dot; with a dot the store's files stay and others are removed.
\<close>
lemma cleared_paths_store:
  assumes "CHR ''.'' \<notin> set (file_name base)" "base = dir @ file_name base"
  shows "cleared_paths base = [with_ext base ''dat'', with_ext base ''idx'']"
proof -
  have "take (length base - length (file_name base)) base = dir"
    by (metis append_eq_conv_conj assms(2) diff_add_inverse2 length_append)
  then have "with_extension base ext = base @ CHR ''.'' # ext" for ext
    using assms by (simp add: with_extension_def file_stem_no_dot flip: append_assoc)
  then show ?thesis by (simp add: cleared_paths_def with_ext_def)
qed

lemma cleared_paths_miss:
  "cleared_paths ''run/m4.store'' = [''run/m4.dat'', ''run/m4.idx''] \<and> with_ext ''run/m4.store'' ''dat'' = ''run/m4.store.dat''"
  by (simp add: cleared_paths_def with_extension_def file_name_def file_stem_def with_ext_def)

text \<open>
  A depth beyond 32 passes every check of the crawl command, runs the whole crawl and panics in the
  coverage report, before the topology file is written.
\<close>
lemma crawl_run_panics_late:
  assumes "load_seeds parse_maddr (ca_seed args) (ca_seed_count args) (ca_seed_csv args) = Inr seeds"
    and "crawl_load_chunks hdec (ca_chunks_csv args) = Inr chunks" "chunks \<noteq> []" "32 < ca_depth args"
  shows "crawl_run he hdec parse_maddr pr to_string (Some i) True inp fault args csv = None"
  using assms by (simp add: crawl_run_def Let_def coverage_panics)

lemma repeat_fetch_calls:
  assumes "\<And>iter w. fst (fetch iter w) \<noteq> None" "iters \<noteq> []"
  shows "\<exists>r. fst (repeat_fetch remove fetch base iters report w) = Inr (Some r)"
  using assms(2)
proof (induction iters arbitrary: report w)
  case (Cons iter iters)
  let ?w1 = "if 1 < iter then remove (cleared_paths base) w else w"
  obtain r w2 where f: "fetch iter ?w1 = (Some r, w2)" using assms(1) [of iter ?w1] by (cases "fetch iter ?w1") auto
  show ?case
  proof (cases iters)
    case Nil
    with f show ?thesis by (simp add: Let_def)
  next
    case (Cons j js)
    with f Cons.IH [of "Some r" w2] show ?thesis by (simp add: Let_def)
  qed
qed simp

section \<open>Properties\<close>

text \<open>
  What the probe commands ask of a storer: at most one request is made and none on a bad argument
  (exit code 2); it asks only for chunks of the storer's neighborhood, at least one and no more than
  the limit (but one for the limit 0), with a pipeline of at most 32 and the spend cap as given; and the
  exit code 0 means that chunks were served.
\<close>
theorem probe_request_etiquette:
  assumes "probe_run hex_decode parse_maddr ident probe_storer args = (code, reqs)"
  shows "length reqs \<le> 1 \<and> (code = 2 \<longrightarrow> reqs = [])
    \<and> (\<forall>req \<in> set reqs. pr_pipeline_depth req \<le> 32 \<and> pr_max_issue_plur req = pa_max_issue_plur args
          \<and> pr_chunks req \<noteq> [] \<and> length (pr_chunks req) \<le> max 1 (pa_max_chunks args)
          \<and> (\<forall>c \<in> set (pr_chunks req). pa_min_po args \<le> proximity c (pr_overlay req)))
    \<and> (code = 0 \<longrightarrow> (\<exists>i rep. ident = Some i \<and> probe_storer i (hd reqs) = Some rep \<and> rp_chunks_ok rep \<noteq> 0))"
proof (cases "probe_inputs hex_decode parse_maddr args")
  case None
  then show ?thesis using assms by (auto simp: probe_run_def)
next
  case (Some inputs)
  then show ?thesis
    using assms probe_inputs_SomeD [OF Some] by (auto simp: probe_run_def Let_def split: option.splits if_splits)
qed

theorem probe_request_etiquette_witness:
  "\<exists>req. probe_run (\<lambda>n s. Some (replicate n 1)) (\<lambda>s. Some s) (Some ()) (\<lambda>_ _. None)
     \<lparr>pa_underlay = [], pa_overlay = [], pa_chunks_csv = Some (''address_hex'' @ [NL] @ ''ff''), pa_min_po = 9, pa_max_chunks = 200,
      pa_pipeline_depth = 100, pa_chequebook = [], pa_max_issue_plur = 5\<rparr> = (1, [req]) \<and> pr_pipeline_depth req \<le> 32"
proof -
  let ?args = "\<lparr>pa_underlay = [], pa_overlay = [], pa_chunks_csv = Some (''address_hex'' @ [NL] @ ''ff''), pa_min_po = 9, pa_max_chunks = 200,
      pa_pipeline_depth = 100, pa_chequebook = [], pa_max_issue_plur = 5\<rparr>"
  have "inventory_rows (pa_chunks_csv ?args) = Inr (0, [''ff''])" by code_simp
  moreover have "proximity (replicate 32 1) (replicate 32 1) = 31" by code_simp
  ultimately obtain req where run: "probe_run (\<lambda>n s. Some (replicate n 1)) (\<lambda>s. Some s) (Some ()) (\<lambda>_ _. None) ?args = (1, [req])"
    by (simp add: probe_run_def probe_inputs_def load_chunk_addresses_def stored_cell_def chunk_cell_def cells_def nth_opt_def
        parse_hex_def Let_def)
  from probe_request_etiquette [OF run] run show ?thesis by auto
qed



end
