(* ===== verification/Cli.thy ===== *)
theory Cli
  imports Commands
begin

text \<open>
  The command line (\<^verbatim>\<open>main.rs\<close> and the argument structs of \<^verbatim>\<open>probe.rs\<close>, \<^verbatim>\<open>crawl.rs\<close>, \<^verbatim>\<open>fetchdirect.rs\<close>,
  \<^verbatim>\<open>growth_cmd.rs\<close> and \<^verbatim>\<open>fund.rs\<close> under \<^verbatim>\<open>rust/ds-cli/src\<close>): the commands with their arguments and
  defaults, the dispatch to the command's run, its exit code, and what it has done by then. The
  parsing of the command line by clap, the files, the network and the libraries are parameters,
  gathered in \<open>cli_env\<close>.
\<close>

section \<open>Arguments\<close>

text \<open>The fields on the settlement key that most commands have.\<close>

record key_args =
  ka_swarm_key :: string
  ka_password :: string
  ka_nonce_file :: string
  ka_network_id :: u64

definition default_keys :: key_args where
  "default_keys = \<lparr>ka_swarm_key = ''../.phase0/reach-data/keys/swarm.key'', ka_password = ''directswarm-reach'',
     ka_nonce_file = ''../.phase1/identity/overlay-nonce.hex'', ka_network_id = 1\<rparr>"

definition default_ledger :: string where "default_ledger = ''../.phase1/identity/outbound-cheques.json''"
definition default_chequebook :: string where "default_chequebook = ''0xE8C7aD1Af8CAb91E2695EfD1a12dBfCc186dFD41''"
definition default_rpc_url :: string where "default_rpc_url = ''https://rpc.gnosischain.com''"
definition default_chunks_csv :: string where "default_chunks_csv = ''../.phase0/chunks.csv''"

record probe_cli =
  pc_underlay :: string
  pc_overlay :: string
  pc_chunks_csv :: string
  pc_min_po :: nat
  pc_max_chunks :: nat
  pc_pipeline :: nat
  pc_keys :: key_args
  pc_ledger :: string
  pc_chequebook :: string
  pc_rpc_url :: string
  pc_max_issue_plur :: u64
  pc_chain_id :: u64
  pc_csv_out :: string

definition probe_defaults :: "string \<Rightarrow> string \<Rightarrow> probe_cli" where
  "probe_defaults underlay overlay =
     \<lparr>pc_underlay = underlay, pc_overlay = overlay, pc_chunks_csv = default_chunks_csv, pc_min_po = 9, pc_max_chunks = 200,
      pc_pipeline = 16, pc_keys = default_keys, pc_ledger = default_ledger, pc_chequebook = default_chequebook,
      pc_rpc_url = default_rpc_url, pc_max_issue_plur = 5000000000000, pc_chain_id = 100,
      pc_csv_out = ''../.phase1/m2-probe.csv''\<rparr>"

record growth_cli = probe_cli +
  gc_growth_secs :: u64
  gc_ceiling_secs :: u64
  gc_lambda_samples :: nat
  gc_prepay_chunks :: u64
  gc_jsonl_out :: "string option"

definition growth_defaults :: "string \<Rightarrow> string \<Rightarrow> growth_cli" where
  "growth_defaults underlay overlay =
     \<lparr>pc_underlay = underlay, pc_overlay = overlay, pc_chunks_csv = default_chunks_csv, pc_min_po = 9, pc_max_chunks = 600,
      pc_pipeline = 16, pc_keys = default_keys, pc_ledger = default_ledger, pc_chequebook = default_chequebook,
      pc_rpc_url = default_rpc_url, pc_max_issue_plur = 300000000000000, pc_chain_id = 100,
      pc_csv_out = ''../.phase1/m5-growth.csv'', gc_growth_secs = 1200, gc_ceiling_secs = 120, gc_lambda_samples = 3,
      gc_prepay_chunks = 0, gc_jsonl_out = None\<rparr>"

record crawl_cli =
  cc_seed :: "string list"
  cc_seed_csv :: string
  cc_seed_count :: nat
  cc_chunks_csv :: string
  cc_depth :: nat
  cc_max_dials :: nat
  cc_dial_interval_ms :: nat
  cc_harvest_secs :: nat
  cc_wall_secs :: nat
  cc_keys :: key_args
  cc_out_csv :: string

definition crawl_defaults :: crawl_cli where
  "crawl_defaults =
     \<lparr>cc_seed = [], cc_seed_csv = ''../.phase0/reach.csv'', cc_seed_count = 4, cc_chunks_csv = default_chunks_csv,
      cc_depth = 9, cc_max_dials = 40, cc_dial_interval_ms = 500, cc_harvest_secs = 4, cc_wall_secs = 600,
      cc_keys = default_keys, cc_out_csv = ''../.phase1/m3-topology.csv''\<rparr>"

record fetch_direct_cli =
  fc_reference :: "string option"
  fc_chunks_csv :: string
  fc_topology_csv :: string
  fc_max_chunks :: nat
  fc_connections :: nat
  fc_depth :: nat
  fc_nbhd_depth :: nat
  fc_max_issue_plur :: u64
  fc_store_base :: string
  fc_peerstate :: string
  fc_measure_lambda :: bool
  fc_redundancy :: nat
  fc_stall_exit :: bool
  fc_prepay :: bool
  fc_repeat :: nat
  fc_direct_only :: bool
  fc_verify :: bool
  fc_output :: "string option"
  fc_bee_url :: string
  fc_keys :: key_args
  fc_ledger :: string
  fc_chequebook :: string
  fc_rpc_url :: string
  fc_chain_id :: u64
  fc_csv_out :: string

definition fetch_direct_defaults :: fetch_direct_cli where
  "fetch_direct_defaults =
     \<lparr>fc_reference = None, fc_chunks_csv = default_chunks_csv, fc_topology_csv = ''../.phase1/topology.csv'',
      fc_max_chunks = 0, fc_connections = 20, fc_depth = 8, fc_nbhd_depth = 9, fc_max_issue_plur = 10000000000,
      fc_store_base = ''../.phase1/m4-store'', fc_peerstate = ''../.phase1/peerstate.csv'', fc_measure_lambda = True,
      fc_redundancy = 1, fc_stall_exit = False, fc_prepay = False, fc_repeat = 1, fc_direct_only = False,
      fc_verify = False, fc_output = None, fc_bee_url = ''http://localhost:1633'', fc_keys = default_keys,
      fc_ledger = default_ledger, fc_chequebook = default_chequebook, fc_rpc_url = default_rpc_url, fc_chain_id = 100,
      fc_csv_out = ''../.phase1/m5-scaling.csv''\<rparr>"

text \<open>The deposit takes the network id 1 whatever the other commands are told.\<close>

record fund_cli =
  uc_amount_plur :: u128
  uc_swarm_key :: string
  uc_password :: string
  uc_nonce_file :: string
  uc_chequebook :: string
  uc_rpc_url :: string

definition fund_defaults :: "u128 \<Rightarrow> fund_cli" where
  "fund_defaults amount =
     \<lparr>uc_amount_plur = amount, uc_swarm_key = ka_swarm_key default_keys, uc_password = ka_password default_keys,
      uc_nonce_file = ka_nonce_file default_keys, uc_chequebook = default_chequebook, uc_rpc_url = default_rpc_url\<rparr>"

definition fund_keys :: "fund_cli \<Rightarrow> key_args" where
  "fund_keys a = \<lparr>ka_swarm_key = uc_swarm_key a, ka_password = uc_password a, ka_nonce_file = uc_nonce_file a, ka_network_id = 1\<rparr>"

datatype command =
  Fetch string "string option" string
| ProbeStorer probe_cli
| Crawl crawl_cli
| FetchDirect fetch_direct_cli
| ProbeGrowth growth_cli
| FundChequebook fund_cli

section \<open>Running a command\<close>

text \<open>The arguments as the commands' models take them: a file argument is the text of the file, if it can be read.\<close>

definition probe_args_of :: "(string \<Rightarrow> string option) \<Rightarrow> 'a probe_cli_scheme \<Rightarrow> probe_args" where
  "probe_args_of read a =
     \<lparr>pa_underlay = pc_underlay a, pa_overlay = pc_overlay a, pa_chunks_csv = read (pc_chunks_csv a), pa_min_po = pc_min_po a,
      pa_max_chunks = pc_max_chunks a, pa_pipeline_depth = pc_pipeline a, pa_chequebook = pc_chequebook a,
      pa_max_issue_plur = pc_max_issue_plur a\<rparr>"

definition crawl_args_of :: "(string \<Rightarrow> string option) \<Rightarrow> crawl_cli \<Rightarrow> crawl_args" where
  "crawl_args_of read a =
     \<lparr>ca_seed = cc_seed a, ca_seed_csv = read (cc_seed_csv a), ca_seed_count = cc_seed_count a, ca_chunks_csv = read (cc_chunks_csv a),
      ca_depth = cc_depth a, ca_max_dials = cc_max_dials a, ca_dial_interval_ms = cc_dial_interval_ms a,
      ca_harvest_secs = cc_harvest_secs a, ca_wall_secs = cc_wall_secs a\<rparr>"

definition fetch_direct_args_of :: "(string \<Rightarrow> string option) \<Rightarrow> fetch_direct_cli \<Rightarrow> fetch_direct_args" where
  "fetch_direct_args_of read a =
     \<lparr>fa_reference = fc_reference a, fa_chunks_csv = read (fc_chunks_csv a), fa_topology_csv = read (fc_topology_csv a),
      fa_max_chunks = fc_max_chunks a, fa_connections = fc_connections a, fa_depth = fc_depth a, fa_nbhd_depth = fc_nbhd_depth a,
      fa_max_issue_plur = fc_max_issue_plur a, fa_store_base = fc_store_base a, fa_measure_lambda = fc_measure_lambda a,
      fa_redundancy = fc_redundancy a, fa_stall_exit = fc_stall_exit a, fa_prepay = fc_prepay a, fa_repeat = fc_repeat a,
      fa_direct_only = fc_direct_only a, fa_verify = fc_verify a, fa_output = fc_output a, fa_chequebook = fc_chequebook a\<rparr>"

text \<open>\<open>'w\<close> is the world a direct fetch runs in: its store, its warm connections, its network.\<close>

record ('p, 'm, 'r, 'w) cli_env =
  cl_hex_vec :: "string \<Rightarrow> bytes option"
  cl_hex_decode :: "nat \<Rightarrow> string \<Rightarrow> bytes option"
  cl_hex_encode :: "bytes \<Rightarrow> string"
  cl_maddr :: "string \<Rightarrow> 'm option"
  cl_protocols :: "'m \<Rightarrow> 'p protocol list"
  cl_to_string :: "'m \<Rightarrow> string"
  cl_read :: "string \<Rightarrow> string option"
  cl_identity :: "key_args \<Rightarrow> identity option"
  cl_client :: "string \<Rightarrow> bool"
  cl_chunk :: "string \<Rightarrow> swarm_address \<Rightarrow> bytes option"
  cl_span :: "bytes \<Rightarrow> nat \<times> bytes"
  cl_range :: "u64 \<Rightarrow> u64 \<Rightarrow> u64 \<Rightarrow> 'r option"
  cl_file_env :: "'r file_env"
  cl_fs :: "string \<Rightarrow> fetch_disk"
  cl_probe :: "probe_cli \<Rightarrow> identity \<Rightarrow> 'm probe_request \<Rightarrow> probe_report option"
  cl_price :: "swarm_address \<Rightarrow> swarm_address \<Rightarrow> u64"
  cl_measure :: "growth_cli \<Rightarrow> identity \<Rightarrow> 'm probe_request \<Rightarrow> growth_options \<Rightarrow> bool"
  cl_built :: bool
  cl_crawl_input :: "nat \<Rightarrow> ('p, 'm) crawl_input"
  cl_csv_fault :: io_fault
  cl_remove :: "string list \<Rightarrow> 'w \<Rightarrow> 'w"
  cl_scheduled :: "fetch_direct_cli \<Rightarrow> identity \<Rightarrow> topology_cache \<Rightarrow> swarm_address list \<Rightarrow> schedule_options \<Rightarrow> bytes \<Rightarrow> nat \<Rightarrow>
     'w \<Rightarrow> schedule_report option \<times> 'w"
  cl_opened :: "string \<Rightarrow> 'w \<Rightarrow> (store_inner \<times> store_disk) option"
  cl_files :: "'w \<Rightarrow> string \<Rightarrow> fetch_disk"
  cl_with_files :: "(string \<Rightarrow> fetch_disk) \<Rightarrow> 'w \<Rightarrow> 'w"
  cl_world :: 'w
  cl_chain :: "string \<Rightarrow> identity \<Rightarrow> chain_env"

text \<open>What a command has done when it exits: files written, requests made, transactions sent.\<close>

datatype ('m, 'w) effect =
  Files "string \<Rightarrow> fetch_disk"
| Asked "'m probe_request list"
| Wrote string "string option"
| World 'w
| Measured "('m probe_request \<times> growth_options) list"
| Transferred "bytes list"

definition verify_in ::
  "('p, 'm, 'r, 'w) cli_env \<Rightarrow> fetch_direct_cli \<Rightarrow> 'w \<Rightarrow> int \<times> 'w" where
  "verify_in env a w =
     (case verify_run (cl_hex_decode env) (cl_opened env (fc_store_base a) w) (cl_span env) (cl_range env) (cl_file_env env)
             (fetch_direct_args_of (cl_read env) a) (cl_files env w) of
        (code, fs) \<Rightarrow> (code, cl_with_files env fs w))"

definition run_command ::
  "('p, 'm, 'r, 'w) cli_env \<Rightarrow> command \<Rightarrow> (int \<times> ('m, 'w) effect) option" where
  "run_command env c =
     (case c of
        Fetch reference output bee_url \<Rightarrow>
          Some (map_prod id Files (fetch_command (cl_hex_vec env) (cl_client env bee_url) (cl_chunk env bee_url) (cl_span env)
                  (cl_range env) (cl_file_env env) reference output (cl_fs env)))
      | ProbeStorer a \<Rightarrow>
          Some (map_prod id Asked (probe_run (cl_hex_decode env) (cl_maddr env) (cl_identity env (pc_keys a)) (cl_probe env a)
                  (probe_args_of (cl_read env) a)))
      | Crawl a \<Rightarrow>
          map_option (map_prod id (Wrote (cc_out_csv a)))
            (crawl_run (cl_hex_encode env) (cl_hex_decode env) (cl_maddr env) (cl_protocols env) (cl_to_string env)
               (cl_identity env (cc_keys a)) (cl_built env) (cl_crawl_input env) (cl_csv_fault env)
               (crawl_args_of (cl_read env) a) (cl_read env (cc_out_csv a)))
      | FetchDirect a \<Rightarrow>
          Some (map_prod id World (fetch_direct_run (cl_hex_decode env) (cl_identity env (fc_keys a)) (cl_remove env)
                  (cl_scheduled env a) (verify_in env a) (fetch_direct_args_of (cl_read env) a) (cl_world env)))
      | ProbeGrowth a \<Rightarrow>
          Some (map_prod id Measured (growth_run (cl_hex_decode env) (cl_maddr env) (cl_price env) (cl_identity env (pc_keys a))
                  (cl_measure env a) (gc_growth_secs a) (gc_ceiling_secs a) (gc_lambda_samples a) (gc_prepay_chunks a)
                  (probe_args_of (cl_read env) a)))
      | FundChequebook a \<Rightarrow>
          Some (map_prod id Transferred (fund_run (cl_hex_decode env) (cl_identity env (fund_keys a)) (cl_chain env (uc_rpc_url a))
                  (uc_amount_plur a) (uc_chequebook a))))"

definition untouched :: "('p, 'm, 'r, 'w) cli_env \<Rightarrow> ('m, 'w) effect \<Rightarrow> bool" where
  "untouched env eff =
     (case eff of
        Files fs \<Rightarrow> fs = cl_fs env
      | Asked reqs \<Rightarrow> reqs = []
      | Wrote path csv \<Rightarrow> csv = cl_read env path
      | World w \<Rightarrow> w = cl_world env
      | Measured ms \<Rightarrow> ms = []
      | Transferred txs \<Rightarrow> txs = [])"

section \<open>Exit codes\<close>

lemma probe_run_codes:
  "probe_run hex maddr ident probe args = (code, reqs) \<Longrightarrow> code \<in> {0, 1, 2} \<and> (code = 2 \<longrightarrow> reqs = [])"
  by (auto simp: probe_run_def Let_def split: option.splits if_splits)

lemma growth_run_codes:
  "growth_run hex maddr price ident storer g c n p args = (code, ms) \<Longrightarrow> code \<in> {0, 1, 2} \<and> (code = 2 \<longrightarrow> ms = [])"
  by (auto simp: growth_run_def Let_def split: option.splits if_splits)

lemma crawl_run_codes:
  "crawl_run he hex maddr pr ts ident built inp fault args csv = Some (code, csv') \<Longrightarrow> code \<in> {0, 1, 2} \<and> (code = 2 \<longrightarrow> csv' = csv)"
  by (auto simp: crawl_run_def Let_def split: sum.splits option.splits if_splits)

lemma fund_run_codes: "fund_run hex ident chain amount book = (code, txs) \<Longrightarrow> code \<in> {0, 1, 2} \<and> (code = 2 \<longrightarrow> txs = [])"
  by (auto simp: fund_run_def split: option.splits prod.splits sum.splits)

lemma fetch_command_codes:
  "fetch_command hex client chunk span rng env reference output fs = (code, fs') \<Longrightarrow> code \<in> {0, 1, 2} \<and> (code = 2 \<longrightarrow> fs' = fs)"
  by (auto simp: fetch_command_def Let_def split: sum.splits prod.splits if_splits)

lemma verify_run_codes:
  "verify_run hex opened span rng env args fs = (code, fs') \<Longrightarrow> code \<in> {0, 1, 2} \<and>
    (code = 2 \<longrightarrow> fs' = fs \<and> (fa_reference args = None \<or> (\<exists>r. fa_reference args = Some r \<and> parse_hex hex 32 r = None)))"
  by (auto simp: verify_run_def Let_def split: option.splits sum.splits prod.splits)

lemma fetch_direct_run_codes:
  assumes "fetch_direct_run hex ident remove fetch verify args w = (code, w')"
    and "\<And>w1. fst (verify w1) \<in> {0, 1, 2}"
  shows "code \<in> {0, 1, 2} \<and> (code = 2 \<longrightarrow> w' = w \<or> fa_verify args \<and> (\<exists>w1. verify w1 = (2, w')))"
proof -
  have v: "fst (verify w1) = 0 \<or> fst (verify w1) = 1 \<or> fst (verify w1) = 2" for w1 using assms(2) [of w1] by simp
  show ?thesis
    using assms(1) v
    by (auto simp: fetch_direct_run_def split: sum.splits option.splits prod.splits if_splits) (metis fst_conv)+
qed

lemma coverage_of_None: "coverage_of c chunks d = None \<Longrightarrow> 32 < d"
  using coverage_of_spec [of d c chunks] by (cases "d \<le> 32") simp_all

lemma crawl_run_panics:
  "crawl_run he hex maddr pr ts ident built inp fault args csv = None \<Longrightarrow> 32 < ca_depth args"
  by (auto simp: crawl_run_def Let_def dest: coverage_of_None split: sum.splits option.splits if_splits)

lemma verify_in_codes:
  "verify_in env a w = (code, w') \<Longrightarrow> code \<in> {0, 1, 2} \<and>
    (code = 2 \<longrightarrow> fc_reference a = None \<or> (\<exists>r. fc_reference a = Some r \<and> parse_hex (cl_hex_decode env) 32 r = None))"
  using verify_run_codes [of "cl_hex_decode env" "cl_opened env (fc_store_base a) w" "cl_span env" "cl_range env" "cl_file_env env"
      "fetch_direct_args_of (cl_read env) a" "cl_files env w"]
  by (auto simp: verify_in_def fetch_direct_args_of_def split: prod.splits)

text \<open>
  The verification asks for the reference only after the fetch: with no reference the command
  exits with the code for bad arguments on the world its fetches have left.
\<close>
lemma verify_rejected_late:
  assumes "load_chunks (cl_hex_decode env) (fc_max_chunks a) (cl_read env (fc_chunks_csv a)) = Inr chunks" "chunks \<noteq> []"
    and "parse_hex (cl_hex_decode env) 20 (fc_chequebook a) = Some book" "cl_identity env (fc_keys a) = Some i"
    and "load_topology (cl_hex_decode env) (id_overlay i) (cl_read env (fc_topology_csv a)) = Inr cache"
    and "repeat_fetch (cl_remove env) (cl_scheduled env a i cache chunks (direct_options (fetch_direct_args_of (cl_read env) a)) book)
        (fc_store_base a) [1..<Suc (max 1 (fc_repeat a))] None (cl_world env) = (Inr report, w1)"
    and "fc_verify a" "fc_reference a = None"
  shows "run_command env (FetchDirect a) = Some (2, World (cl_with_files env (cl_files env w1) w1))"
  using assms by (simp add: run_command_def fetch_direct_run_def fetch_direct_args_of_def verify_in_def verify_run_def)

text \<open>
  A fetch that finds every chunk in the store returns before it dials, with a report of zeros; so the
  command exits with 1 although there is nothing left to fetch.
\<close>

definition resumed_report :: "nat \<Rightarrow> schedule_report" where
  "resumed_report n =
     \<lparr>sr_connections_opened = 0, sr_chunks_total = n, sr_chunks_from_direct = 0, sr_chunks_from_fallback = 0,
      sr_chunks_dropped_uncovered = 0, sr_chunks_failed = 0, sr_direct_bytes = 0, sr_fallback_bytes = 0, sr_cheques_issued = 0,
      sr_cheque_plur = 0, sr_refresh_units = 0, sr_residual_debt_units = 0, sr_surplus_parked_units = 0,
      sr_zero_confirmed_conns = 0, sr_lambdas_measured = 0, sr_errors = []\<rparr>"

lemma complete_store_exits_one:
  assumes "load_chunks (cl_hex_decode env) (fc_max_chunks a) (cl_read env (fc_chunks_csv a)) = Inr chunks" "chunks \<noteq> []"
    and "parse_hex (cl_hex_decode env) 20 (fc_chequebook a) = Some book" "cl_identity env (fc_keys a) = Some i"
    and "load_topology (cl_hex_decode env) (id_overlay i) (cl_read env (fc_topology_csv a)) = Inr cache"
    and "\<And>iter w. cl_scheduled env a i cache chunks (direct_options (fetch_direct_args_of (cl_read env) a)) book iter w
        = (Some (resumed_report (length chunks)), w)"
    and "fc_repeat a \<le> 1" "\<not> fc_verify a"
  shows "run_command env (FetchDirect a) = Some (1, World (cl_world env))"
proof -
  have "max 1 (fc_repeat a) = 1" using assms(7) by simp
  then show ?thesis
    using assms by (simp add: run_command_def fetch_direct_run_def fetch_direct_args_of_def resumed_report_def)
qed

section \<open>Progress\<close>

text \<open>
  The progress line of the fetch command, at most one every two seconds: the state is the time and
  the count of the last line, the output the bytes since then and the milliseconds they took.
\<close>

definition progress_tick :: "nat \<Rightarrow> u64 \<Rightarrow> nat \<times> u64 \<Rightarrow> (u64 \<times> nat) option \<times> nat \<times> u64" where
  "progress_tick now bytes_done prev =
     (let dt = now - fst prev in
      if dt < 2000 then (None, prev) else (Some (bytes_done - snd prev, dt), now, bytes_done))"

fun progress_lines :: "(nat \<times> u64) list \<Rightarrow> nat \<times> u64 \<Rightarrow> (u64 \<times> nat) list \<times> nat \<times> u64" where
  "progress_lines [] prev = ([], prev)"
| "progress_lines ((now, bytes_done) # ticks) prev =
     (case progress_tick now bytes_done prev of
        (line, prev1) \<Rightarrow>
          (case progress_lines ticks prev1 of (lines, prev2) \<Rightarrow> (case line of None \<Rightarrow> lines | Some l \<Rightarrow> l # lines, prev2)))"

lemma progress_lines_add_up:
  "progress_lines ticks prev = (lines, prev') \<Longrightarrow> snd prev + sum_list (map fst lines) = snd prev' \<and> (\<forall>l \<in> set lines. 2000 \<le> snd l)"
proof (induction ticks prev arbitrary: lines prev' rule: progress_lines.induct)
  case (2 now d ticks prev)
  obtain line prev1 where l1: "progress_tick now d prev = (line, prev1)" by (metis prod.collapse)
  obtain ls prev2 where l2: "progress_lines ticks prev1 = (ls, prev2)" by (metis prod.collapse)
  from "2.IH" [OF l1 [symmetric] l2] "2.prems" l1 l2 show ?case
    by (auto simp: progress_tick_def Let_def algebra_simps split: if_splits option.splits)
qed simp

section \<open>A sample command line\<close>

text \<open>No file can be read and no hexadecimal text decoded; a direct fetch counts the calls of the scheduler.\<close>

definition sample_cli :: "(nat, nat, u64, nat) cli_env" where
  "sample_cli = \<lparr>cl_hex_vec = \<lambda>_. None, cl_hex_decode = \<lambda>_ _. None, cl_hex_encode = \<lambda>_. [], cl_maddr = \<lambda>_. None,
     cl_protocols = \<lambda>_. [], cl_to_string = \<lambda>_. [], cl_read = \<lambda>_. None, cl_identity = \<lambda>_. None, cl_client = \<lambda>_. True,
     cl_chunk = \<lambda>_ _. None, cl_span = \<lambda>s. (0, s), cl_range = \<lambda>s _ _. Some s, cl_file_env = File_Fetch.sample_env,
     cl_fs = \<lambda>_. \<lparr>fd_out = None, fd_sidecar = None\<rparr>, cl_probe = \<lambda>_ _ _. None, cl_price = \<lambda>_ _. 1000,
     cl_measure = \<lambda>_ _ _ _. False, cl_built = True, cl_crawl_input = sample_crawl_input, cl_csv_fault = NoFault,
     cl_remove = \<lambda>_ w. w, cl_scheduled = \<lambda>_ _ _ _ _ _ _ w. (Some (resumed_report 0), w + 1), cl_opened = \<lambda>_ _. None,
     cl_files = \<lambda>_ _. \<lparr>fd_out = None, fd_sidecar = None\<rparr>, cl_with_files = \<lambda>_ w. w, cl_world = 0,
     cl_chain = \<lambda>_ _. \<lparr>ce_wallet_before = None, ce_book_before = None, ce_nonce = None, ce_calldata = \<lambda>_ _. [],
       ce_sign = \<lambda>_. None, ce_send = \<lambda>_. False, ce_receipt = \<lambda>_. None, ce_wallet_after = None, ce_book_after = None\<rparr>\<rparr>"

section \<open>Properties\<close>



end
