(* ===== verification/Drive_Progress.thy ===== *)
theory Drive_Progress
  imports Issuer
begin

text \<open>
  When the drive loop of a connection (\<^verbatim>\<open>drive\<close> of \<^verbatim>\<open>rust/ds-net/src/schedule.rs\<close>) ends. With a live
  peer every pass in which a fetch returns brings it nearer its end, and with nothing in flight only
  the admission gate can hold it. A connection told to wind down does not need the gate. A peer can
  keep the gate shut: one that announces a threshold below the price of a chunk holds the connection
  for ever.
\<close>

section \<open>Passes\<close>

text \<open>The state after the admission of a pass.\<close>

definition pass_halted :: "conn_args \<Rightarrow> drive_input \<Rightarrow> drive_state \<Rightarrow> bool" where
  "pass_halted a inp st \<longleftrightarrow> dv_spend_stop (spend_check a st) \<or> in_wind_down inp"

definition pass_admitted ::
  "(swarm_address \<Rightarrow> swarm_address \<Rightarrow> u64) \<Rightarrow> conn_args \<Rightarrow> drive_input \<Rightarrow> drive_state \<Rightarrow> drive_state" where
  "pass_admitted pp a inp st =
     (let st1 = spend_check a st; st2 = (if pass_halted a inp st then take_pending st1 else st1)
      in if dv_finishing st2 \<or> pass_halted a inp st then st2 else admit_loop pp a (in_now inp) st2)"

section \<open>Admission\<close>

lemma work_left_cong:
  "sh_pool (dv_shared st') = sh_pool (dv_shared st) \<Longrightarrow> dv_pending st' = dv_pending st \<Longrightarrow> work_left a st' = work_left a st"
  by (simp add: work_left_def)

definition admits :: "conn_args \<Rightarrow> drive_state \<Rightarrow> drive_state \<Rightarrow> bool" where
  "admits a st st' \<longleftrightarrow> work_left a st' + length (dv_tasks st') \<le> work_left a st + length (dv_tasks st)
     \<and> (dv_pending st' = None \<longrightarrow> dv_bucket_drained st' \<or> ca_pipeline a \<le> tasks_len st')
     \<and> dv_finishing st' = dv_finishing st \<and> pa_last_cheque (dv_pacer st') = pa_last_cheque (dv_pacer st)"

lemma admit_last_cheque: "admit now price p = (ok, p') \<Longrightarrow> pa_last_cheque p' = pa_last_cheque p"
  by (auto simp: admit_def unvalidated_sum_def Let_def split: prod.splits)

lemma admit_loop_admits: "admits a st (admit_loop pp a now st)"
proof (induction rule: admit_loop_rule)
  case (full st)
  then show ?case by (simp add: admits_def)
next
  case (drained st)
  then show ?case by (simp add: admits_def work_left_def)
next
  case (skipped st st1 addr st')
  then show ?case using next_chunk_fields [OF skipped.hyps(2)] by (auto simp: admits_def)
next
  case (admitted st st1 addr p st')
  then show ?case
    using next_chunk_fields [OF admitted.hyps(2)] admit_last_cheque [OF admitted.hyps(3)]
    by (auto simp: admits_def tasks_len_def work_left_def)
next
  case (refused st st1 addr p)
  then show ?case
    using next_chunk_fields [OF refused.hyps(2)] admit_last_cheque [OF refused.hyps(3)]
    by (simp add: admits_def work_left_def)
qed

text \<open>A chunk left pending with room in the pipeline has been refused by the gate.\<close>

definition refused_by_gate :: "u64 \<Rightarrow> pacer \<Rightarrow> bool" where
  "refused_by_gate price p \<longleftrightarrow> admit_limit p (sum_list (map snd (pa_unvalidated p)))
     < sat_add (sat_add (mi_balance (pa_mirror p)) (mi_reserved (pa_mirror p))) price"

lemma admit_refused: "admit now price p = (False, p') \<Longrightarrow> refused_by_gate price p'"
  by (auto simp: admit_def unvalidated_sum_def Let_def try_reserve_def admit_limit_def threshold_def refused_by_gate_def
      split: prod.splits if_splits)

lemma admit_loop_refused:
  "dv_pending (admit_loop pp a now st) = Some x \<Longrightarrow> tasks_len (admit_loop pp a now st) < ca_pipeline a \<Longrightarrow>
    refused_by_gate (pp (ca_overlay a) x) (dv_pacer (admit_loop pp a now st))"
proof -
  have "dv_pending (admit_loop pp a now st) = Some x \<and> tasks_len (admit_loop pp a now st) < ca_pipeline a \<longrightarrow>
      refused_by_gate (pp (ca_overlay a) x) (dv_pacer (admit_loop pp a now st))"
    by (induction rule: admit_loop_rule) (auto dest: admit_refused next_chunk_None)
  then show "dv_pending (admit_loop pp a now st) = Some x \<Longrightarrow> tasks_len (admit_loop pp a now st) < ca_pipeline a \<Longrightarrow>
    refused_by_gate (pp (ca_overlay a) x) (dv_pacer (admit_loop pp a now st))" by blast
qed

text \<open>The passes that leave a chunk refused with nothing in flight.\<close>

definition gate_shut ::
  "(swarm_address \<Rightarrow> swarm_address \<Rightarrow> u64) \<Rightarrow> conn_args \<Rightarrow> drive_input \<Rightarrow> drive_state \<Rightarrow> bool" where
  "gate_shut pp a inp st \<longleftrightarrow> (let q = pass_admitted pp a inp st
     in \<not> pass_halted a inp st \<and> tasks_len q = 0
        \<and> (\<exists>x. dv_pending q = Some x \<and> refused_by_gate (pp (ca_overlay a) x) (dv_pacer q)))"

lemma sat_add_zero: "sat_add 0 w = (w :: u64)"
proof -
  have "unat w < 2 ^ LENGTH(64)" by (rule unsigned_less)
  then show ?thesis by (simp add: sat_add_def)
qed

text \<open>
  The gate stands between a loop with nothing in flight and its next chunk only because the chunk is
  dearer than the limit, or the peer is owed something, or has been paid too recently.
\<close>
lemma gate_shut_reason:
  assumes "gate_shut pp a inp st" "drive_ok (pass_admitted pp a inp st)" "q = dv_pacer (pass_admitted pp a inp st)"
    and "pa_prepaid q = 0" "mi_balance (pa_mirror q) = 0" "pa_unvalidated q = []"
  shows "\<exists>x. dv_pending (pass_admitted pp a inp st) = Some x \<and> sat_mul (threshold q) 105 div 100 < pp (ca_overlay a) x"
proof -
  have "dv_tasks (pass_admitted pp a inp st) = []" using assms(1) by (simp add: gate_shut_def Let_def tasks_len_def)
  from drive_ok_exit [OF assms(2) this] show ?thesis
    using assms(1,3-6) by (auto simp: gate_shut_def Let_def refused_by_gate_def admit_limit_def sat_add_zero sat_sub_def)
qed

section \<open>One pass\<close>

text \<open>
  A pass moves on when a fetch returns in it, or when nothing is in flight and the gate does not hold
  the next chunk.
\<close>

definition moves_on ::
  "(bytes \<Rightarrow> string) \<Rightarrow> (swarm_address \<Rightarrow> swarm_address \<Rightarrow> u64) \<Rightarrow> conn_args \<Rightarrow> drive_input \<Rightarrow> drive_state \<Rightarrow> bool" where
  "moves_on h pp a inp st \<longleftrightarrow> (let q = pass_admitted pp a inp st
     in length (dv_tasks (finish_tasks h (in_net inp) (in_done_admitted inp) q)) < length (dv_tasks q)
        \<or> tasks_len q = 0 \<and> \<not> gate_shut pp a inp st)"

lemma finish_tasks_len:
  "tasks_len (finish_tasks h net is st) = tasks_len st" "length (dv_tasks (finish_tasks h net is st)) \<le> length (dv_tasks st)"
  "dv_bucket_drained (finish_tasks h net is st) = dv_bucket_drained st"
proof -
  have one: "tasks_len (finish_task h net i st) = tasks_len st" "length (dv_tasks (finish_task h net i st)) \<le> length (dv_tasks st)"
      "dv_bucket_drained (finish_task h net i st) = dv_bucket_drained st" for i st
    by (auto simp: finish_task_def tasks_len_def Let_def split: prod.split option.split)
  show "tasks_len (finish_tasks h net is st) = tasks_len st" "dv_bucket_drained (finish_tasks h net is st) = dv_bucket_drained st"
    by (induction "is" arbitrary: st) (simp_all add: finish_tasks_def one)
  show "length (dv_tasks (finish_tasks h net is st)) \<le> length (dv_tasks st)"
  proof (induction "is" arbitrary: st)
    case (Cons i "is")
    then show ?case using one(2) [of i st] le_trans by (fastforce simp: finish_tasks_def)
  qed (simp add: finish_tasks_def)
qed

text \<open>The settling half of a pass leaves the loop's work as it is.\<close>

definition settles :: "nat \<Rightarrow> drive_state \<Rightarrow> drive_state \<Rightarrow> bool" where
  "settles now st st' \<longleftrightarrow> tasks_len st' = tasks_len st \<and> length (dv_tasks st') \<le> length (dv_tasks st) \<and> dv_pending st' = dv_pending st
     \<and> dv_finishing st' = dv_finishing st \<and> dv_bucket_drained st' = dv_bucket_drained st
     \<and> dv_spend_stop st' = dv_spend_stop st \<and> sh_pool (dv_shared st') = sh_pool (dv_shared st)
     \<and> (pa_last_cheque (dv_pacer st') = pa_last_cheque (dv_pacer st) \<or> pa_last_cheque (dv_pacer st') = Some now)"

lemma settles_refl [simp]: "settles now st st"
  by (simp add: settles_def)

lemma settles_trans: "settles now a b \<Longrightarrow> settles now b c \<Longrightarrow> settles now a c"
  by (auto simp: settles_def)

lemma finish_settles:
  assumes "same_work (dv_shared st) sh" "pa_last_cheque p = pa_last_cheque (dv_pacer st) \<or> pa_last_cheque p = Some now"
  shows "settles now st (finish_tasks h net is (st\<lparr>dv_pacer := p, dv_shared := sh\<rparr>))"
proof -
  let ?st = "st\<lparr>dv_pacer := p, dv_shared := sh\<rparr>"
  have "tasks_len ?st = tasks_len st" by (simp add: tasks_len_def)
  then show ?thesis
    using assms finish_tasks_len [of h net "is" ?st] finish_tasks_frame [of h net "is" ?st] by (simp add: settles_def same_work_def)
qed

lemma drive_refresh_settles: "settles (in_now inp) st (drive_refresh h inp st)"
proof -
  obtain p sh where r: "refresh (in_refresh inp) (in_now inp) (dv_pacer st, dv_shared st) = (p, sh)" by force
  show ?thesis
    using finish_settles [OF refresh_fields(1) [OF r]] refresh_fields(4) [OF r] r by (simp add: drive_refresh_def)
qed

lemma drive_prepay_settles: "settles (in_now inp) st (drive_prepay tools h a inp st)"
proof -
  obtain r p sh where e: "emit_prepay tools a (in_env inp) (in_now inp)
      (prepay_target a st - pa_prepaid (dv_pacer st)) (dv_pacer st, dv_shared st) = (r, p, sh)"
    by (metis prod_cases3)
  have "pa_last_cheque p = pa_last_cheque (dv_pacer st) \<or> pa_last_cheque p = Some (in_now inp)"
    using e by (auto simp: emit_prepay_def split: prod.splits sum.splits)
  from finish_settles [OF emit_prepay_fields(1) [OF e] this] show ?thesis
    using e by (simp add: drive_prepay_def Let_def)
qed

lemma drive_cheque_settles:
  assumes "\<not> dv_finishing st" "drive_cheque tools h a inp halted st = (r, st')"
  shows "r = None" "settles (in_now inp) st st'"
proof -
  obtain e p sh where em: "emit tools a (in_env inp) (in_now inp) (drive_residual st) (dv_pacer st, dv_shared st) = (e, p, sh)"
    by (metis prod_cases3)
  let ?st1 = "finish_tasks h (in_net inp) (in_done_emitted inp) (st\<lparr>dv_pacer := p, dv_shared := sh\<rparr>)"
  have "pa_last_cheque p = pa_last_cheque (dv_pacer st) \<or> pa_last_cheque p = Some (in_now inp)"
    using em by (auto simp: emit_def split: prod.splits sum.splits)
  from finish_settles [OF emit_fields(1) [OF em] this] have i: "settles (in_now inp) st ?st1" .
  have "(r, st') = (None, st) \<or> (r, st') = (None, ?st1)"
    using assms em finish_tasks_frame(2) [of h "in_net inp" "in_done_emitted inp" "st\<lparr>dv_pacer := p, dv_shared := sh\<rparr>"]
    by (auto simp: drive_cheque_def Let_def split: if_splits sum.splits)
  then show "r = None" "settles (in_now inp) st st'" using i by auto
qed

lemma drive_iter_body:
  assumes "in_alive inp"
  shows "drive_iter tools h pp a inp st =
     (let hl = pass_halted a inp st;
          st5 = drive_refresh h inp ((finish_tasks h (in_net inp) (in_done_admitted inp) (pass_admitted pp a inp st))\<lparr>dv_unreaped := 0\<rparr>)
      in if ca_prepay a \<and> \<not> dv_finishing st5 \<and> \<not> hl then drive_transition hl (drive_prepay tools h a inp st5)
         else case drive_cheque tools h a inp hl st5 of
                (Some r, st6) \<Rightarrow> (Some r, st6) | (None, st6) \<Rightarrow> drive_transition hl st6)"
  using assms by (simp add: drive_iter_def pass_admitted_def pass_halted_def Let_def)

lemma transition_steps:
  assumes "\<not> dv_finishing st" "drive_transition hl st = (r, st')"
  shows "r \<noteq> None \<or> pa_last_cheque (dv_pacer st') = pa_last_cheque (dv_pacer st)
    \<and> (if dv_pending st = None \<and> tasks_len st = 0 \<and> (dv_bucket_drained st \<or> hl) then sweeping st' else st' = st)"
  using assms by (auto simp: drive_transition_def Let_def sweeping_def tasks_len_def split: if_splits)

text \<open>The chunks a connection still has to see off: those in its bucket, the one pending, those in flight.\<close>

definition ahead :: "conn_args \<Rightarrow> drive_state \<Rightarrow> nat" where
  "ahead a st = work_left a st + length (dv_tasks st)"

lemma admitted_fields:
  assumes "\<not> dv_finishing st" "q = pass_admitted pp a inp st"
  shows "\<not> dv_finishing q" "pa_last_cheque (dv_pacer q) = pa_last_cheque (dv_pacer st)" "ahead a q \<le> ahead a st"
    "dv_spend_stop st \<Longrightarrow> dv_spend_stop q" "pass_halted a inp st \<Longrightarrow> dv_tasks q = dv_tasks st"
    "0 < ca_pipeline a \<Longrightarrow> tasks_len q = 0 \<Longrightarrow> \<not> gate_shut pp a inp st \<Longrightarrow>
      dv_pending q = None \<and> (dv_bucket_drained q \<or> pass_halted a inp st)"
proof -
  let ?c = "spend_check a st"
  have chk: "dv_tasks ?c = dv_tasks st" "dv_finishing ?c = dv_finishing st" "work_left a ?c = work_left a st"
      "dv_pacer ?c = dv_pacer st" "dv_pending ?c = dv_pending st" "dv_spend_stop st \<Longrightarrow> dv_spend_stop ?c"
    by (simp_all add: spend_check_def work_left_def Let_def)
  have halted: "q = take_pending ?c" if "pass_halted a inp st" using that assms(2) by (simp add: pass_admitted_def Let_def)
  have go: "q = admit_loop pp a (in_now inp) ?c" if "\<not> pass_halted a inp st"
    using that assms chk by (simp add: pass_admitted_def Let_def)
  have tp: "dv_finishing (take_pending x) = dv_finishing x" "ahead a (take_pending x) \<le> ahead a x"
      "pa_last_cheque (dv_pacer (take_pending x)) = pa_last_cheque (dv_pacer x)" "dv_tasks (take_pending x) = dv_tasks x"
      "dv_spend_stop (take_pending x) = dv_spend_stop x" for x
    by (simp_all add: take_pending_def ahead_def work_left_def send_fallback_def split: option.split)
  note adm = admit_loop_admits [of a ?c pp "in_now inp"]
  show "\<not> dv_finishing q" "pa_last_cheque (dv_pacer q) = pa_last_cheque (dv_pacer st)" "ahead a q \<le> ahead a st"
    using halted go tp [of ?c] chk adm assms(1) by (cases "pass_halted a inp st"; simp add: admits_def ahead_def)+
  show "dv_tasks q = dv_tasks st" if "pass_halted a inp st" using halted [OF that] tp [of ?c] chk by simp
  show "dv_spend_stop q" if s: "dv_spend_stop st"
    using halted tp [of ?c] chk(6) [OF s] by (simp add: pass_halted_def)
  show "dv_pending q = None \<and> (dv_bucket_drained q \<or> pass_halted a inp st)"
    if "0 < ca_pipeline a" "tasks_len q = 0" "\<not> gate_shut pp a inp st"
  proof (cases "pass_halted a inp st")
    case True
    then show ?thesis using halted take_pending_fields by simp
  next
    case False
    then have "dv_pending q = None"
      using that go admit_loop_refused [of pp a "in_now inp" ?c] assms(2)
      by (cases "dv_pending q") (auto simp: gate_shut_def Let_def)
    then show ?thesis using adm that(1,2) go [OF False] by (auto simp: admits_def)
  qed
qed

lemma pass_progress:
  assumes it: "drive_iter tools h pp a inp st = (r, st')" and alive: "in_alive inp" and nf: "\<not> dv_finishing st"
    and pl: "0 < ca_pipeline a"
  shows "r \<noteq> None
    \<or> (pa_last_cheque (dv_pacer st') = pa_last_cheque (dv_pacer st) \<or> pa_last_cheque (dv_pacer st') = Some (in_now inp))
      \<and> (sweeping st' \<or> \<not> dv_finishing st' \<and> (dv_spend_stop st \<longrightarrow> dv_spend_stop st')
          \<and> ahead a st' + (if moves_on h pp a inp st then 1 else 0) \<le> ahead a st
          \<and> (pass_halted a inp st \<longrightarrow> length (dv_tasks st') + (if moves_on h pp a inp st then 1 else 0) \<le> length (dv_tasks st)))"
proof -
  define hl where "hl = pass_halted a inp st"
  define q where "q = pass_admitted pp a inp st"
  define d where "d = finish_tasks h (in_net inp) (in_done_admitted inp) q"
  define st4 where "st4 = d\<lparr>dv_unreaped := 0\<rparr>"
  define st5 where "st5 = drive_refresh h inp st4"
  note adm = admitted_fields [OF nf q_def]
  note fr = finish_tasks_frame [of h "in_net inp" "in_done_admitted inp" q, folded d_def]
    finish_tasks_len [of h "in_net inp" "in_done_admitted inp" q, folded d_def]
  have i5: "settles (in_now inp) st4 st5" unfolding st5_def by (rule drive_refresh_settles)
  have nf4: "\<not> dv_finishing st4" using adm(1) fr by (simp add: st4_def)
  then have nf5: "\<not> dv_finishing st5" using i5 by (simp add: settles_def)
  obtain st6 where i6: "settles (in_now inp) st4 st6" and tr: "drive_transition hl st6 = (r, st')"
  proof (cases "ca_prepay a \<and> \<not> hl")
    case True
    then show thesis
      using that [OF settles_trans [OF i5 drive_prepay_settles]] it nf5
      by (simp add: drive_iter_body [OF alive] Let_def hl_def [symmetric] q_def [symmetric] d_def [symmetric]
          st4_def [symmetric] st5_def [symmetric])
  next
    case False
    then have no: "\<not> (ca_prepay a \<and> \<not> dv_finishing st5 \<and> \<not> hl)" by blast
    obtain v st6 where c: "drive_cheque tools h a inp hl st5 = (v, st6)" by force
    show thesis
      using that [OF settles_trans [OF i5 drive_cheque_settles(2) [OF nf5 c]]] drive_cheque_settles(1) [OF nf5 c] it c
      by (simp add: if_not_P [OF no] drive_iter_body [OF alive] Let_def hl_def [symmetric] q_def [symmetric] d_def [symmetric]
          st4_def [symmetric] st5_def [symmetric])
  qed
  have lc: "pa_last_cheque (dv_pacer st6) = pa_last_cheque (dv_pacer st) \<or> pa_last_cheque (dv_pacer st6) = Some (in_now inp)"
    using i6 adm(2) fr by (simp add: settles_def st4_def)
  have work: "work_left a st6 = work_left a q" using i6 fr by (intro work_left_cong) (simp_all add: settles_def st4_def)
  have le: "ahead a st6 + (if length (dv_tasks d) < length (dv_tasks q) then 1 else 0) \<le> ahead a st"
    using adm(3) i6 fr work by (simp add: ahead_def settles_def st4_def)
  have tasks: "length (dv_tasks st6) + (if length (dv_tasks d) < length (dv_tasks q) then 1 else 0) \<le> length (dv_tasks st)"
    if "pass_halted a inp st"
    using adm(5) [OF that] i6 fr by (simp add: settles_def st4_def)
  have stop: "dv_spend_stop st \<longrightarrow> dv_spend_stop st6" using adm(4) i6 fr by (simp add: settles_def st4_def)
  have "\<not> dv_finishing st6" using i6 nf4 by (simp add: settles_def)
  from transition_steps [OF this tr] consider "r \<noteq> None"
    | (sweep) "sweeping st'" "pa_last_cheque (dv_pacer st') = pa_last_cheque (dv_pacer st6)"
    | (go) "st' = st6" "\<not> (dv_pending st6 = None \<and> tasks_len st6 = 0 \<and> (dv_bucket_drained st6 \<or> hl))"
    by (auto split: if_splits)
  then show ?thesis
  proof cases
    case go
    have "\<not> (tasks_len q = 0 \<and> \<not> gate_shut pp a inp st)"
    proof
      assume c: "tasks_len q = 0 \<and> \<not> gate_shut pp a inp st"
      then have "dv_tasks d = []" using fr by (simp add: tasks_len_def)
      then have "tasks_len st6 = 0" using i6 by (simp add: settles_def st4_def tasks_len_def)
      then show False using adm(6) [OF pl] c go(2) i6 fr by (auto simp: settles_def st4_def hl_def)
    qed
    then have "moves_on h pp a inp st \<longleftrightarrow> length (dv_tasks d) < length (dv_tasks q)"
      by (auto simp: moves_on_def Let_def q_def [symmetric] d_def [symmetric])
    then show ?thesis using go le tasks stop lc \<open>\<not> dv_finishing st6\<close> by simp
  qed (use lc in auto)
qed

section \<open>Runs\<close>

text \<open>The passes of a run that move on.\<close>

fun moves ::
  "cheque_tools \<Rightarrow> (bytes \<Rightarrow> string) \<Rightarrow> (swarm_address \<Rightarrow> swarm_address \<Rightarrow> u64) \<Rightarrow> conn_args \<Rightarrow>
   drive_input list \<Rightarrow> drive_state \<Rightarrow> nat" where
  "moves tools h pp a [] st = 0"
| "moves tools h pp a (inp # inps) st = (if moves_on h pp a inp st then 1 else 0)
     + (case drive_iter tools h pp a inp st of (Some _, _) \<Rightarrow> 0 | (None, st1) \<Rightarrow> moves tools h pp a inps st1)"

definition cheque_before :: "nat \<Rightarrow> drive_state \<Rightarrow> bool" where
  "cheque_before t st \<longleftrightarrow> (case pa_last_cheque (dv_pacer st) of None \<Rightarrow> True | Some u \<Rightarrow> u \<le> t)"

lemma cheque_before_open: "cheque_before t st \<Longrightarrow> t + CHEQUE_MIN_INTERVAL \<le> in_now inp \<Longrightarrow> cheque_open inp st"
  by (auto simp: cheque_before_def cheque_open_def due_def split: option.splits)

lemma sweep_ends:
  assumes "sweeping st" "cheque_before t st" "list_all in_alive inps"
    and "3 \<le> length (filter (\<lambda>inp. t + CHEQUE_MIN_INTERVAL \<le> in_now inp) inps)"
  shows "\<exists>v st'. drive_run tools h pp a inps st = (Some v, st')"
proof (rule sweep_run [OF assms(1) _ _ assms(3)])
  have "length (filter (\<lambda>inp. t + CHEQUE_MIN_INTERVAL \<le> in_now inp) inps) \<le> length (filter (\<lambda>inp. cheque_open inp st) inps)"
    using cheque_before_open [OF assms(2)] by (induction inps) auto
  then show "3 \<le> dv_sweep_attempts st + length (filter (\<lambda>inp. cheque_open inp st) inps)" using assms(4) by simp
  have "filter (\<lambda>inp. t + CHEQUE_MIN_INTERVAL \<le> in_now inp) inps \<noteq> []" using assms(4) by auto
  then show "list_ex (\<lambda>inp. cheque_open inp st) inps"
    using cheque_before_open [OF assms(2)] by (auto simp: list_ex_iff filter_empty_conv)
qed

lemma pass_sweeps:
  assumes "drive_iter tools h pp a inp st = (r, st')" "in_alive inp" "sweeping st"
  shows "r \<noteq> None \<or> sweeping st' \<and> pa_last_cheque (dv_pacer st') = pa_last_cheque (dv_pacer st)"
  using sweep_iter [OF assms(3,2,1)] by blast

lemma sweep_waits:
  assumes "sweeping st" "cheque_before t st" "list_all in_alive (xs @ ys)"
    and "3 \<le> length (filter (\<lambda>inp. t + CHEQUE_MIN_INTERVAL \<le> in_now inp) ys)"
  shows "\<exists>v st'. drive_run tools h pp a (xs @ ys) st = (Some v, st')"
  by (rule sweep_ends [OF assms(1-3)]) (use assms(4) in simp)

text \<open>A measure that every pass lowers in which the loop moves on bounds how often it does before it ends.\<close>
lemma measured_run_ends:
  assumes step: "\<And>inp st st'. inp \<in> set xs \<Longrightarrow> R st \<Longrightarrow> drive_iter tools h pp a inp st = (None, st') \<Longrightarrow>
      sweeping st' \<or> R st' \<and> \<mu> st' + (if moves_on h pp a inp st then 1 else 0) \<le> \<mu> st"
    and R: "R st" "\<And>st. R st \<Longrightarrow> \<not> dv_finishing st" and pl: "0 < ca_pipeline a" and alive: "list_all in_alive (xs @ ys)"
    and before: "cheque_before t st" "list_all (\<lambda>inp. in_now inp \<le> t) xs"
    and late: "3 \<le> length (filter (\<lambda>inp. t + CHEQUE_MIN_INTERVAL \<le> in_now inp) ys)"
  shows "(\<exists>v st'. drive_run tools h pp a (xs @ ys) st = (Some v, st')) \<or> moves tools h pp a xs st \<le> \<mu> st"
  using step R(1) alive before
proof (induction xs arbitrary: st)
  case (Cons inp xs)
  obtain r st1 where it: "drive_iter tools h pp a inp st = (r, st1)" by force
  have "in_alive inp" using Cons.prems(3) by simp
  note pass = pass_progress [OF it this R(2) [OF Cons.prems(2)] pl]
  show ?case
  proof (cases r)
    case None
    with pass have "pa_last_cheque (dv_pacer st1) = pa_last_cheque (dv_pacer st) \<or> pa_last_cheque (dv_pacer st1) = Some (in_now inp)"
      by auto
    then have b1: "cheque_before t st1" using Cons.prems(4,5) by (auto simp: cheque_before_def)
    from Cons.prems(1) [of inp st st1] Cons.prems(2) it None
    consider "sweeping st1" | (on) "R st1" "\<mu> st1 + (if moves_on h pp a inp st then 1 else 0) \<le> \<mu> st" by auto
    then show ?thesis
    proof cases
      case 1
      then show ?thesis using sweep_waits [OF _ b1 _ late, of xs tools h pp a] Cons.prems(3) it None by simp
    next
      case on
      have "(\<exists>v st'. drive_run tools h pp a (xs @ ys) st1 = (Some v, st')) \<or> moves tools h pp a xs st1 \<le> \<mu> st1"
        using Cons.prems(3,5) by (intro Cons.IH [OF Cons.prems(1) on(1) _ b1]) simp_all
      then show ?thesis using it None on(2) by auto
    qed
  qed (use it in simp)
qed simp

definition steady :: "drive_state \<Rightarrow> bool" where
  "steady st \<longleftrightarrow> \<not> dv_finishing st \<and> dv_tasks st = [] \<and> dv_unreaped st = 0"

section \<open>A gate that stays shut\<close>

text \<open>
  A connection that has neither debt nor prepaid units nor anything in flight, whose peer announced
  the threshold \<open>t\<close>: there is nothing to refresh and nothing to pay.
\<close>

definition unspent :: "conn_args \<Rightarrow> u64 \<Rightarrow> drive_state \<Rightarrow> bool" where
  "unspent a t st \<longleftrightarrow> steady st \<and> \<not> dv_spend_stop st \<and> threshold (dv_pacer st) = t \<and> pa_mirror (dv_pacer st) = mirror_default
     \<and> pa_prepaid (dv_pacer st) = 0 \<and> pa_unvalidated (dv_pacer st) = []
     \<and> (ucast (sp_issued (sh_spend (dv_shared st))) :: u128) \<le> ucast (ca_max_issue_plur a) * 92 div 100"

lemma unspent_refused:
  assumes un: "unspent a t st" and nx: "next_chunk a st = (Some x, st1)" and new: "\<not> store_contains x (fst (sh_store (dv_shared st)))"
    and low: "5 \<le> t" "sat_mul t 105 div 100 < pp (ca_overlay a) x" and a: "\<not> ca_prepay a" "0 < ca_pipeline a"
    and inp: "in_alive inp" "\<not> in_wind_down inp"
  shows "\<exists>st'. drive_iter tools h pp a inp st = (None, st') \<and> unspent a t st' \<and> dv_pending st' = Some x \<and> dv_shared st' = dv_shared st1"
proof -
  let ?price = "pp (ca_overlay a) x"
  note n = next_chunk_fields [OF nx]
  have sh: "sh_store (dv_shared st1) = sh_store (dv_shared st)" "sh_spend (dv_shared st1) = sh_spend (dv_shared st)"
    using nx by (auto simp: next_chunk_def split: option.splits prod.splits)
  have chk: "spend_check a st = st"
    using un by (auto simp: unspent_def spend_check_def Let_def mirror_default_def sat_sub_def)
  have go: "\<not> pass_halted a inp st" using chk un inp by (simp add: pass_halted_def unspent_def)
  define p where "p = (dv_pacer st)\<lparr>pa_avg_price := max ?price 1\<rparr>"
  define q where "q = st1\<lparr>dv_pacer := p, dv_pending := Some x\<rparr>"
  have thr: "threshold p = t" using un by (simp add: p_def unspent_def threshold_def)
  have "admit (in_now inp) ?price p = (False, p)"
    using un low thr by (simp add: admit_def unvalidated_sum_def admit_limit_def p_def unspent_def try_reserve_def
        mirror_default_def sat_add_zero sat_sub_def threshold_def)
  then have "admit_loop pp a (in_now inp) st = q"
    using nx new sh n a(2) un by (subst admit_loop.simps) (simp add: unspent_def steady_def tasks_len_def Let_def q_def p_def)
  then have adm: "pass_admitted pp a inp st = q"
    using chk go un by (simp add: pass_admitted_def Let_def unspent_def steady_def)
  have qu: "q\<lparr>dv_unreaped := 0\<rparr> = q" using un n by (simp add: q_def unspent_def steady_def)
  have uq: "unspent a t q" "dv_tasks q = []" "dv_unreaped q = 0" "\<not> dv_finishing q" "drive_residual q = 0"
    using un n thr sh by (simp_all add: q_def unspent_def steady_def p_def drive_residual_def mirror_default_def sat_sub_def)
  define r where "r = drive_refresh h inp q"
  have r: "unspent a t r" "dv_tasks r = []" "dv_unreaped r = 0" "\<not> dv_finishing r" "drive_residual r = 0"
      "dv_pending r = Some x" "dv_shared r = dv_shared st1"
    using uq by (auto simp: r_def drive_refresh_def refresh_def Let_def finish_tasks_none unspent_def steady_def threshold_def
        drive_residual_def q_def)
  have "\<not> t div 5 \<le> 0" using low(1) by (simp add: word_le_nat_alt unat_div div_eq_0_iff)
  then have "drive_cheque tools h a inp False r = (None, r)"
    using r by (simp add: drive_cheque_def Let_def unspent_def)
  moreover have "drive_transition False r = (None, r)" using r by (simp add: drive_transition_def Let_def)
  ultimately have "drive_iter tools h pp a inp st = (None, r)"
    using go r a(1) finish_tasks_none [OF uq(2)]
    by (simp add: drive_iter_body [OF inp(1)] Let_def adm qu r_def [symmetric])
  then show ?thesis using r by blast
qed

lemma unspent_starves:
  assumes "unspent a t st" "dv_pending st = Some x" "\<not> store_contains x (fst (sh_store (dv_shared st)))"
    and "5 \<le> t" "sat_mul t 105 div 100 < pp (ca_overlay a) x" "\<not> ca_prepay a" "0 < ca_pipeline a"
    and "list_all (\<lambda>inp. in_alive inp \<and> \<not> in_wind_down inp) inps"
  shows "\<exists>st'. drive_run tools h pp a inps st = (None, st') \<and> dv_pending st' = Some x \<and> dv_shared st' = dv_shared st"
  using assms(1-3,8)
proof (induction inps arbitrary: st)
  case (Cons inp inps)
  have "next_chunk a st = (Some x, st\<lparr>dv_pending := None\<rparr>)" using Cons.prems by (simp add: next_chunk_def)
  from unspent_refused [where pp = pp, OF Cons.prems(1) this Cons.prems(3) assms(4,5,6,7)] Cons.prems(4)
  obtain st1 where "drive_iter tools h pp a inp st = (None, st1)" "unspent a t st1" "dv_pending st1 = Some x" "dv_shared st1 = dv_shared st"
    by fastforce
  then show ?case using Cons.IH [of st1] Cons.prems by simp
qed simp

section \<open>Properties\<close>


definition sample_runs :: "bool \<Rightarrow> drive_input list \<times> drive_input list" where
  "sample_runs w = (replicate 2 ((sample_pass True)\<lparr>in_now := 0, in_done_admitted := [0], in_wind_down := w\<rparr>),
     replicate 3 ((sample_pass True)\<lparr>in_now := 10000\<rparr>))"

lemma sample_runs_ok:
  "0 < ca_pipeline sample_args" "list_all in_alive (fst (sample_runs w) @ snd (sample_runs w))" "cheque_before 0 (sample_drive ts)"
  "list_all (\<lambda>inp. in_now inp \<le> 0) (fst (sample_runs w))"
  "3 \<le> length (filter (\<lambda>inp. 0 + CHEQUE_MIN_INTERVAL \<le> in_now inp) (snd (sample_runs w)))"
  by (simp_all add: sample_runs_def sample_pass_def sample_drive_def sample_args_def sample_pacer_def cheque_before_def
      CHEQUE_MIN_INTERVAL_def numeral_nat)


text \<open>
  A connection told to wind down, or one that has stopped for the spend cap, returns once the
  fetches it had in flight have returned and three passes were late enough for a cheque, whatever is
  left in its bucket and however the gate stands.
\<close>
theorem drive_winds_down:
  assumes "\<not> dv_finishing st" "dv_spend_stop st \<or> list_all in_wind_down xs" "0 < ca_pipeline a" "list_all in_alive (xs @ ys)"
    and "cheque_before t st" "list_all (\<lambda>inp. in_now inp \<le> t) xs"
    and "3 \<le> length (filter (\<lambda>inp. t + CHEQUE_MIN_INTERVAL \<le> in_now inp) ys)"
  shows "(\<exists>v st'. drive_run tools h pp a (xs @ ys) st = (Some v, st'))
    \<or> moves tools h pp a xs st \<le> length (dv_tasks st)"
proof (rule measured_run_ends [where R = "\<lambda>st. \<not> dv_finishing st \<and> (dv_spend_stop st \<or> list_all in_wind_down xs)",
      OF _ _ _ assms(3-7)])
  fix inp st st'
  assume *: "inp \<in> set xs" "\<not> dv_finishing st \<and> (dv_spend_stop st \<or> list_all in_wind_down xs)"
    "drive_iter tools h pp a inp st = (None, st')"
  then have "pass_halted a inp st" by (auto simp: pass_halted_def spend_check_def list_all_iff)
  then show "sweeping st' \<or> (\<not> dv_finishing st' \<and> (dv_spend_stop st' \<or> list_all in_wind_down xs))
      \<and> length (dv_tasks st') + (if moves_on h pp a inp st then 1 else 0) \<le> length (dv_tasks st)"
    using pass_progress [of tools h pp a inp st None st'] assms(3,4) * by (auto simp: list_all_iff)
qed (use assms(1,2) in auto)

theorem drive_winds_down_witness:
  "(\<exists>v st'. drive_run sample_tools render_root (\<lambda>_ _. 1000) sample_args (fst (sample_runs True) @ snd (sample_runs True))
      (sample_drive [(replicate 32 5, 1000)]) = (Some v, st'))
    \<or> moves sample_tools render_root (\<lambda>_ _. 1000) sample_args (fst (sample_runs True)) (sample_drive [(replicate 32 5, 1000)]) \<le> 1"
proof -
  have "\<not> dv_finishing (sample_drive ts)" "length (dv_tasks (sample_drive [(replicate 32 5, 1000)])) = 1" for ts
    by (simp_all add: sample_drive_def)
  moreover have "list_all in_wind_down (fst (sample_runs True))" by (simp add: sample_runs_def numeral_nat)
  ultimately show ?thesis using drive_winds_down [OF _ _ sample_runs_ok] by metis
qed



end
