(* ===== verification/Fetch_Progress.thy ===== *)
theory Fetch_Progress
  imports Schedule
begin

text \<open>
  That a scheduled fetch ends (\<^verbatim>\<open>fetch_scheduled\<close> of \<^verbatim>\<open>rust/ds-net/src/schedule.rs\<close>). The work ahead of
  a fetch is a number: dials left, connections open, chunks on their way. No step raises it, and
  every step that changes what the scheduler's loops watch lowers it. As no state short of the end is
  stuck, a run that keeps taking such steps while it can take one reaches the end.
\<close>

section \<open>Chunks on their way\<close>

text \<open>A chunk in the pool or held by a connection weighs three, one queued for the fallback two, one being fetched by it one.\<close>

definition queued_work :: "shared \<Rightarrow> nat" where
  "queued_work sh = 3 * size (pool_chunks (sh_pool sh)) + 2 * length (sh_fallback sh)"

definition held_work :: "drive_state \<Rightarrow> nat" where
  "held_work st = 3 * (length (dv_tasks st) + (if dv_pending st = None then 0 else 1))"

definition eases :: "nat \<times> shared \<Rightarrow> nat \<times> shared \<Rightarrow> bool" where
  "eases x y \<longleftrightarrow> (hm_wf (sh_pool (snd x)) \<longrightarrow> hm_wf (sh_pool (snd y))
     \<and> fst y + queued_work (snd y) \<le> fst x + queued_work (snd x)
     \<and> (sh_fallback (snd y) = sh_fallback (snd x) \<or> fst y + queued_work (snd y) < fst x + queued_work (snd x)))"

abbreviation loop_eases :: "drive_state \<Rightarrow> drive_state \<Rightarrow> bool" where
  "loop_eases st st' \<equiv> eases (held_work st, dv_shared st) (held_work st', dv_shared st')"

lemma eases_refl [simp]: "eases x x"
  by (simp add: eases_def)

lemma eases_trans [trans]: "eases x y \<Longrightarrow> eases y z \<Longrightarrow> eases x z"
  by (auto simp: eases_def)

lemma same_work_eases: "same_work sh sh' \<Longrightarrow> k' \<le> k \<Longrightarrow> eases (k, sh) (k', sh')"
  by (simp add: eases_def queued_work_def same_work_def)

lemma fallback_eases: "eases (k + 3, sh) (k, send_fallback x sh)"
  by (simp add: eases_def queued_work_def send_fallback_def)

lemma pop_eases:
  assumes "pool_pop p (sh_pool sh) = (r, b)"
  shows "eases (k, sh) (case r of None \<Rightarrow> k | Some _ \<Rightarrow> k + 3, sh\<lparr>sh_pool := b\<rparr>)"
proof (cases r)
  case None
  then show ?thesis using pool_pop_None [of p "sh_pool sh" b] assms by (simp add: eases_def queued_work_def)
next
  case (Some x)
  then show ?thesis
    using pool_pop_Some(1,2) [of p "sh_pool sh" x b] assms by (simp add: eases_def queued_work_def)
qed

section \<open>A pass eases the work\<close>

lemma finish_task_eases: "loop_eases st (finish_task h net i st)"
proof (cases "i < length (dv_tasks st)")
  case True
  obtain addr price where t: "dv_tasks st ! i = (addr, price)" by force
  obtain r pf ff where net: "net addr = (r, pf, ff)" by (metis prod.exhaust)
  let ?st' = "finish_task h net i st"
  have held: "held_work st = held_work ?st' + 3"
    using True finish_task_frame(1,8) [of h net i st] by (simp add: held_work_def)
  show ?thesis
  proof (cases r)
    case None
    then have "dv_shared ?st' = send_fallback addr (dv_shared st)" using True t net by (simp add: finish_task_def Let_def)
    then show ?thesis using fallback_eases [of "held_work ?st'"] held by simp
  next
    case (Some data)
    then have "sh_pool (dv_shared ?st') = sh_pool (dv_shared st)" "sh_fallback (dv_shared ?st') = sh_fallback (dv_shared st)"
      using True t net by (simp_all add: finish_task_def Let_def)
    then show ?thesis using held by (simp add: eases_def queued_work_def)
  qed
qed (simp add: finish_task_def)

lemma finish_tasks_eases: "loop_eases st (finish_tasks h net is st)"
  by (induction "is" arbitrary: st) (auto simp: finish_tasks_def intro: eases_trans [OF finish_task_eases])

lemma take_pending_eases: "loop_eases st (take_pending st)"
proof (cases "dv_pending st")
  case (Some x)
  then show ?thesis using fallback_eases [of "held_work (take_pending st)" "dv_shared st" x]
    by (simp add: take_pending_def held_work_def add.commute)
qed (simp add: take_pending_def)

lemma settled_eases:
  assumes "same_work (dv_shared st) sh"
  shows "loop_eases st (finish_tasks h net is (st\<lparr>dv_pacer := p, dv_shared := sh\<rparr>))"
  by (rule eases_trans [OF _ finish_tasks_eases]) (simp add: same_work_eases [OF assms] held_work_def)

lemma next_chunk_eases:
  assumes "next_chunk a st = (Some addr, st1)"
  shows "eases (held_work st, dv_shared st) (held_work st1 + 3, dv_shared st1)"
proof (cases "dv_pending st")
  case None
  obtain r b where pop: "pool_pop (ca_prefix a) (sh_pool (dv_shared st)) = (r, b)" by force
  then have "r = Some addr" "st1 = st\<lparr>dv_shared := (dv_shared st)\<lparr>sh_pool := b\<rparr>\<rparr>"
    using assms None by (auto simp: next_chunk_def)
  then show ?thesis using pop_eases [OF pop, of "held_work st"] by (simp add: held_work_def)
next
  case (Some x)
  then show ?thesis using assms by (auto simp: next_chunk_def held_work_def add.commute)
qed

lemma admit_loop_eases: "loop_eases st (admit_loop pp a now st)"
proof (induction rule: admit_loop_rule)
  case (skipped st st1 addr st')
  have "eases (held_work st1 + 3, dv_shared st1) (held_work st1, dv_shared st1)" by (simp add: eases_def)
  then show ?case using next_chunk_eases [OF skipped.hyps(2)] skipped.IH eases_trans by blast
next
  case (admitted st st1 addr p st')
  have "held_work (st1\<lparr>dv_pacer := p, dv_tasks := dv_tasks st1 @ [(addr, pp (ca_overlay a) addr)]\<rparr>) = held_work st1 + 3"
    by (simp add: held_work_def)
  then show ?case using eases_trans [OF next_chunk_eases [OF admitted.hyps(2)]] admitted.IH by simp
next
  case (refused st st1 addr p)
  have "held_work (st1\<lparr>dv_pacer := p, dv_pending := Some addr\<rparr>) = held_work st1 + 3"
    using next_chunk_fields(3) [OF refused.hyps(2)] by (simp add: held_work_def)
  then show ?case using next_chunk_eases [OF refused.hyps(2)] by simp
qed (auto simp: held_work_def)

lemma drive_refresh_eases: "loop_eases st (drive_refresh h inp st)"
proof -
  obtain p sh where r: "refresh (in_refresh inp) (in_now inp) (dv_pacer st, dv_shared st) = (p, sh)" by force
  show ?thesis using settled_eases [OF refresh_fields(1) [OF r]] r by (simp add: drive_refresh_def)
qed

lemma drive_prepay_eases: "loop_eases st (drive_prepay tools h a inp st)"
proof -
  obtain r p sh where e: "emit_prepay tools a (in_env inp) (in_now inp)
      (prepay_target a st - pa_prepaid (dv_pacer st)) (dv_pacer st, dv_shared st) = (r, p, sh)"
    by (metis prod_cases3)
  show ?thesis using settled_eases [OF emit_prepay_fields(1) [OF e]] e by (simp add: drive_prepay_def Let_def)
qed

lemma held_work_sweep: "held_work (st\<lparr>dv_sweep_attempts := n\<rparr>) = held_work st"
  by (simp add: held_work_def)

lemma drive_cheque_eases:
  assumes "drive_cheque tools h a inp halted st = (v, st')"
  shows "loop_eases st st'"
proof -
  obtain r p sh where e: "emit tools a (in_env inp) (in_now inp) (drive_residual st) (dv_pacer st, dv_shared st) = (r, p, sh)"
    by (metis prod_cases3)
  show ?thesis
    using settled_eases [OF emit_fields(1) [OF e]] e assms
    by (auto simp: drive_cheque_def Let_def held_work_sweep split: sum.splits if_splits)
qed

lemma drive_iter_eases:
  assumes "drive_iter tools h pp a inp st = (r, st')"
  shows "loop_eases st st'"
proof (rule drive_iter_closed [where Q = "loop_eases st", OF assms])
  have "held_work (snd (drive_transition b x)) = held_work x" for b x
    by (simp add: drive_transition_def Let_def held_work_def)
  then show "loop_eases st (snd (drive_transition b x))" if "loop_eases st x" for b x
    using that by (simp add: drive_transition_shared)
  have "held_work (spend_check a x) = held_work x" for x by (simp add: spend_check_def Let_def held_work_def)
  then show "loop_eases st (spend_check a x)" if "loop_eases st x" for x
    using that by (simp add: spend_check_shared)
  show "loop_eases st (x\<lparr>dv_unreaped := 0\<rparr>)" if "loop_eases st x" for x
    using that by (simp add: held_work_def)
qed (auto intro: eases_trans [OF _ finish_tasks_eases] eases_trans [OF _ take_pending_eases] eases_trans [OF _ admit_loop_eases]
    eases_trans [OF _ drive_refresh_eases] eases_trans [OF _ drive_prepay_eases] dest: eases_trans [OF _ drive_cheque_eases])

lemma measure_pass_eases:
  assumes "measure_pass h pp net a t target ps = (go, ps', d)"
  shows "eases (k, snd ps) (k, snd ps')"
proof -
  obtain p sh where ps: "ps = (p, sh)" by force
  obtain r b where pop: "pool_pop (ca_prefix a) (sh_pool sh) = (r, b)" by force
  have e: "eases (k, sh) (case r of None \<Rightarrow> k | Some _ \<Rightarrow> k + 3, sh\<lparr>sh_pool := b\<rparr>)" by (rule pop_eases [OF pop])
  consider "snd ps' = sh" | "r = None" "snd ps' = sh\<lparr>sh_pool := b\<rparr>"
    | x where "r = Some x" "sh_pool (snd ps') = b" "sh_fallback (snd ps') = sh_fallback sh"
    | x y where "r = Some x" "snd ps' = send_fallback y (sh\<lparr>sh_pool := b\<rparr>)"
    using assms pop by (auto simp: measure_pass_def Let_def ps split: prod.splits if_splits option.splits)
  then show ?thesis
  proof cases
    case 3
    have "eases (k + 3, sh\<lparr>sh_pool := b\<rparr>) (k, snd ps')" using 3 by (simp add: eases_def queued_work_def)
    then show ?thesis using e 3 ps eases_trans by fastforce
  next
    case 4
    then show ?thesis using eases_trans [OF e] fallback_eases [of k "sh\<lparr>sh_pool := b\<rparr>"] ps by simp
  qed (use e ps in simp_all)
qed

lemma prepare_eases:
  assumes "prepare tools h pp a inp e w = (l, st, d)"
  shows "eases (0, cw_shared w) (0, dv_shared st)"
  using assms
proof (rule prepare_closed [where Q = "\<lambda>sh. eases (0, cw_shared w) (0, sh)"])
  show "eases (0, cw_shared w) (0, sh\<lparr>sh_refresh_units := n\<rparr>)" if "eases (0, cw_shared w) (0, sh)" for sh n
    using that by (rule eases_trans) (simp add: same_work_eases same_work_def)
qed (auto dest: emit_fields(1) emit_prepay_fields(1) intro: eases_trans measure_pass_eases same_work_eases)

section \<open>Dials left\<close>

definition dials_left :: "u64 set \<Rightarrow> (u64 \<Rightarrow> nat) \<Rightarrow> 'm dispatch \<Rightarrow> nat" where
  "dials_left K N s = (\<Sum>p \<in> K. length (cands_of s p) + (3 - recycles_of s p) * N p)"

lemma dials_left_total:
  assumes "dispatch_inv N (s, D, F)"
  shows "dials_left K N s + sum D K = 4 * sum N K"
proof -
  have "dials_left K N s + sum D K = (\<Sum>p \<in> K. D p + length (cands_of s p) + (3 - recycles_of s p) * N p)"
    by (simp add: dials_left_def sum.distrib)
  also have "\<dots> = (\<Sum>p \<in> K. 4 * N p)"
    using assms by (intro sum.cong) (auto simp: dispatch_inv_def bucket_inv_def)
  finally show ?thesis by (simp add: sum_distrib_left)
qed

text \<open>The connections in flight, as the dispatcher counts them.\<close>

definition slot_marks :: "'m fetch_state \<Rightarrow> (u64 \<times> u64) multiset" where
  "slot_marks s = mset (map (\<lambda>(sel, rate, _). (se_prefix sel, rate)) (fs_slots s))"

definition dispatched :: "(u64 \<Rightarrow> nat) \<Rightarrow> 'm fetch_state \<Rightarrow> bool" where
  "dispatched N s \<longleftrightarrow> (\<exists>D. dispatch_inv N (fs_dispatch s, D, slot_marks s))"

lemma dispatched_dial:
  assumes "dispatched N s" "dispatch_next pool (fs_dispatch s) = (Some (sel, rate), di)"
    and "\<And>p. N p < 2 ^ 32" "finite K" "\<And>p. p \<notin> K \<Longrightarrow> N p = 0"
  shows "dials_left K N (fs_dispatch s) = Suc (dials_left K N di)"
    "dispatched N (s\<lparr>fs_dispatch := di, fs_world := w, fs_slots := fs_slots s @ [(sel, rate, c)]\<rparr>)"
proof -
  let ?p = "se_prefix sel"
  obtain D where D: "dispatch_inv N (fs_dispatch s, D, slot_marks s)" using assms(1) by (auto simp: dispatched_def)
  have "dispatch_step (fs_dispatch s, D, slot_marks s) (di, D(?p := D ?p + 1), add_mset (?p, rate) (slot_marks s))"
    by (rule dispatch_step.dialed [OF assms(2) refl])
  from dispatch_step_inv [OF this D assms(3)]
  have D': "dispatch_inv N (di, D(?p := D ?p + 1), add_mset (?p, rate) (slot_marks s))" .
  then have "bucket_inv (N ?p) ?p (di, D(?p := D ?p + 1), add_mset (?p, rate) (slot_marks s))"
    by (simp add: dispatch_inv_def)
  then have "?p \<in> K" using assms(5) [of ?p] by (auto simp: bucket_inv_def)
  then have "sum (D(?p := D ?p + 1)) K = Suc (sum D K)" using assms(4) by (simp add: sum.remove)
  then show "dials_left K N (fs_dispatch s) = Suc (dials_left K N di)"
    using dials_left_total [OF D, of K] dials_left_total [OF D', of K] by simp
  show "dispatched N (s\<lparr>fs_dispatch := di, fs_world := w, fs_slots := fs_slots s @ [(sel, rate, c)]\<rparr>)"
    using D' by (auto simp: dispatched_def slot_marks_def)
qed

lemma dispatched_close:
  assumes "dispatched N s" "i < length (fs_slots s)" "fs_slots s ! i = (sel, rate, c)"
  shows "dials_left K N (fs_dispatch (close_slot i v s)) = dials_left K N (fs_dispatch s)"
    "dispatched N (close_slot i v s)"
proof -
  let ?f = "\<lambda>(sel, rate, _). (se_prefix sel, rate)"
  obtain D where D: "dispatch_inv N (fs_dispatch s, D, slot_marks s)" using assms(1) by (auto simp: dispatched_def)
  have nth: "map ?f (fs_slots s) ! i = (se_prefix sel, rate)" using assms(2,3) by simp
  have marks: "slot_marks (close_slot i v s) = slot_marks s - {#(se_prefix sel, rate)#}"
    using mset_remove_nth [of i "map ?f (fs_slots s)"] assms(2,3) nth
    by (simp add: slot_marks_def close_slot_def remove_at_def take_map drop_map)
  have mem: "(se_prefix sel, rate) \<in># slot_marks s"
    using nth assms(2) by (metis slot_marks_def length_map nth_mem set_mset_mset)
  have "bucket_inv (N p) p (dispatch_done (se_prefix sel) rate (fs_dispatch s), D, slot_marks s - {#(se_prefix sel, rate)#})" for p
    using D by (intro done_inv [OF mem]) (simp add: dispatch_inv_def)
  then have "dispatch_inv N (fs_dispatch (close_slot i v s), D, slot_marks (close_slot i v s))"
    unfolding marks using D assms(3) by (simp add: dispatch_inv_def close_slot_def done_fields(6))
  then show "dispatched N (close_slot i v s)" by (auto simp: dispatched_def)
  show "dials_left K N (fs_dispatch (close_slot i v s)) = dials_left K N (fs_dispatch s)"
    using assms(3) by (simp add: dials_left_def close_slot_def done_fields)
qed

section \<open>The work ahead\<close>

definition dialing :: "conn_state \<Rightarrow> bool" where
  "dialing c = (case c of Dialing _ \<Rightarrow> True | Running _ _ _ \<Rightarrow> False)"

definition slot_work :: "'m slot \<Rightarrow> nat" where
  "slot_work x = (case snd (snd x) of Dialing _ \<Rightarrow> 2 | Running e l st \<Rightarrow> 1 + held_work st)"

definition work_ahead :: "u64 set \<Rightarrow> (u64 \<Rightarrow> nat) \<Rightarrow> 'm fetch_state \<Rightarrow> nat" where
  "work_ahead K N s = 3 * dials_left K N (fs_dispatch s) + sum_list (map slot_work (fs_slots s))
     + queued_work (fs_shared s) + length (fs_fb_active s) + (if fs_drained s then 0 else 1)"

text \<open>What the scheduler's loops watch: the connections in the window, the drain, the fallback's queue and its fetches.\<close>

definition visible :: "'m fetch_state \<Rightarrow> bool list \<times> bool \<times> swarm_address list \<times> swarm_address list" where
  "visible s = (map (\<lambda>x. dialing (snd (snd x))) (fs_slots s), fs_drained s, sh_fallback (fs_shared s), fs_fb_active s)"

lemma finished_visible: "finished s \<longleftrightarrow> visible s = ([], True, [], [])"
  by (auto simp: finished_def visible_def)

definition pool_ok :: "'m fetch_state \<Rightarrow> bool" where
  "pool_ok s \<longleftrightarrow> hm_wf (sh_pool (fs_shared s))"

text \<open>One step against the measure.\<close>

definition advances :: "u64 set \<Rightarrow> (u64 \<Rightarrow> nat) \<Rightarrow> 'm fetch_state \<Rightarrow> 'm fetch_state \<Rightarrow> bool" where
  "advances K N s s' \<longleftrightarrow> pool_ok s' \<and> dispatched N s' \<and> work_ahead K N s' \<le> work_ahead K N s
     \<and> (visible s' = visible s \<or> work_ahead K N s' < work_ahead K N s)"

lemma sum_list_update_nat:
  assumes "i < length xs"
  shows "sum_list (map f (xs[i := y])) + f (xs ! i) = sum_list (map f xs) + (f y :: nat)"
  using assms by (induction xs arbitrary: i) (auto split: nat.split)

lemma sum_list_remove_at:
  assumes "i < length xs"
  shows "sum_list (map f (remove_at i xs)) + f (xs ! i) = (sum_list (map f xs) :: nat)"
proof -
  have "map f xs = map f (take i xs) @ f (xs ! i) # map f (drop (Suc i) xs)"
    using id_take_nth_drop [OF assms] by (metis list.simps(9) map_append)
  then show ?thesis by (simp add: remove_at_def del: take_map drop_map)
qed

lemma length_remove_at: "i < length xs \<Longrightarrow> length (remove_at i xs) = length xs - 1"
  by (simp add: remove_at_def)

lemma dispatched_update:
  assumes "i < length (fs_slots s)" "fs_slots s ! i = (sel, rate, c)" "dispatched N s"
    and "fs_slots s' = (fs_slots s)[i := (sel, rate, c')]" "fs_dispatch s' = fs_dispatch s"
  shows "dispatched N s'"
proof -
  let ?f = "\<lambda>(sel, rate, _). (se_prefix sel, rate)"
  have "map ?f ((fs_slots s)[i := (sel, rate, c')]) = map ?f (fs_slots s)"
    using assms(1,2) by (simp add: map_update list_update_same_conv)
  then show ?thesis using assms(3-5) by (simp add: dispatched_def slot_marks_def)
qed

lemma close_advances:
  assumes "i < length (fs_slots s)" "fs_slots s ! i = (sel, rate, c)" "pool_ok s" "dispatched N s"
    and "queued_work (cw_shared w) < queued_work (fs_shared s) + slot_work (sel, rate, c)" "hm_wf (sh_pool (cw_shared w))"
  shows "advances K N s (close_slot i v (s\<lparr>fs_world := w\<rparr>))"
proof -
  let ?s = "s\<lparr>fs_world := w\<rparr>"
  have d: "dispatched N ?s" using assms(4) by (simp add: dispatched_def slot_marks_def)
  note cl = dispatched_close [OF d, of i sel rate c]
  have "sum_list (map slot_work (fs_slots (close_slot i v ?s))) + slot_work (sel, rate, c) = sum_list (map slot_work (fs_slots s))"
    using sum_list_remove_at [OF assms(1), of slot_work] assms(2) by (simp add: close_slot_def)
  moreover have "fs_shared (close_slot i v ?s) = cw_shared w" "fs_fb_active (close_slot i v ?s) = fs_fb_active s"
      "fs_drained (close_slot i v ?s) = fs_drained s"
    using assms(2) by (simp_all add: close_slot_def)
  moreover have "dials_left K N (fs_dispatch (close_slot i v ?s)) = dials_left K N (fs_dispatch s)"
    using cl(1) assms(1,2) by simp
  ultimately have "work_ahead K N (close_slot i v ?s) < work_ahead K N s"
    using assms(5) by (simp add: work_ahead_def)
  then show ?thesis
    using cl(2) assms(1,2,6) by (simp add: advances_def pool_ok_def close_slot_def)
qed

lemma slot_advances:
  assumes "i < length (fs_slots s)" "fs_slots s ! i = (sel, rate, c)" "pool_ok s" "dispatched N s"
    and "fs_slots s' = (fs_slots s)[i := (sel, rate, c')]" "fs_dispatch s' = fs_dispatch s"
      "fs_fb_active s' = fs_fb_active s" "fs_drained s' = fs_drained s" "hm_wf (sh_pool (fs_shared s'))"
    and le: "slot_work (sel, rate, c') + queued_work (fs_shared s') \<le> slot_work (sel, rate, c) + queued_work (fs_shared s)"
    and less: "dialing c' \<noteq> dialing c \<or> sh_fallback (fs_shared s') \<noteq> sh_fallback (fs_shared s) \<Longrightarrow>
      slot_work (sel, rate, c') + queued_work (fs_shared s') < slot_work (sel, rate, c) + queued_work (fs_shared s)"
  shows "advances K N s s'"
proof -
  have s: "sum_list (map slot_work (fs_slots s')) + slot_work (sel, rate, c) = sum_list (map slot_work (fs_slots s)) + slot_work (sel, rate, c')"
    using sum_list_update_nat [OF assms(1), of slot_work "(sel, rate, c')"] assms(2,5) by simp
  have "visible s' = visible s" if "\<not> (dialing c' \<noteq> dialing c \<or> sh_fallback (fs_shared s') \<noteq> sh_fallback (fs_shared s))"
    using that assms(1,2,5,7,8) by (simp add: visible_def map_update list_update_same_conv)
  moreover have "work_ahead K N s' \<le> work_ahead K N s" using s le assms(6-8) by (simp add: work_ahead_def)
  moreover have "work_ahead K N s' < work_ahead K N s"
    if "dialing c' \<noteq> dialing c \<or> sh_fallback (fs_shared s') \<noteq> sh_fallback (fs_shared s)"
    using s less [OF that] assms(6-8) by (simp add: work_ahead_def)
  ultimately show ?thesis
    using assms(9) dispatched_update [OF assms(1,2,4,5,6)] unfolding advances_def pool_ok_def by blast
qed

section \<open>Every step advances\<close>

lemma fallback_recv_advances:
  assumes "pool_ok s" "dispatched N s"
  shows "advances K N s (fallback_recv s)"
  using assms
  by (cases "sh_fallback (fs_shared s)")
    (auto simp: fallback_recv_def Let_def advances_def pool_ok_def dispatched_def slot_marks_def work_ahead_def queued_work_def)

lemma fallback_end_advances:
  assumes "pool_ok s" "dispatched N s" "i < length (fs_fb_active s)"
  shows "advances K N s (fallback_end h outcome i s)"
  using assms length_remove_at [OF assms(3)]
  by (auto simp: fallback_end_def Let_def advances_def pool_ok_def dispatched_def slot_marks_def work_ahead_def queued_work_def
      split: prod.split option.split)

lemma drain_pool_advances:
  assumes "pool_ok s" "dispatched N s" "\<not> fs_drained s"
  shows "advances K N s (drain_pool only s)"
proof -
  obtain xs b where d: "drain_all (sh_pool (fs_shared s)) = (xs, b)" by force
  then have "pool_chunks b = {#}" "hm_wf b" "length xs = size (pool_chunks (sh_pool (fs_shared s)))"
    using drain_all_chunks [OF d] by (auto simp: drain_all_def hm_wf_def size_mset [symmetric])
  then show ?thesis
    using assms d by (auto simp: drain_pool_def advances_def pool_ok_def dispatched_def slot_marks_def work_ahead_def queued_work_def)
qed

lemma prepare_holds_nothing:
  assumes "prepare tools h pp a inp e w = (l, st, d)"
  shows "held_work st = 0"
  using assms by (auto simp: prepare_def Let_def drive_start_def held_work_def split: prod.splits)

lemma fetch_step_advances:
  assumes "fetch_step nets bound tools h pp f64 opts iss s s'" "pool_ok s" "dispatched N s"
    and "\<And>p. N p < 2 ^ 32" "finite K" "\<And>p. p \<notin> K \<Longrightarrow> N p = 0"
  shows "advances K N s s'"
  using assms
proof (induction rule: fetch_step.induct)
  case (dial_slot s sel rate di warm w)
  have "cw_shared w = fs_shared s" using take_warm_shared [OF dial_slot.hyps(5)] .
  then show ?case
    using dispatched_dial [OF dial_slot.prems(2) dial_slot.hyps(4) dial_slot.prems(3-5)] dial_slot.prems(1)
    by (simp add: advances_def pool_ok_def work_ahead_def slot_work_def)
next
  case (refused i s sel rate warm outcome)
  then show ?case
    using close_advances [of i s sel rate "Dialing warm" N "fs_world s" K 0] by (simp add: slot_work_def pool_ok_def)
next
  case (opened i s sel rate warm outcome e inp w l st d)
  have "eases (0, fs_shared s) (0, dv_shared st)" using prepare_eases [OF opened.hyps(7)] opened.hyps(6) by simp
  then have "hm_wf (sh_pool (dv_shared st))" "queued_work (dv_shared st) \<le> queued_work (fs_shared s)"
    using opened.prems(1) by (auto simp: eases_def pool_ok_def)
  then show ?case
    using opened.hyps(1,2) opened.prems(1,2) prepare_holds_nothing [OF opened.hyps(7)]
    by (intro slot_advances [where c = "Dialing warm" and c' = "Running e l st"]) (simp_all add: slot_work_def)
next
  case (pass i s sel rate e l st inp st')
  have e: "eases (held_work st, fs_shared s) (held_work st', dv_shared st')"
    using drive_iter_eases [OF pass.hyps(6)] by (simp add: held_work_def)
  then show ?case
    using pass.hyps(1,2) pass.prems(1,2)
    by (intro slot_advances [where c = "Running e l st" and c' = "Running e l st'"])
      (auto simp: slot_work_def eases_def pool_ok_def dialing_def)
next
  case (last_pass i s sel rate e l st inp r st' ei v w')
  have e: "eases (held_work st, fs_shared s) (held_work st', dv_shared st')"
    using drive_iter_eases [OF last_pass.hyps(6)] by (simp add: held_work_def)
  have "cw_shared w' = dv_shared st'" using conclude_shared [OF last_pass.hyps(8)] .
  then show ?case
    using last_pass.hyps(1,2) last_pass.prems(1,2) e
    by (intro close_advances) (auto simp: slot_work_def eases_def pool_ok_def)
next
  case (fb_recv s)
  show ?case by (rule fallback_recv_advances [OF fb_recv.prems(1,2)])
next
  case (fb_end i s net outcome)
  show ?case by (rule fallback_end_advances [OF fb_end.prems(1,2) fb_end.hyps(1)])
next
  case (stall s)
  then show ?case by (simp add: advances_def pool_ok_def dispatched_def slot_marks_def work_ahead_def visible_def)
next
  case (drain s)
  show ?case by (rule drain_pool_advances [OF drain.prems(1,2) drain.hyps(2)])
qed

section \<open>No state is stuck\<close>

abbreviation can_move :: "('m fetch_state \<Rightarrow> 'm fetch_state \<Rightarrow> bool) \<Rightarrow> 'm fetch_state \<Rightarrow> bool" where
  "can_move step s \<equiv> \<exists>s'. step s s' \<and> visible s' \<noteq> visible s"

lemma close_visible:
  assumes "i < length (fs_slots s)" "fs_slots t = fs_slots s"
  shows "visible (close_slot i v t) \<noteq> visible s"
proof -
  have "length (fst (visible (close_slot i v t))) < length (fst (visible s))"
    using assms by (cases "fs_slots s ! i") (auto simp: visible_def close_slot_def length_remove_at)
  then show ?thesis by (metis less_irrefl)
qed

lemma slot_can_move:
  assumes "fs_slots s \<noteq> []" "net \<in> nets" "2 ^ 64 \<le> bound"
  shows "can_move (fetch_step nets bound tools h pp f64 opts iss) s"
proof -
  let ?step = "fetch_step nets bound tools h pp f64 opts iss"
  obtain sel rate c where c: "fs_slots s ! 0 = (sel, rate, c)" by (metis prod_cases3)
  have i: "0 < length (fs_slots s)" using assms(1) by simp
  show ?thesis
  proof (cases c)
    case (Dialing warm)
    show ?thesis
    proof (cases warm)
      case None
      have "?step s (close_slot 0 0 s)"
        using fetch_step.refused [where warm = None and outcome = NoPeerId, OF i] c Dialing None by (simp add: connect_def)
      then show ?thesis using close_visible [OF i refl] by blast
    next
      case (Some k)
      define inp where "inp = sample_run\<lparr>ei_measure_lambda := so_measure_lambda opts, ei_measure := (ei_measure sample_run)\<lparr>mu_net := net\<rparr>\<rparr>"
      let ?e = "established_of k"
      let ?w = "(fs_world s)\<lparr>cw_opened := cw_opened (fs_world s) + 1\<rparr>"
      obtain l st d where p: "prepare tools h pp (local_args (make_args opts iss sel) ?e) inp ?e ?w = (l, st, d)" by (metis prod_cases3)
      let ?s' = "s\<lparr>fs_world := ?w\<lparr>cw_shared := dv_shared st\<rparr>, fs_slots := (fs_slots s)[0 := (sel, rate, Running ?e l st)],
          fs_lost := (case d of None \<Rightarrow> fs_lost s | Some x \<Rightarrow> x # fs_lost s)\<rparr>"
      have "connect warm (se_overlay sel) NoPeerId = Some ?e" by (simp add: connect_def Some)
      then have "?step s ?s'"
        using c Dialing assms(2) by (intro fetch_step.opened [OF i _ _ _ _ refl p]) (simp_all add: inp_def)
      moreover have "visible ?s' \<noteq> visible s"
        using i c Dialing by (cases "fs_slots s") (simp_all add: visible_def dialing_def)
      ultimately show ?thesis by blast
    qed
  next
    case (Running e l st)
    define inp where "inp = (sample_pass False)\<lparr>in_wind_down := fs_wind_down s, in_net := net\<rparr>"
    define ei where "ei = sample_run\<lparr>ei_parking := so_parking opts\<rparr>"
    let ?a = "local_args (make_args opts iss sel) e"
    obtain r st' where it: "drive_iter tools h pp ?a inp (st\<lparr>dv_shared := fs_shared s\<rparr>) = (Some r, st')"
      by (simp add: drive_iter_def inp_def sample_pass_def Let_def)
    obtain v w' where con: "conclude h f64 ?a ei e l r st' (fs_world s) = (v, w')" by force
    have "unat (pa_prepaid (dv_pacer st)) < 2 ^ LENGTH(64)" by (rule unsigned_less)
    then have "unat (pa_prepaid (dv_pacer st)) < bound" using assms(3) by simp
    then have "?step s (close_slot 0 v (s\<lparr>fs_world := w'\<rparr>))"
      using c Running assms(2)
      by (intro fetch_step.last_pass [OF i _ _ _ _ it _ con]) (simp_all add: inp_def ei_def sample_pass_def)
    then show ?thesis using close_visible [of 0 s "s\<lparr>fs_world := w'\<rparr>"] i by fastforce
  qed
qed

lemma unfinished_can_move:
  assumes "\<not> finished s" "net \<in> nets" "2 ^ 64 \<le> bound"
  shows "can_move (fetch_step nets bound tools h pp f64 opts iss) s"
proof (cases "fs_slots s = []")
  case False
  then show ?thesis by (rule slot_can_move [OF _ assms(2,3)])
next
  case empty: True
  let ?step = "fetch_step nets bound tools h pp f64 opts iss"
  show ?thesis
  proof (cases "fs_drained s")
    case False
    obtain r di where nx: "dispatch_next (sh_pool (fs_shared s)) (fs_dispatch s) = (r, di)" by force
    show ?thesis
    proof (cases "fs_wind_down s \<or> r = None")
      case True
      then have "?step s (drain_pool (so_direct_only opts) s)"
        using fetch_step.drain [OF empty False] nx by simp
      moreover have "visible (drain_pool (so_direct_only opts) s) \<noteq> visible s"
        using False by (auto simp: visible_def drain_pool_def split: prod.split)
      ultimately show ?thesis by blast
    next
      case dial: False
      then obtain sel rate where r: "r = Some (sel, rate)" by auto
      obtain warm w where tw: "take_warm (se_overlay sel) (fs_world s) = (warm, w)" by force
      let ?s' = "s\<lparr>fs_dispatch := di, fs_world := w, fs_slots := fs_slots s @ [(sel, rate, Dialing warm)]\<rparr>"
      have "?step s ?s'"
        using empty False dial nx r tw by (intro fetch_step.dial_slot) simp_all
      moreover have "visible ?s' \<noteq> visible s" by (simp add: visible_def)
      ultimately show ?thesis by blast
    qed
  next
    case drained: True
    show ?thesis
    proof (cases "fs_fb_active s")
      case (Cons x xs)
      have "?step s (fallback_end h (net (fs_fb_active s ! 0)) 0 s)"
        using Cons by (intro fetch_step.fb_end [OF _ assms(2) refl]) simp
      moreover have "visible (fallback_end h (net (fs_fb_active s ! 0)) 0 s) \<noteq> visible s"
        using Cons by (auto simp: visible_def fallback_end_def remove_at_def Let_def split: prod.split option.split)
      ultimately show ?thesis by blast
    next
      case Nil
      then obtain x rest where fb: "sh_fallback (fs_shared s) = x # rest"
        using assms(1) empty drained by (cases "sh_fallback (fs_shared s)") (auto simp: finished_def)
      have "?step s (fallback_recv s)" using Nil by (intro fetch_step.fb_recv) simp
      moreover have "visible (fallback_recv s) \<noteq> visible s" using fb by (auto simp: visible_def fallback_recv_def Let_def)
      ultimately show ?thesis by blast
    qed
  qed
qed

lemma finished_stays:
  assumes "fetch_step nets bound tools h pp f64 opts iss s s'" "finished s"
  shows "visible s' = visible s"
  using assms
  by (induction rule: fetch_step.induct) (auto simp: finished_def visible_def fallback_recv_def)

section \<open>Runs\<close>

text \<open>
  A run may stutter. It is fair when, as long as a step is possible that the scheduler's loops see,
  it goes on to take such steps.
\<close>

definition fair_run :: "('m fetch_state \<Rightarrow> 'm fetch_state \<Rightarrow> bool) \<Rightarrow> (nat \<Rightarrow> 'm fetch_state) \<Rightarrow> bool" where
  "fair_run step f \<longleftrightarrow> (\<forall>n. step (f n) (f (Suc n)) \<or> f (Suc n) = f n)
     \<and> (\<forall>n. can_move step (f n) \<longrightarrow> (\<exists>m \<ge> n. visible (f m) \<noteq> visible (f n)))"

lemma fair_run_advances:
  assumes "fair_run (fetch_step nets bound tools h pp f64 opts iss) f" "pool_ok (f 0)" "dispatched N (f 0)"
    and "\<And>p. N p < 2 ^ 32" "finite K" "\<And>p. p \<notin> K \<Longrightarrow> N p = 0"
  shows "advances K N (f n) (f (n + m))"
proof -
  have one: "advances K N (f n) (f (Suc n))" if ok: "pool_ok (f n)" "dispatched N (f n)" for n
  proof -
    consider "fetch_step nets bound tools h pp f64 opts iss (f n) (f (Suc n))" | "f (Suc n) = f n"
      using assms(1) by (auto simp: fair_run_def)
    then show ?thesis
    proof cases
      case 1
      then show ?thesis by (rule fetch_step_advances [OF _ ok assms(4-6)])
    qed (simp add: advances_def ok)
  qed
  have inv: "pool_ok (f n) \<and> dispatched N (f n)" for n
    using assms(2,3) one by (induction n) (auto simp: advances_def)
  show ?thesis
  proof (induction m)
    case 0
    then show ?case using inv by (simp add: advances_def)
  next
    case (Suc m)
    have "advances K N (f (n + m)) (f (Suc (n + m)))" using one inv by blast
    with Suc show ?case by (auto simp: advances_def)
  qed
qed

lemma fair_run_finishes:
  assumes run: "fair_run (fetch_step nets bound tools h pp f64 opts iss) f" "pool_ok (f 0)" "dispatched N (f 0)"
    and N: "\<And>p. N p < 2 ^ 32" "finite K" "\<And>p. p \<notin> K \<Longrightarrow> N p = 0"
    and net: "net \<in> nets" "2 ^ 64 \<le> bound"
  shows "\<exists>m \<ge> n. finished (f m)"
proof (induction "work_ahead K N (f n)" arbitrary: n rule: less_induct)
  case less
  show ?case
  proof (cases "finished (f n)")
    case False
    then have "can_move (fetch_step nets bound tools h pp f64 opts iss) (f n)" by (rule unfinished_can_move [OF _ net])
    then obtain m where m: "n \<le> m" "visible (f m) \<noteq> visible (f n)" using run(1) by (auto simp: fair_run_def)
    then have "work_ahead K N (f m) < work_ahead K N (f n)"
      using fair_run_advances [OF run N, of n "m - n"] by (simp add: advances_def)
    from less [OF this] m(1) show ?thesis by (meson order_trans)
  qed auto
qed

lemma fair_run_stays:
  assumes "fair_run (fetch_step nets bound tools h pp f64 opts iss) f" "finished (f m)"
  shows "finished (f (m + k))"
proof (induction k)
  case (Suc k)
  then show ?case
    using assms(1) finished_stays [of nets bound tools h pp f64 opts iss "f (m + k)" "f (Suc (m + k))"]
    by (metis add_Suc_right fair_run_def finished_visible)
qed (use assms(2) in simp)

lemma fair_run_exists:
  assumes "(fetch_step nets bound tools h pp f64 opts iss)\<^sup>*\<^sup>* s s'" "finished s'"
  shows "\<exists>f. fair_run (fetch_step nets bound tools h pp f64 opts iss) f \<and> f 0 = s \<and> (\<exists>m. finished (f m))"
  using assms
proof (induction rule: converse_rtranclp_induct)
  case base
  then have "\<not> can_move (fetch_step nets bound tools h pp f64 opts iss) s'"
    using finished_stays [of nets bound tools h pp f64 opts iss s'] by blast
  then show ?case using base by (intro exI [of _ "\<lambda>_. s'"]) (simp add: fair_run_def)
next
  case (step s t)
  let ?step = "fetch_step nets bound tools h pp f64 opts iss"
  obtain f m where f: "fair_run ?step f" "f 0 = t" "finished (f m)" using step.IH step.prems by blast
  let ?g = "case_nat s f"
  have move: "\<exists>k \<ge> n. visible (?g k) \<noteq> visible (?g n)" if "can_move ?step (?g n)" for n
  proof (cases n)
    case 0
    then have "\<not> finished s" using that finished_stays [of nets bound tools h pp f64 opts iss s] by auto
    then have "visible (?g (Suc m)) \<noteq> visible s" using f(3) by (simp add: finished_visible)
    then show ?thesis using 0 by (intro exI [of _ "Suc m"]) simp
  next
    case (Suc k)
    then have "can_move ?step (f k)" using that by simp
    then obtain j where "j \<ge> k" "visible (f j) \<noteq> visible (f k)" using f(1) by (auto simp: fair_run_def)
    then show ?thesis using Suc by (intro exI [of _ "Suc j"]) simp
  qed
  have "?step (?g n) (?g (Suc n)) \<or> ?g (Suc n) = ?g n" for n
    using f(1,2) step.hyps(1) by (cases n) (auto simp: fair_run_def)
  then have "fair_run ?step ?g" using move by (simp add: fair_run_def)
  then show ?case using f(3) by (intro exI [of _ ?g]) (auto intro: exI [of _ "Suc m"])
qed

section \<open>The start\<close>

abbreviation candidates_at :: "'m fetch_state \<Rightarrow> u64 \<Rightarrow> nat" where
  "candidates_at s p \<equiv> length (cands_of (fs_dispatch s) p)"

definition start_buckets :: "'m fetch_state \<Rightarrow> u64 set" where
  "start_buckets s = hm_keys (di_cands (fs_dispatch s))"

lemma fetch_begin_dispatched:
  assumes "fetch_begin pm opts cache addrs w = Inr (Some s)"
  shows "pool_ok s" "dispatched (candidates_at s) s" "fs_slots s = []" "cw_opened (fs_world s) = 0"
    "finite (start_buckets s)" "p \<notin> start_buckets s \<Longrightarrow> candidates_at s p = 0"
proof -
  obtain needed where i: "fetch_init pm opts cache needed w = Inr s"
    using assms by (auto simp: fetch_begin_def Let_def split: if_splits sum.splits)
  then obtain sel where sel: "sel = select_storers pm cache needed (so_depth opts) (max (so_redundancy opts) 1) (fst (cw_peers w))"
      "fs_dispatch s = dispatch_new sel" and e: "fs_slots s = []" "cw_opened (fs_world s) = 0"
    by (auto simp: fetch_init_def fresh_world_def Let_def split: if_splits)
  show "pool_ok s" using fetch_begin_spec(1) [OF assms] by (simp add: fetch_inv_def pool_ok_def)
  have "dispatch_inv (\<lambda>p. length (hm_get_or sel [] p)) (dispatch_new sel, \<lambda>_. 0, {#})"
    unfolding sel(1) by (rule dispatch_new_inv [OF select_storers_wf select_members_ok])
  then show "dispatched (candidates_at s) s"
    unfolding dispatched_def using sel(2) e(1) by (auto simp: slot_marks_def dispatch_new_def)
  show "fs_slots s = []" "cw_opened (fs_world s) = 0" by (fact e)+
  show "finite (start_buckets s)" by (simp add: start_buckets_def)
  show "candidates_at s p = 0" if "p \<notin> start_buckets s"
    using that hm_get_None [of "di_cands (fs_dispatch s)" p] by (simp add: start_buckets_def hm_get_or_def)
qed

section \<open>Connections opened\<close>

definition slot_dials :: "'m slot \<Rightarrow> nat" where
  "slot_dials x = (case snd (snd x) of Dialing _ \<Rightarrow> 1 | Running _ _ _ \<Rightarrow> 0)"

definition dials_made :: "u64 set \<Rightarrow> (u64 \<Rightarrow> nat) \<Rightarrow> 'm fetch_state \<Rightarrow> nat" where
  "dials_made K N s = unat (cw_opened (fs_world s)) + sum_list (map slot_dials (fs_slots s))
     + dials_left K N (fs_dispatch s)"

lemma close_dials:
  assumes "i < length (fs_slots s)" "fs_slots s ! i = (sel, rate, c)" "dispatched N s" "fs_slots t = fs_slots s"
      "fs_dispatch t = fs_dispatch s" "cw_opened (fs_world t) = cw_opened (fs_world s)"
  shows "dials_made K N (close_slot i v t) \<le> dials_made K N s"
proof -
  have "dispatched N t" using assms(3-5) by (simp add: dispatched_def slot_marks_def)
  from dispatched_close(1) [OF this, of i sel rate c K v] show ?thesis
    using sum_list_remove_at [OF assms(1), of slot_dials] assms by (simp add: dials_made_def close_slot_def)
qed

lemma conclude_opened: "conclude h f64 a inp e l r st w = (v, w') \<Longrightarrow> cw_opened w' = cw_opened w"
  by (auto simp: conclude_def Let_def split: if_splits)

lemma take_warm_opened: "take_warm ov w = (k, w') \<Longrightarrow> cw_opened w' = cw_opened w"
  by (auto simp: take_warm_def split: option.splits)

lemma fetch_step_dials:
  assumes "fetch_step nets bound tools h pp f64 opts iss s s'" "dispatched N s"
    and "\<And>p. N p < 2 ^ 32" "finite K" "\<And>p. p \<notin> K \<Longrightarrow> N p = 0"
  shows "dials_made K N s' \<le> dials_made K N s"
  using assms
proof (induction rule: fetch_step.induct)
  case (dial_slot s sel rate di warm w)
  then show ?case
    using dispatched_dial(1) [OF dial_slot.prems(1) dial_slot.hyps(4) dial_slot.prems(2-4)] take_warm_opened
    by (simp add: dials_made_def slot_dials_def)
next
  case (refused i s sel rate warm outcome)
  then show ?case by (intro close_dials [where s = s]) simp_all
next
  case (opened i s sel rate warm outcome e inp w l st d)
  have "unat (cw_opened (fs_world s) + 1) \<le> unat (cw_opened (fs_world s)) + 1" by (simp add: unat_word_ariths)
  then show ?case
    using sum_list_update_nat [OF opened.hyps(1), of slot_dials "(sel, rate, Running e l st)"] opened.hyps
    by (simp add: dials_made_def slot_dials_def)
next
  case (pass i s sel rate e l st inp st')
  then show ?case
    using sum_list_update_nat [OF pass.hyps(1), of slot_dials "(sel, rate, Running e l st')"]
    by (simp add: dials_made_def slot_dials_def)
next
  case (last_pass i s sel rate e l st inp r st' ei v w')
  then show ?case using conclude_opened [OF last_pass.hyps(8)] by (intro close_dials [where s = s]) simp_all
qed (auto simp: dials_made_def fallback_recv_def fallback_end_def drain_pool_def Let_def
    split: list.split prod.split option.split)

lemma fetch_run_dials:
  assumes "(fetch_step nets bound tools h pp f64 opts iss)\<^sup>*\<^sup>* s s'" "pool_ok s" "dispatched N s"
    and "\<And>p. N p < 2 ^ 32" "finite K" "\<And>p. p \<notin> K \<Longrightarrow> N p = 0"
  shows "pool_ok s' \<and> dispatched N s' \<and> dials_made K N s' \<le> dials_made K N s"
  using assms(1)
proof (induction rule: rtranclp_induct)
  case (step s1 s2)
  then have ok: "pool_ok s1" "dispatched N s1" by simp_all
  show ?case
    using fetch_step_advances [OF step.hyps(2) ok assms(4-6)] fetch_step_dials [OF step.hyps(2) ok(2) assms(4-6)] step.IH
    by (simp add: advances_def)
qed (use assms(2,3) in simp)

lemma start_dials:
  assumes "fetch_begin pm opts cache addrs w = Inr (Some s)"
  shows "dials_made (start_buckets s) (candidates_at s) s = 4 * (\<Sum>p \<in> start_buckets s. candidates_at s p)"
proof -
  have "recycles_of (fs_dispatch s) p = 0" for p
    using assms by (auto simp: fetch_begin_def fetch_init_def Let_def dispatch_new_def hm_get_or_def split: if_splits sum.splits)
  then show ?thesis
    using fetch_begin_dispatched(3,4) [OF assms] by (simp add: dials_made_def dials_left_def sum_distrib_left)
qed

section \<open>Properties\<close>

text \<open>
  C4 A scheduled fetch ends: whatever peers, disk and clock do, a run that keeps taking steps the
  scheduler sees (a dial, a set-up, the end of a connection, a fetch of the fallback, the drain) for
  as long as one is possible reaches the state in which every task is done, and stays there. No
  state short of the end is stuck, and no sequence of redials, re-queued chunks and fallbacks goes on
  for ever. That each open connection comes to its end, which a fair run takes for granted, is the
  subject of \<open>Drive_Progress\<close>.
\<close>
theorem scheduled_fetch_ends:
  assumes "fetch_begin pm opts cache addrs w = Inr (Some s)" "\<And>p. candidates_at s p < 2 ^ 32"
    and "fair_run (fetch_step nets bound tools h pp f64 opts iss) f" "f 0 = s" "net \<in> nets" "2 ^ 64 \<le> bound"
  shows "\<exists>n. \<forall>m \<ge> n. finished (f m)"
proof -
  note init = fetch_begin_dispatched [OF assms(1)]
  have start: "pool_ok (f 0)" "dispatched (candidates_at s) (f 0)" using init(1,2) assms(4) by simp_all
  obtain n where n: "finished (f n)"
    using fair_run_finishes [OF assms(3) start assms(2) init(5,6) assms(5,6), of 0] by blast
  then have "finished (f m)" if "n \<le> m" for m
    using fair_run_stays [OF assms(3), of n "m - n"] that by simp
  then show ?thesis by blast
qed

theorem scheduled_fetch_ends_witness:
  "\<exists>f. fair_run (fetch_step UNIV (2 ^ 64) sample_tools render_root (\<lambda>_ _. 1000) (\<lambda>_ _ _. 0) sample_opts 1000) f
     \<and> f 0 = sample_start \<and> (\<exists>n. \<forall>m \<ge> n. finished (f m))"
proof -
  let ?step = "fetch_step UNIV (2 ^ 64) sample_tools render_root (\<lambda>_ _. 1000) (\<lambda>_ _ _. 0) sample_opts 1000"
  obtain s' where "?step\<^sup>*\<^sup>* sample_start s'" "finished s'"
    using sample_fetch_run [of "\<lambda>_. (Some [7], PutOk, FlushOk)" UNIV "[7]" "2 ^ 64"] by auto
  from fair_run_exists [OF this] obtain f where f: "fair_run ?step f" "f 0 = sample_start" by blast
  have "candidates_at sample_start p < 2 ^ 32" for p
    by (simp add: sample_start_def dispatch_new_def hm_get_or_def)
  from scheduled_fetch_ends [OF sample_init this f UNIV_I] f show ?thesis by blast
qed

text \<open>
  C19 The number of connections a fetch opens is at most four times the number of candidates the
  selection gave it, over its whole run and whatever happens to the connections: no candidate is
  dialed without end.
\<close>
theorem scheduled_fetch_connections_bounded:
  assumes "fetch_begin pm opts cache addrs w = Inr (Some s)" "\<And>p. candidates_at s p < 2 ^ 32"
    and "(fetch_step nets bound tools h pp f64 opts iss)\<^sup>*\<^sup>* s s'"
  shows "unat (cw_opened (fs_world s')) \<le> 4 * (\<Sum>p \<in> start_buckets s. candidates_at s p)"
proof -
  note init = fetch_begin_dispatched [OF assms(1)]
  have "dials_made (start_buckets s) (candidates_at s) s' \<le> dials_made (start_buckets s) (candidates_at s) s"
    using fetch_run_dials [OF assms(3) init(1,2) assms(2) init(5,6)] by blast
  then show ?thesis unfolding start_dials [OF assms(1)] by (simp add: dials_made_def)
qed

theorem scheduled_fetch_connections_bounded_witness:
  "\<exists>s'. (fetch_step UNIV (2 ^ 64) sample_tools render_root (\<lambda>_ _. 1000) (\<lambda>_ _ _. 0) sample_opts 1000)\<^sup>*\<^sup>* sample_start s'
     \<and> finished s' \<and> unat (cw_opened (fs_world s')) \<le> 4 * (\<Sum>p \<in> start_buckets sample_start. candidates_at sample_start p)"
proof -
  obtain s' where run: "(fetch_step UNIV (2 ^ 64) sample_tools render_root (\<lambda>_ _. 1000) (\<lambda>_ _ _. 0) sample_opts 1000)\<^sup>*\<^sup>* sample_start s'"
    and "finished s'"
    using sample_fetch_run [of "\<lambda>_. (Some [7], PutOk, FlushOk)" UNIV "[7]" "2 ^ 64"] by auto
  moreover have "candidates_at sample_start p < 2 ^ 32" for p
    by (simp add: sample_start_def dispatch_new_def hm_get_or_def)
  ultimately show ?thesis using scheduled_fetch_connections_bounded [OF sample_init _ run] by blast
qed

end
