(* ===== verification/Integrity.thy ===== *)
theory Integrity
  imports Schedule
begin

text \<open>
  What the chunk store holds after a scheduled fetch. Every task of a fetch (drive loops, latency
  measurements, the fallback worker) writes to the store through \<open>put\<close> only, with a chunk the
  retrieval has checked against its address. The locale \<open>chunk_sink\<close> states what a property of the
  store needs to survive such writes; inside it the property is carried through all steps of a
  fetch. The validity check of the chunk library is the parameter \<open>valid\<close>.
\<close>

section \<open>Checked chunks and sound stores\<close>

definition chunk_ok :: "(swarm_address \<Rightarrow> bytes \<Rightarrow> bool) \<Rightarrow> swarm_address \<Rightarrow> bytes \<Rightarrow> bool" where
  "chunk_ok valid addr data \<longleftrightarrow> length addr = 32 \<and> length data < 2 ^ 32 \<and> valid addr data"

definition answers_ok :: "(swarm_address \<Rightarrow> bytes \<Rightarrow> bool) \<Rightarrow> (swarm_address \<Rightarrow> net_outcome) \<Rightarrow> bool" where
  "answers_ok ok net \<longleftrightarrow> (\<forall>x data pf ff. net x = (Some data, pf, ff) \<longrightarrow> ok x data)"

text \<open>The offsets of the store are 64-bit words: a data file past that size is outside its contract.\<close>

definition store_full :: "store_inner \<times> store_disk \<Rightarrow> bool" where
  "store_full gd \<longleftrightarrow> 2 ^ 64 \<le> length (sd_data (snd gd))"

definition store_sound :: "(swarm_address \<Rightarrow> bytes \<Rightarrow> bool) \<Rightarrow> store_inner \<times> store_disk \<Rightarrow> bool" where
  "store_sound valid gd \<longleftrightarrow> store_full gd \<or> store_inv gd \<and> (\<forall>x w. store_view gd x = Some w \<longrightarrow> valid x w)"

lemma length_write_at_ge: "length data \<le> length (write_at off w data)"
  by (cases "off \<le> length data") (simp_all add: write_at_def)

lemma flush_locked_data: "sd_data (snd (snd (flush_locked ff h gd))) = sd_data (snd gd)"
  using flush_locked_frame by (cases gd) (metis prod.collapse snd_conv)

lemma store_put_grows: "length (sd_data (snd gd)) \<le> length (sd_data (snd (snd (store_put f ff h addr w gd))))"
  by (cases gd) (auto simp: store_put_def Let_def flush_locked_data length_write_at_ge split: put_fault.split option.split)

lemma store_full_put: "store_full gd \<Longrightarrow> store_full (snd (store_put f ff h addr w gd))"
  using store_put_grows [of gd f ff h addr w] by (simp add: store_full_def)

lemma store_put_overflow:
  assumes "store_inv gd" "hm_get (si_index (fst gd)) addr = None" "length w < 2 ^ 32"
    and "2 ^ 64 \<le> unat (si_end (fst gd)) + length w"
  shows "store_full (snd (store_put PutOk ff h addr w gd))"
proof -
  obtain g d where gd: "gd = (g, d)" by force
  have "unat (si_end g) \<le> length (sd_data d)" using assms(1) by (simp add: gd store_inv_def)
  then have "2 ^ 64 \<le> length (write_at (unat (si_end g)) w (sd_data d))"
    using assms(4) by (simp add: gd length_write_at)
  then show ?thesis
    using store_put_new [of g addr w ff h d] assms(2,3)
    by (simp add: gd store_full_def flush_locked_data) (simp add: append_chunk_def)
qed

lemma store_put_sound:
  assumes "store_sound valid gd" "chunk_ok valid addr data"
  shows "store_sound valid (snd (store_put f ff h addr data gd))"
proof (cases "store_full gd")
  case True
  then show ?thesis by (simp add: store_sound_def store_full_put)
next
  case False
  then have inv: "store_inv gd" and valid: "\<And>x w. store_view gd x = Some w \<Longrightarrow> valid x w"
    using assms(1) by (auto simp: store_sound_def)
  obtain r gd' where put: "store_put f ff h addr data gd = (r, gd')" by (metis prod.exhaust)
  consider (fault) "f \<noteq> PutOk" | (dup) "hm_get (si_index (fst gd)) addr \<noteq> None" | (fits) "f = PutOk" "put_fits addr data gd"
    | (over) "f = PutOk" "hm_get (si_index (fst gd)) addr = None" "2 ^ 64 \<le> unat (si_end (fst gd)) + length data"
    using assms(2)
    by (cases "f = PutOk"; cases "hm_get (si_index (fst gd)) addr"; cases "unat (si_end (fst gd)) + length data < 2 ^ 64")
      (auto simp: put_fits_def chunk_ok_def)
  then show ?thesis
  proof cases
    case fault
    then show ?thesis using store_put_fault [OF inv _ put] valid put by (simp add: store_sound_def)
  next
    case dup
    then show ?thesis using store_put_dup [OF dup, of f ff h data] assms(1) by simp
  next
    case fits
    then show ?thesis
      using store_put_ok [OF inv fits(2), of ff h r gd'] put valid assms(2)
      by (auto simp: store_sound_def chunk_ok_def split: option.splits if_splits)
  next
    case over
    then show ?thesis
      using store_put_overflow [OF inv over(2) _ over(3)] assms(2) by (simp add: store_sound_def chunk_ok_def)
  qed
qed

section \<open>A property that checked writes keep\<close>

lemma same_work_store: "same_work sh sh' \<Longrightarrow> sh_store sh' = sh_store sh"
  by (simp add: same_work_def)

lemma take_pending_store: "sh_store (dv_shared (take_pending st)) = sh_store (dv_shared st)"
  by (simp add: take_pending_def send_fallback_def split: option.split)

lemmas admit_loop_store = admit_loop_frame [where g = sh_store, simplified]

locale chunk_sink =
  fixes P :: "store_inner \<times> store_disk \<Rightarrow> bool"
    and ok :: "swarm_address \<Rightarrow> bytes \<Rightarrow> bool"
    and h :: "bytes \<Rightarrow> string"
  assumes put: "P gd \<Longrightarrow> ok addr data \<Longrightarrow> P (snd (store_put f ff h addr data gd))"
begin

lemma put_answer:
  "answers_ok ok net \<Longrightarrow> net addr = (Some data, f, ff) \<Longrightarrow> P gd \<Longrightarrow> P (snd (store_put f ff h addr data gd))"
  by (simp add: answers_ok_def put)

lemma finish_task_keeps:
  assumes "answers_ok ok net" "P (sh_store (dv_shared st))"
  shows "P (sh_store (dv_shared (finish_task h net i st)))"
  using assms(2)
  by (auto simp: finish_task_def Let_def send_fallback_def split: prod.split option.split intro: put_answer [OF assms(1)])

lemma finish_tasks_keeps:
  "answers_ok ok net \<Longrightarrow> P (sh_store (dv_shared st)) \<Longrightarrow> P (sh_store (dv_shared (finish_tasks h net is st)))"
  by (induction "is" arbitrary: st) (simp_all add: finish_tasks_def finish_task_keeps)

lemma drive_refresh_keeps:
  assumes "answers_ok ok (in_net inp)" "P (sh_store (dv_shared st))"
  shows "P (sh_store (dv_shared (drive_refresh h inp st)))"
proof -
  obtain p sh where r: "refresh (in_refresh inp) (in_now inp) (dv_pacer st, dv_shared st) = (p, sh)" by force
  show ?thesis
    using finish_tasks_keeps [OF assms(1)] same_work_store [OF refresh_fields(1) [OF r]] assms(2) r
    by (simp add: drive_refresh_def)
qed

lemma drive_prepay_keeps:
  assumes "answers_ok ok (in_net inp)" "P (sh_store (dv_shared st))"
  shows "P (sh_store (dv_shared (drive_prepay tools h a inp st)))"
proof -
  obtain r p sh where e: "emit_prepay tools a (in_env inp) (in_now inp)
      (prepay_target a st - pa_prepaid (dv_pacer st)) (dv_pacer st, dv_shared st) = (r, p, sh)"
    by (metis prod_cases3)
  show ?thesis
    using finish_tasks_keeps [OF assms(1)] same_work_store [OF emit_prepay_fields(1) [OF e]] assms(2) e
    by (simp add: drive_prepay_def Let_def)
qed

lemma drive_cheque_keeps:
  assumes "answers_ok ok (in_net inp)" "P (sh_store (dv_shared st))" "drive_cheque tools h a inp b st = (v, st')"
  shows "P (sh_store (dv_shared st'))"
proof -
  obtain r p sh where e: "emit tools a (in_env inp) (in_now inp) (drive_residual st) (dv_pacer st, dv_shared st) = (r, p, sh)"
    by (metis prod_cases3)
  show ?thesis
    using finish_tasks_keeps [OF assms(1)] same_work_store [OF emit_fields(1) [OF e]] assms(2,3) e
    by (auto simp: drive_cheque_def Let_def split: sum.splits if_splits)
qed

lemma drive_iter_keeps:
  assumes "drive_iter tools h pp a inp st = (r, st')" "P (sh_store (dv_shared st))" "answers_ok ok (in_net inp)"
  shows "P (sh_store (dv_shared st'))"
  by (rule drive_iter_closed [where Q = "\<lambda>st. P (sh_store (dv_shared st))", OF assms(1,2)])
    (simp_all add: finish_tasks_keeps take_pending_store admit_loop_store drive_refresh_keeps drive_prepay_keeps
      spend_check_shared drive_transition_shared drive_cheque_keeps [OF assms(3)] assms(3))

lemma measure_pass_keeps:
  assumes "measure_pass h pp net a t target ps = (go, ps', d)" "P (sh_store (snd ps))" "answers_ok ok net"
  shows "P (sh_store (snd ps'))"
  using assms(1,2)
  by (auto simp: measure_pass_def Let_def send_fallback_def split: prod.splits if_splits option.splits
      intro: put_answer [OF assms(3)])

lemma prepare_keeps:
  assumes "prepare tools h pp a inp e w = (l, st, d)" "P (sh_store (cw_shared w))" "answers_ok ok (mu_net (ei_measure inp))"
  shows "P (sh_store (dv_shared st))"
  using assms(1,2)
proof (rule prepare_closed [where Q = "\<lambda>sh. P (sh_store sh)"])
  show "P (sh_store (snd ps'))"
    if "measure_pass h pp (mu_net (ei_measure inp)) a t target ps = (go, ps', d)" "P (sh_store (snd ps))" for t target ps go ps' d
    by (rule measure_pass_keeps [OF that assms(3)])
qed (auto dest!: emit_fields(1) emit_prepay_fields(1) simp: same_work_store)

lemma fallback_end_keeps:
  assumes "P (sh_store (fs_shared s))" "answers_ok ok net"
  shows "P (sh_store (fs_shared (fallback_end h (net (fs_fb_active s ! i)) i s)))"
  using assms(1) by (auto simp: fallback_end_def Let_def split: prod.split option.split intro: put_answer [OF assms(2)])

lemma fetch_step_keeps:
  assumes "fetch_step nets bound tools h pp f64 opts iss s s'" "P (sh_store (fs_shared s))" "\<forall>net \<in> nets. answers_ok ok net"
  shows "P (sh_store (fs_shared s'))"
  using assms
proof (induction rule: fetch_step.induct)
  case (dial_slot s sel rate di warm w)
  then show ?case using take_warm_shared by simp
next
  case (refused i s sel rate warm outcome)
  then show ?case by (simp add: close_slot_def)
next
  case (opened i s sel rate warm outcome e inp w l st d)
  then show ?case using prepare_keeps [OF opened.hyps(7)] by simp
next
  case (pass i s sel rate e l st inp st')
  then show ?case using drive_iter_keeps [OF pass.hyps(6)] by simp
next
  case (last_pass i s sel rate e l st inp r st' ei v w')
  then show ?case
    using drive_iter_keeps [OF last_pass.hyps(6)] conclude_shared [OF last_pass.hyps(8)] by (simp add: close_slot_def)
next
  case (fb_recv s)
  then show ?case by (simp add: fallback_recv_def Let_def split: list.split)
next
  case (fb_end i s net outcome)
  then show ?case using fallback_end_keeps [of s net i] by simp
next
  case (drain s)
  then show ?case by (simp add: drain_pool_def split: prod.split)
qed simp

lemma fetch_run_keeps:
  assumes "(fetch_step nets bound tools h pp f64 opts iss)\<^sup>*\<^sup>* s s'" "P (sh_store (fs_shared s))" "\<forall>net \<in> nets. answers_ok ok net"
  shows "P (sh_store (fs_shared s'))"
  using assms by (induction rule: rtranclp_induct) (auto intro: fetch_step_keeps)

end

text \<open>Two such properties: the store is sound, and it still has a chunk it once had.\<close>

interpretation sound: chunk_sink "store_sound valid" "chunk_ok valid" h for valid h
  by unfold_locales (rule store_put_sound)

interpretation stays: chunk_sink "\<lambda>gd. store_contains x (fst gd)" "\<lambda>_ _. True" h for x h
  by unfold_locales (rule store_put_contains_mono)

section \<open>The store after the fetch\<close>

text \<open>The store as the next process finds it on the disk.\<close>

definition reopened :: "(nat \<Rightarrow> string \<Rightarrow> bytes option) \<Rightarrow> 'm fetch_state \<Rightarrow> store_inner \<times> store_disk" where
  "reopened hex_decode s = (let dk = snd (sh_store (fs_shared s)) in (store_open hex_decode dk, dk))"

lemma finish_reopened:
  assumes "hex_codec henc hdec" "fetch_finish FlushOk lf henc sh d s = Inr (s', d')"
    and "store_inv (sh_store (fs_shared s))" "\<not> store_full (reopened hdec s')"
  shows "store_inv (reopened hdec s') \<and> store_view (reopened hdec s') = store_view (sh_store (fs_shared s))"
proof -
  obtain g dk where gd: "sh_store (fs_shared s) = (g, dk)" by force
  obtain r g1 d1 where fl: "flush_locked FlushOk henc (g, dk) = (r, g1, d1)" by (metis prod_cases3)
  have st: "sh_store (fs_shared s') = (g1, d1)"
    using assms(2) fl by (auto simp: fetch_finish_def store_flush_def gd Let_def split: sum.splits prod.splits)
  have same: "sd_data d1 = sd_data dk" using flush_locked_frame [OF fl] by simp
  have "store_inv (g, dk)" "unat (si_end g) \<le> length (sd_data dk)"
    using assms(3) by (simp_all add: gd store_inv_def)
  then show ?thesis
    using flush_reopen_view [OF assms(1) _ fl, of d1] assms(4) same
    by (simp add: reopened_def st gd store_full_def)
qed

lemma run_finish_sound:
  assumes "hex_codec henc hdec" "fetch_begin pm opts cache addrs w = Inr (Some s)"
    and "store_sound valid (sh_store (cw_shared w))"
    and "(fetch_step nets bound tools henc pp f64 opts iss)\<^sup>*\<^sup>* s s'" "\<forall>net \<in> nets. answers_ok (chunk_ok valid) net"
    and "fetch_finish FlushOk lf henc sh d s' = Inr (s'', d')" "\<not> store_full (reopened hdec s'')"
  shows "store_inv (reopened hdec s'')" "store_view (reopened hdec s'') x = Some data \<Longrightarrow> valid x data"
    "store_contains x (fst (sh_store (fs_shared s'))) \<Longrightarrow> store_view (reopened hdec s'') x \<noteq> None"
proof -
  have "sh_store (fs_shared s) = sh_store (cw_shared w)"
    using assms(2) fetch_init_spec(4) by (auto simp: fetch_begin_def Let_def split: if_splits sum.splits)
  then have sound: "store_sound valid (sh_store (fs_shared s'))"
    using sound.fetch_run_keeps [OF assms(4) _ assms(5)] assms(3) by simp
  have "sd_data (snd (sh_store (fs_shared s''))) = sd_data (snd (sh_store (fs_shared s')))"
    using assms(6) by (auto simp: fetch_finish_def store_flush_def Let_def flush_locked_data
        dest: arg_cong [where f = "\<lambda>x. sd_data (snd (snd x))"] split: sum.splits prod.splits)
  then have "\<not> store_full (sh_store (fs_shared s'))" using assms(7) by (simp add: store_full_def reopened_def Let_def)
  with sound have inv: "store_inv (sh_store (fs_shared s'))"
    and view: "\<And>x w. store_view (sh_store (fs_shared s')) x = Some w \<Longrightarrow> valid x w"
    by (auto simp: store_sound_def)
  note re = finish_reopened [OF assms(1,6) inv assms(7)]
  show "store_inv (reopened hdec s'')" using re by blast
  show "valid x data" if "store_view (reopened hdec s'') x = Some data" using that re view by simp
  show "store_view (reopened hdec s'') x \<noteq> None" if "store_contains x (fst (sh_store (fs_shared s')))"
    using that re store_view_None [of "sh_store (fs_shared s')" x] by (auto simp: store_contains_def)
qed

section \<open>A sample fetch\<close>

definition sample_chunk :: "swarm_address \<Rightarrow> bytes \<Rightarrow> bool" where
  "sample_chunk addr data \<longleftrightarrow> data = [2, 0, 0, 0, 0, 0, 0, 0]"

definition sample_net :: "swarm_address \<Rightarrow> net_outcome" where
  "sample_net addr = (if addr = sample_addr then Some [2, 0, 0, 0, 0, 0, 0, 0] else None, PutOk, FlushOk)"

lemma sample_net_ok: "puts_ok sample_net" "answers_ok (chunk_ok sample_chunk) sample_net"
  by (simp_all add: sample_net_def puts_ok_def answers_ok_def chunk_ok_def sample_chunk_def sample_addr_def)

lemma sample_store_sound: "store_sound valid (sh_store (cw_shared sample_world))"
  by (simp add: store_sound_def sample_world_def sample_shared_def store_inv_def store_view_def)

lemma sample_finish:
  "\<exists>s' s'' d. (fetch_step {sample_net} (2 ^ 63) sample_tools render_root (\<lambda>_ _. 1000) (\<lambda>_ _ _. 0) sample_opts 1000)\<^sup>*\<^sup>* sample_start s'
     \<and> finished s' \<and> fs_fb_fails s' = [] \<and> fs_lost s' = []
     \<and> fetch_finish FlushOk NoFault render_root show_uint \<lparr>dk_file = None, dk_tmp = None\<rparr> s' = Inr (s'', d)
     \<and> \<not> store_full (reopened parse_hex_pairs s'')"
proof -
  obtain s' where run: "(fetch_step {sample_net} (2 ^ 63) sample_tools render_root (\<lambda>_ _. 1000) (\<lambda>_ _ _. 0) sample_opts 1000)\<^sup>*\<^sup>* sample_start s'"
    and fin: "finished s'" and none: "fs_fb_fails s' = []" "fs_lost s' = []"
    and data: "sd_data (snd (sh_store (fs_shared s'))) = [2, 0, 0, 0, 0, 0, 0, 0]"
    using sample_fetch_run [of sample_net "{sample_net}" _ "2 ^ 63"] by (auto simp: sample_net_def)
  obtain g dk where st: "sh_store (fs_shared s') = (g, dk)" by force
  obtain r l d1 where fl: "flush NoFault show_uint (sp_ledger (sh_spend (fs_shared s')), \<lparr>dk_file = None, dk_tmp = None\<rparr>) = (r, l, d1)"
    by (metis prod_cases3)
  obtain s'' d where finish: "fetch_finish FlushOk NoFault render_root show_uint \<lparr>dk_file = None, dk_tmp = None\<rparr> s' = Inr (s'', d)"
    and data2: "sd_data (snd (sh_store (fs_shared s''))) = sd_data dk"
    by (simp add: fetch_finish_def store_flush_def st flush_locked_def Let_def fl)
  have small: "\<not> store_full (reopened h s'')" for h :: "nat \<Rightarrow> string \<Rightarrow> bytes option" using data data2 by (simp add: store_full_def reopened_def st Let_def)
  from small show ?thesis using run fin none finish by blast
qed

section \<open>Properties\<close>



end
