(* ===== verification/Append_File.thy ===== *)
theory Append_File
  imports Rust_Text
begin

text \<open>
  Files that only grow: the event log of the growth measurement and the measurement files of the
  commands are opened for appending and written a line at a time. A write can stop part-way.
\<close>

section \<open>Lines\<close>

text \<open>A line is appended whole, or only its first \<open>k\<close> characters reach the file.\<close>

definition append_line :: "nat option \<Rightarrow> string \<Rightarrow> string \<Rightarrow> string" where
  "append_line torn line old =
     old @ (case torn of None \<Rightarrow> line @ [NL] | Some k \<Rightarrow> take k (line @ [NL]))"

definition line_ok :: "string \<Rightarrow> bool" where
  "line_ok l \<longleftrightarrow> NL \<notin> set l \<and> CR \<notin> set l"

definition whole_lines :: "string \<Rightarrow> bool" where
  "whole_lines old \<longleftrightarrow> old = [] \<or> last old = NL"

lemma split_on_snoc: "split_on c (s @ c # t) = split_on c s @ split_on c t"
  by (induction s) (auto split: list.split simp: neq_Nil_conv)

lemma str_lines_append_line:
  assumes "whole_lines old" "line_ok line"
  shows "str_lines (append_line None line old) = str_lines old @ [line]" "whole_lines (append_line None line old)"
proof -
  have "str_lines (old @ line @ [NL]) = str_lines old @ [line]"
  proof (cases "old = []")
    case True
    then show ?thesis using assms(2) by (simp add: str_lines_def strip_cr_id line_ok_def split_on_append)
  next
    case False
    then obtain s where s: "old = s @ [NL]"
      using assms(1) by (metis append_butlast_last_id whole_lines_def)
    show ?thesis
      using split_on_snoc [of NL s "line @ [NL]"] split_on_snoc [of NL s "[]"] assms(2)
      by (simp add: s str_lines_def butlast_append strip_cr_id line_ok_def split_on_append)
  qed
  then show "str_lines (append_line None line old) = str_lines old @ [line]" by (simp add: append_line_def)
  show "whole_lines (append_line None line old)" by (simp add: append_line_def whole_lines_def)
qed

definition append_lines :: "string list \<Rightarrow> string \<Rightarrow> string" where
  "append_lines ls old = fold (append_line None) ls old"

lemma str_lines_append_lines:
  "whole_lines old \<Longrightarrow> list_all line_ok ls \<Longrightarrow> str_lines (append_lines ls old) = str_lines old @ ls \<and> whole_lines (append_lines ls old)"
  unfolding append_lines_def
  by (induction ls arbitrary: old) (simp_all add: str_lines_append_line)

section \<open>Rows of measurements\<close>

text \<open>
  The three commands that keep a measurement file append to it in the same way: the directory is
  created, a new file gets the header first, then the row is written.
\<close>

datatype append_fault = AppendOk | DirFails | OpenAppendFails | HeaderFails nat | RowFails nat

definition append_row ::
  "string \<Rightarrow> string \<Rightarrow> append_fault \<Rightarrow> string option \<Rightarrow> (append_fault, unit) result \<times> string option" where
  "append_row header row fault old =
     (if fault \<in> {DirFails, OpenAppendFails} then (Inl fault, old)
      else
        let new = (old = None); f0 = (case old of None \<Rightarrow> [] | Some f \<Rightarrow> f)
        in case (new, fault) of
             (True, HeaderFails k) \<Rightarrow> (Inl fault, Some (append_line (Some k) header f0))
           | _ \<Rightarrow>
               let f1 = (if new then append_line None header f0 else f0)
               in case fault of
                    RowFails k \<Rightarrow> (Inl fault, Some (append_line (Some k) row f1))
                  | _ \<Rightarrow> (Inr (), Some (append_line None row f1)))"

definition csv_row :: "string list \<Rightarrow> string" where
  "csv_row cells = join_with (CHR '','') cells"

definition cell_ok :: "string \<Rightarrow> bool" where
  "cell_ok c \<longleftrightarrow> CHR '','' \<notin> set c \<and> line_ok c"

text \<open>A table: the header, then rows with as many cells.\<close>

definition csv_table :: "string \<Rightarrow> string \<Rightarrow> bool" where
  "csv_table header old \<longleftrightarrow> whole_lines old \<and>
     (\<exists>rows. str_lines old = header # rows \<and>
        (\<forall>r \<in> set rows. length (split_on (CHR '','') r) = length (split_on (CHR '','') header)))"

lemma set_join_with: "set (join_with c ps) \<subseteq> insert c (\<Union> (set ` set ps))"
  by (induction ps rule: join_with.induct [of _ c]) auto

lemma csv_row_ok: "list_all cell_ok cells \<Longrightarrow> line_ok (csv_row cells)"
  using set_join_with [of "CHR '',''" cells]
  by (auto simp: csv_row_def list_all_iff cell_ok_def line_ok_def NL_def CR_def)

lemma csv_row_cells: "list_all cell_ok cells \<Longrightarrow> cells \<noteq> [] \<Longrightarrow> split_on (CHR '','') (csv_row cells) = cells"
  unfolding csv_row_def by (rule split_on_join) (auto simp: list_all_iff cell_ok_def)

lemma append_row_table:
  assumes "line_ok header" "list_all cell_ok cells" "length (split_on (CHR '','') header) = length cells"
    and "old = None \<or> (\<exists>f. old = Some f \<and> csv_table header f)" "fault \<in> {AppendOk, DirFails, OpenAppendFails}"
    and "append_row header (csv_row cells) fault old = (r, new')"
  shows "new' = None \<or> (\<exists>f. new' = Some f \<and> csv_table header f)"
proof (cases "fault = AppendOk")
  case False
  then show ?thesis using assms(4-6) by (auto simp: append_row_def)
next
  case True
  have cells: "cells \<noteq> []" using assms(3) split_on_nonempty [of "CHR '',''" header] by fastforce
  note row = csv_row_ok [OF assms(2)] csv_row_cells [OF assms(2) cells]
  let ?base = "case old of None \<Rightarrow> append_line None header [] | Some f \<Rightarrow> f"
  have new': "new' = Some (append_line None (csv_row cells) ?base)"
    using assms(6) True by (auto simp: append_row_def Let_def split: option.splits)
  have "csv_table header ?base"
    using assms(4) str_lines_append_line [OF _ assms(1), of "[]"]
    by (auto simp: csv_table_def whole_lines_def str_lines_def split: option.split)
  then have "csv_table header (append_line None (csv_row cells) ?base)"
    using str_lines_append_line [OF _ row(1), of ?base] row(2) assms(3) by (auto simp: csv_table_def)
  then show ?thesis using new' by blast
qed

end
