(* ===== verification/Growth_Log.thy ===== *)
theory Growth_Log
  imports Growth_Probe Append_File
begin

text \<open>
  The event log of the growth measurement (\<^verbatim>\<open>EventLog\<close> and the lines passed to it in
  \<^verbatim>\<open>rust/ds-net/src/growth.rs\<close>): the text of an event, the file it is appended to, and the agreement
  of the log with the report and with the spend counter.
\<close>

section \<open>What the log says\<close>

definition is_payment :: "growth_event \<Rightarrow> bool" where
  "is_payment e \<longleftrightarrow> (case e of EvCheque _ _ _ \<Rightarrow> True | EvPrepay _ _ _ \<Rightarrow> True | _ \<Rightarrow> False)"

definition paid_units :: "growth_event \<Rightarrow> u64" where
  "paid_units e = (case e of EvCheque u _ _ \<Rightarrow> u | EvPrepay u _ _ \<Rightarrow> u | _ \<Rightarrow> 0)"

definition paid_plur :: "growth_event \<Rightarrow> U256" where
  "paid_plur e = (case e of EvCheque _ p _ \<Rightarrow> p | EvPrepay _ p _ \<Rightarrow> p | _ \<Rightarrow> 0)"

definition is_bracket :: "growth_event \<Rightarrow> bool" where
  "is_bracket e \<longleftrightarrow> (case e of EvStart _ _ _ \<Rightarrow> True | EvEnd _ _ _ _ _ \<Rightarrow> True | _ \<Rightarrow> False)"

definition lambda_of :: "growth_event \<Rightarrow> u64 option" where
  "lambda_of e = (case e of EvLambda ms _ \<Rightarrow> Some ms | _ \<Rightarrow> None)"

text \<open>
  \<open>reconciled m c\<close>: the counters are the sums over the log, and so is the spend counter when the cap
  \<open>m\<close> is not the largest word, which the saturating guard does not enforce.
\<close>

definition reconciled :: "u64 \<Rightarrow> growth_conn \<Rightarrow> bool" where
  "reconciled m c \<longleftrightarrow> gc_max_issue_plur c = m
     \<and> gc_cheques c = of_nat (length (filter is_payment (gc_log c)))
     \<and> gc_cheque_units c = sum_list (map paid_units (gc_log c))
     \<and> gc_cheque_plur c = sum_list (map (ucast \<circ> paid_plur) (gc_log c))
     \<and> (m \<noteq> - 1 \<longrightarrow> unat (sp_issued (gc_spend c)) = sum_list (map (unat \<circ> paid_plur) (gc_log c)))"

definition opened_with :: "growth_event \<Rightarrow> growth_conn \<Rightarrow> bool" where
  "opened_with e c \<longleftrightarrow> (\<exists>mid. gc_log c = e # mid \<and> list_all (\<lambda>e. \<not> is_bracket e) mid)"

definition lambdas_logged :: "u64 list \<Rightarrow> growth_conn \<Rightarrow> bool" where
  "lambdas_logged ls c \<longleftrightarrow> List.map_filter lambda_of (gc_log c) = ls"

lemma reconciled_log: "\<not> is_payment e \<Longrightarrow> reconciled m c \<Longrightarrow> reconciled m (log_event e c)"
  by (cases e) (simp_all add: reconciled_def paid_units_def paid_plur_def is_payment_def)

lemma reconciled_emit:
  assumes "reconciled m c"
  shows "reconciled m (snd (gc_emit tools env now units c))" "reconciled m (snd (gc_prepay tools env now units c))"
proof -
  obtain r s where em: "emit_settlement_cheque tools (gc_cheque units c) env (gc_spend c) = (r, s)" by force
  have "reconciled m (snd (gc_emit tools env now units c)) \<and> reconciled m (snd (gc_prepay tools env now units c))"
  proof (cases r)
    case (Inl err)
    then have "s = gc_spend c" using em emit_err_restores by metis
    then show ?thesis using assms em Inl by (simp add: gc_emit_def gc_prepay_def)
  next
    case (Inr ro)
    obtain o' out where ro: "ro = (o', out)" by force
    note sp = emit_ok_spends [OF em [unfolded Inr ro]]
    have m: "ce_max_issue_plur (gc_cheque units c) = m" using assms by (simp add: gc_cheque_def reconciled_def)
    show ?thesis
      using assms em Inr ro sp m
      by (simp add: gc_emit_def gc_prepay_def gc_count_def reconciled_def paid_units_def paid_plur_def is_payment_def)
  qed
  then show "reconciled m (snd (gc_emit tools env now units c))" "reconciled m (snd (gc_prepay tools env now units c))"
    by blast+
qed

interpretation counted: growth_invariant "reconciled m" "\<lambda>e. \<not> is_payment e" for m
  by unfold_locales (simp_all add: reconciled_emit reconciled_log, simp_all add: reconciled_def is_payment_def)

lemma gc_log_emit:
  "gc_log (snd (gc_emit tools env now units c)) = gc_log c \<or> (\<exists>u p q. gc_log (snd (gc_emit tools env now units c)) = gc_log c @ [EvCheque u p q])"
  "gc_log (snd (gc_prepay tools env now units c)) = gc_log c \<or> (\<exists>u p q. gc_log (snd (gc_prepay tools env now units c)) = gc_log c @ [EvPrepay u p q])"
  by (auto simp: gc_emit_def gc_prepay_def gc_count_def split: prod.split sum.split)

lemma opened_with_append:
  "opened_with e c \<Longrightarrow> gc_log c' = gc_log c \<or> (\<exists>e'. gc_log c' = gc_log c @ [e'] \<and> \<not> is_bracket e') \<Longrightarrow> opened_with e c'"
  by (auto simp: opened_with_def)

interpretation bracketed: growth_invariant "opened_with e" "\<lambda>e. \<not> is_bracket e" for e
proof
  show "opened_with e (snd (gc_emit tools env now units c))" if "opened_with e c" for tools env now units c
    using opened_with_append [OF that] gc_log_emit(1) [of tools env now units c] by (force simp: is_bracket_def)
  show "opened_with e (snd (gc_prepay tools env now units c))" if "opened_with e c" for tools env now units c
    using opened_with_append [OF that] gc_log_emit(2) [of tools env now units c] by (force simp: is_bracket_def)
  show "opened_with e (log_event ev c)" if "\<not> is_bracket ev" "opened_with e c" for ev c
    using opened_with_append [OF that(2)] that(1) by simp
qed (simp_all add: opened_with_def is_bracket_def)

lemma lambdas_logged_append:
  "lambdas_logged ls c \<Longrightarrow> gc_log c' = gc_log c \<or> (\<exists>e'. gc_log c' = gc_log c @ [e'] \<and> lambda_of e' = None) \<Longrightarrow> lambdas_logged ls c'"
  by (auto simp: lambdas_logged_def List.map_filter_def)

interpretation lambdas: phase_invariant "lambdas_logged ls" "\<lambda>e. lambda_of e = None" for ls
proof
  show "lambdas_logged ls (snd (gc_emit tools env now units c))" if "lambdas_logged ls c" for tools env now units c
    using lambdas_logged_append [OF that] gc_log_emit(1) [of tools env now units c] by (force simp: lambda_of_def)
  show "lambdas_logged ls (snd (gc_prepay tools env now units c))" if "lambdas_logged ls c" for tools env now units c
    using lambdas_logged_append [OF that] gc_log_emit(2) [of tools env now units c] by (force simp: lambda_of_def)
qed (auto simp: lambdas_logged_def lambda_of_def List.map_filter_def)

lemma lambda_probe_logs:
  "lambda_probe swept since timeout prs z c = (l, c') \<Longrightarrow> lambdas_logged ls c \<Longrightarrow>
    lambdas_logged (ls @ (case l of Some ms \<Rightarrow> [ms] | None \<Rightarrow> [])) c'"
proof (induction prs arbitrary: z c)
  case (Cons pr prs)
  obtain acc el where pr: "pr = (acc, el)" by force
  show ?case
  proof (cases acc)
    case (Some n)
    let ?c = "log_event (EvLambdaProbe n (elapsed_ms el)) (gc_note_accepted n c)"
    have "lambdas_logged ls ?c"
      using Cons.prems(2) by (intro lambdas.log lambdas.note_accepted) (simp_all add: lambda_of_def)
    then show ?thesis
      using Cons.prems(1) Cons.IH pr Some
      by (cases "n = 0"; cases z) (auto simp: Let_def, auto simp: lambdas_logged_def lambda_of_def List.map_filter_def)
  qed (use Cons pr in simp)
qed (auto simp: lambdas_logged_def lambda_of_def List.map_filter_def)

lemma lambda_sample_logs:
  assumes "lambda_sample tools pp chunks inp cycle c = (l, cycle', c')" "lambdas_logged ls c"
  shows "lambdas_logged (ls @ (case l of Some ms \<Rightarrow> [ms] | None \<Rightarrow> [])) c'"
proof -
  let ?c = "c\<lparr>gc_announced := li_announced inp\<rparr>"
  obtain dead cy c1 where b: "lambda_build pp chunks (gc_threshold ?c) (li_builds inp) cycle ?c = (dead, cy, c1)"
    by (metis prod_cases3)
  have i1: "lambdas_logged ls c1" using lambdas.lambda_build [OF b] assms(2) by (simp add: lambdas.announced)
  obtain r c2 where e: "gc_emit tools (li_env inp) (li_now inp) (fst (gc_debt c1)) c1 = (r, c2)" by force
  have i2: "lambdas_logged ls c2" using lambdas.emit [OF i1] e by (metis snd_conv)
  obtain l3 c3 where pl: "lambda_probe (fst (gc_debt c1)) (li_now inp) (li_timeout inp) (map probe_answer (li_probes inp)) None c2 = (l3, c3)"
    by force
  have skip: "lambdas_logged ls (log_event EvLambdaSkipped c1)" by (rule lambdas.log [OF _ i1]) (simp add: lambda_of_def)
  show ?thesis
    using assms(1) b e pl i1 i2 skip lambda_probe_logs [OF pl i2]
    by (cases dead; cases "fst (gc_debt c1) < LAMBDA_PROBE_UNITS * 4"; cases r) (auto simp: lambda_sample_def Let_def)
qed

lemma lambda_samples_logs:
  "lambda_samples tools pp chunks inps cycle c = (ls, cycle', c') \<Longrightarrow> lambdas_logged ls0 c \<Longrightarrow>
    lambdas_logged (ls0 @ List.map_filter id ls) c'"
proof (induction inps arbitrary: ls0 ls cycle c cycle' c')
  case (Cons ai inps)
  obtain alive inp where ai: "ai = (alive, inp)" by force
  obtain l cy c1 where l: "lambda_sample tools pp chunks inp cycle c = (l, cy, c1)" by (metis prod_cases3)
  obtain ls2 cy2 c2 where r: "lambda_samples tools pp chunks inps cy c1 = (ls2, cy2, c2)" by (metis prod_cases3)
  show ?case
    using Cons.prems Cons.IH [OF r lambda_sample_logs [OF l Cons.prems(2)]] ai l r
    by (cases alive; cases l) (auto simp: List.map_filter_def)
qed (simp add: List.map_filter_def)

lemma growth_sequence_lambdas:
  assumes "growth_sequence tools sh pp chunks opts inp d c = Some (rep, c', d')" "gc_log c = []"
  shows "List.map_filter lambda_of (gc_log c') = List.map_filter id (gr_lambda_ms rep)"
proof -
  let ?c0 = "log_event (EvStart (gc_overlay c) (gc_threshold c) (length chunks)) c"
  obtain c_a c_b c_p c_c c_t where st: "sequence_states tools sh pp chunks opts inp d c rep c' d' (c_a, c_b, c_p, c_c, c_t)"
    using growth_sequence_states [OF assms(1)] by (metis prod_cases5)
  have "lambdas_logged [] ?c0" using assms(2) by (simp add: lambdas_logged_def lambda_of_def List.map_filter_def)
  then have "lambdas_logged [] c_a" using st lambdas.growth_phase unfolding sequence_states_def prod.case by blast
  then have "lambdas_logged (List.map_filter id (gr_lambda_ms rep)) c_b"
    using st lambda_samples_logs [where ?ls0.0 = "[]"] unfolding sequence_states_def prod.case by fastforce
  then have "lambdas_logged (List.map_filter id (gr_lambda_ms rep)) c_p"
    using st lambdas.prepay unfolding sequence_states_def prod.case by metis
  then have "lambdas_logged (List.map_filter id (gr_lambda_ms rep)) c_c"
    using st lambdas.growth_phase unfolding sequence_states_def prod.case by blast
  then have "lambdas_logged (List.map_filter id (gr_lambda_ms rep)) c_t"
    using st unfolding sequence_states_def prod.case
    by (auto intro: lambdas.announced lambdas.growth_flush lambdas.confirmed lambdas.final_sweep)
  moreover have "c' = log_event (end_event c_t) c_t" using st unfolding sequence_states_def prod.case by blast
  ultimately show ?thesis by (simp add: lambdas_logged_def lambda_of_def List.map_filter_def end_event_def)
qed


section \<open>Text\<close>

definition quoted :: "string \<Rightarrow> string" where
  "quoted s = CHR 0x22 # s @ [CHR 0x22]"

definition member :: "string \<Rightarrow> string \<Rightarrow> string" where
  "member name v = quoted name @ CHR '':'' # v"

text \<open>
  The fields of an event with their printed values. \<open>henc\<close> is hexadecimal encoding, \<open>show256\<close> the
  printing of a 256-bit number and \<open>rate\<close> that of the sampled rate, all from libraries.
\<close>

fun event_fields ::
  "(bytes \<Rightarrow> string) \<Rightarrow> (U256 \<Rightarrow> string) \<Rightarrow> (u64 \<Rightarrow> nat \<Rightarrow> string) \<Rightarrow> growth_event \<Rightarrow> (string \<times> string) list" where
  "event_fields henc show256 rate (EvStart overlay th n) =
     [(''ev'', quoted ''start''), (''overlay'', quoted (henc overlay)), (''threshold'', show_uint th),
      (''distinct_chunks'', show_nat n)]"
| "event_fields henc show256 rate (EvPhase name) = [(''ev'', quoted ''phase''), (''name'', quoted name)]"
| "event_fields henc show256 rate (EvThreshold t prev) =
     [(''ev'', quoted ''threshold''), (''units'', show_uint t), (''prev'', show_uint prev)]"
| "event_fields henc show256 rate EvSpendCap = [(''ev'', quoted ''spend_cap'')]"
| "event_fields henc show256 rate (EvCheque units plur cumulative) =
     [(''ev'', quoted ''cheque''), (''units'', show_uint units), (''plur'', quoted (show256 plur)),
      (''cumulative'', quoted (show256 cumulative))]"
| "event_fields henc show256 rate (EvPrepay units plur cumulative) =
     [(''ev'', quoted ''prepay''), (''units'', show_uint units), (''plur'', quoted (show256 plur)),
      (''cumulative'', quoted (show256 cumulative))]"
| "event_fields henc show256 rate (EvSample name fetches dt th) =
     [(''ev'', quoted ''sample''), (''phase'', quoted name), (''fetches'', show_uint fetches), (''mbs'', rate fetches dt),
      (''threshold'', show_uint th)]"
| "event_fields henc show256 rate (EvPhaseEnd name p50 p95) =
     [(''ev'', quoted ''phase_end''), (''name'', quoted name), (''lat_p50_ms'', show_uint p50), (''lat_p95_ms'', show_uint p95)]"
| "event_fields henc show256 rate EvLambdaSkipped = [(''ev'', quoted ''lambda''), (''result'', quoted ''skipped-no-debt'')]"
| "event_fields henc show256 rate (EvLambdaProbe accepted ms) =
     [(''ev'', quoted ''lambda_probe''), (''accepted'', show_uint accepted), (''ms'', show_uint ms)]"
| "event_fields henc show256 rate (EvLambda ms swept) =
     [(''ev'', quoted ''lambda''), (''ms'', show_uint ms), (''swept_units'', show_uint swept)]"
| "event_fields henc show256 rate (EvLambdaTimeout swept) =
     [(''ev'', quoted ''lambda''), (''result'', quoted ''timeout''), (''swept_units'', show_uint swept)]"
| "event_fields henc show256 rate (EvFinalConfirm accepted) =
     [(''ev'', quoted ''final_confirm''), (''accepted'', show_uint accepted)]"
| "event_fields henc show256 rate (EvEnd th cheques units plur refresh_units) =
     [(''ev'', quoted ''end''), (''threshold'', show_uint th), (''cheques'', show_uint cheques),
      (''cheque_units'', show_uint units), (''cheque_plur'', quoted (show_uint plur)), (''refresh_units'', show_uint refresh_units)]"

definition event_line ::
  "(bytes \<Rightarrow> string) \<Rightarrow> (U256 \<Rightarrow> string) \<Rightarrow> (u64 \<Rightarrow> nat \<Rightarrow> string) \<Rightarrow> nat \<Rightarrow> growth_event \<Rightarrow> string" where
  "event_line henc show256 rate t_ms e =
     ''{'' @ join_with (CHR '','') (map (\<lambda>(name, v). member name v) ((''t_ms'', show_nat t_ms) # event_fields henc show256 rate e)) @ ''}''"

text \<open>
  Opening creates the directory and the file if they are missing, and a failure of a write is not
  reported: of each event the writes that reach the file are input.
\<close>

datatype log_open = LogOpens | LogDirFails | LogFileFails

definition event_log_open :: "log_open \<Rightarrow> string option \<Rightarrow> string option" where
  "event_log_open outcome old = (if outcome = LogOpens then Some (case old of None \<Rightarrow> [] | Some f \<Rightarrow> f) else None)"

definition event_log_line ::
  "(bytes \<Rightarrow> string) \<Rightarrow> (U256 \<Rightarrow> string) \<Rightarrow> (u64 \<Rightarrow> nat \<Rightarrow> string) \<Rightarrow> nat \<times> nat option \<Rightarrow> growth_event \<Rightarrow> string \<Rightarrow> string" where
  "event_log_line henc show256 rate w e old =
     (case w of (t_ms, torn) \<Rightarrow> append_line torn (event_line henc show256 rate t_ms e) old)"

definition event_log ::
  "(bytes \<Rightarrow> string) \<Rightarrow> (U256 \<Rightarrow> string) \<Rightarrow> (u64 \<Rightarrow> nat \<Rightarrow> string) \<Rightarrow> (nat \<times> nat option) list \<Rightarrow> growth_event list \<Rightarrow> string \<Rightarrow> string" where
  "event_log henc show256 rate ws es old =
     fold (\<lambda>(w, e). event_log_line henc show256 rate w e) (zip ws es) old"

definition phase_named :: "growth_event \<Rightarrow> bool" where
  "phase_named e \<longleftrightarrow> (case e of EvPhase n \<Rightarrow> line_ok n | EvSample n _ _ _ \<Rightarrow> line_ok n | EvPhaseEnd n _ _ \<Rightarrow> line_ok n | _ \<Rightarrow> True)"

lemma line_ok_simps [simp]:
  "line_ok []" "line_ok (c # s) \<longleftrightarrow> c \<noteq> NL \<and> c \<noteq> CR \<and> line_ok s" "line_ok (s @ t) \<longleftrightarrow> line_ok s \<and> line_ok t"
  by (auto simp: line_ok_def)

lemma line_ok_decimal [simp]: "line_ok (show_uint w)" "line_ok (show_nat n)"
  by (simp_all add: line_ok_def decimal_show_nat)

lemma quote_no_break [simp]: "CHR 0x22 \<noteq> NL" "CHR 0x22 \<noteq> CR"
  by (simp_all add: NL_def CR_def)

lemma line_ok_member [simp]: "line_ok (member n v) \<longleftrightarrow> line_ok n \<and> line_ok v" "line_ok (quoted v) \<longleftrightarrow> line_ok v"
  by (simp_all add: member_def quoted_def NL_def CR_def)

lemma line_ok_join: "line_ok (join_with (CHR '','') ps)" if "list_all line_ok ps"
  using that set_join_with [of "CHR '',''" ps] by (auto simp: line_ok_def list_all_iff NL_def CR_def)

text \<open>The printers used never write a line break.\<close>

definition printers_ok :: "(bytes \<Rightarrow> string) \<Rightarrow> (U256 \<Rightarrow> string) \<Rightarrow> (u64 \<Rightarrow> nat \<Rightarrow> string) \<Rightarrow> bool" where
  "printers_ok henc show256 rate \<longleftrightarrow> (\<forall>b. line_ok (henc b)) \<and> (\<forall>n. line_ok (show256 n)) \<and> (\<forall>f dt. line_ok (rate f dt))"

lemma event_line_ok:
  assumes "phase_named e" "printers_ok henc show256 rate"
  shows "line_ok (event_line henc show256 rate t e)"
proof -
  have "list_all line_ok (map (\<lambda>(name, v). member name v) ((''t_ms'', show_nat t) # event_fields henc show256 rate e))"
    using assms by (cases e) (simp_all add: printers_ok_def phase_named_def, simp_all add: NL_def CR_def)
  from line_ok_join [OF this] show ?thesis by (simp add: event_line_def) (simp add: NL_def CR_def)
qed

lemma event_log_lines:
  assumes "printers_ok henc show256 rate" "list_all phase_named es" "length ts = length es" "whole_lines old"
  shows "str_lines (event_log henc show256 rate (map (\<lambda>t. (t, None)) ts) es old)
    = str_lines old @ map2 (event_line henc show256 rate) ts es"
proof -
  let ?lines = "map2 (event_line henc show256 rate) ts es"
  have "event_log henc show256 rate (map (\<lambda>t. (t, None)) ts) es old = append_lines ?lines old"
    using assms(3) unfolding event_log_def append_lines_def
    by (induction ts es arbitrary: old rule: list_induct2) (simp_all add: event_log_line_def)
  moreover have "list_all line_ok ?lines"
    using assms(2) event_line_ok [OF _ assms(1)] by (auto simp: list_all_iff dest: set_zip_rightD)
  ultimately show ?thesis using str_lines_append_lines [OF assms(4)] by simp
qed

interpretation named: growth_invariant "\<lambda>c. list_all phase_named (gc_log c)" phase_named
proof
  show "list_all phase_named (gc_log (snd (gc_emit tools env now units c)))" if "list_all phase_named (gc_log c)" for tools env now units c
    using that gc_log_emit(1) [of tools env now units c] by (force simp: phase_named_def)
  show "list_all phase_named (gc_log (snd (gc_prepay tools env now units c)))" if "list_all phase_named (gc_log c)" for tools env now units c
    using that gc_log_emit(2) [of tools env now units c] by (force simp: phase_named_def)
qed (auto simp: phase_named_def phase_name_def NL_def CR_def split: phase_mode.split)


section \<open>Properties\<close>

text \<open>The report agrees with the log between the start and the end event.\<close>

definition report_logged :: "growth_report \<Rightarrow> growth_event list \<Rightarrow> bool" where
  "report_logged rep mid \<longleftrightarrow>
     gr_cheques rep = of_nat (length (filter is_payment mid)) \<and> gr_cheque_units rep = sum_list (map paid_units mid)
     \<and> gr_cheque_plur rep = sum_list (map (ucast \<circ> paid_plur) mid)
     \<and> List.map_filter lambda_of mid = List.map_filter id (gr_lambda_ms rep)"

lemma log_event_inject: "log_event e c = log_event e' c' \<Longrightarrow> c = c'"
  by (cases c, cases c') (simp add: log_event_def)

lemma growth_log_shape:
  assumes run: "growth_sequence tools sh pp chunks opts inp d (new_growth_conn opts issuable l overlay eth announced) = Some (rep, c, d')"
  shows "\<exists>mid. gc_log c = EvStart overlay (gr_threshold_first rep) (gr_distinct_chunks rep) # mid
        @ [EvEnd (gr_threshold_last rep) (gr_cheques rep) (gr_cheque_units rep) (gr_cheque_plur rep) (gr_refresh_units rep)]
    \<and> list_all (\<lambda>e. \<not> is_bracket e) mid \<and> list_all phase_named mid \<and> report_logged rep mid
    \<and> (go_max_issue_plur opts \<noteq> - 1 \<longrightarrow> unat (sp_issued (gc_spend c)) = sum_list (map (unat \<circ> paid_plur) mid))"
proof -
  let ?c = "new_growth_conn opts issuable l overlay eth announced" and ?m = "go_max_issue_plur opts"
  let ?start = "EvStart (gc_overlay ?c) (gc_threshold ?c) (length chunks)"
  have fresh: "gc_log ?c = []" "reconciled ?m (log_event ?start ?c)" "opened_with ?start (log_event ?start ?c)"
      "list_all phase_named (gc_log (log_event ?start ?c))"
    by (simp_all add: new_growth_conn_def reconciled_def opened_with_def is_payment_def paid_units_def paid_plur_def
        phase_named_def log_event_def)
  obtain s where "sequence_states tools sh pp chunks opts inp d ?c rep c d' s" using growth_sequence_states [OF run] by blast
  then have rep: "gr_threshold_first rep = gc_threshold ?c" "gr_threshold_last rep = gc_threshold c" "gr_distinct_chunks rep = length chunks"
      "gr_cheques rep = gc_cheques c" "gr_cheque_units rep = gc_cheque_units c" "gr_cheque_plur rep = gc_cheque_plur c"
      "gr_refresh_units rep = gc_refresh_units c"
    by (auto simp: sequence_states_def split: prod.splits)
  obtain c_t where ct: "c = log_event (end_event c_t) c_t" "opened_with ?start c_t"
    using bracketed.sequence [OF run fresh(3)] by blast
  then obtain mid where mid: "gc_log c_t = ?start # mid" "list_all (\<lambda>e. \<not> is_bracket e) mid" by (auto simp: opened_with_def)
  have inj: "c = log_event (end_event c_u) c_u \<Longrightarrow> c_u = c_t" for c_u
    using ct(1) by (metis log_event_inject)
  have rec: "reconciled ?m c_t" using counted.sequence [OF run fresh(2)] inj by blast
  have nam: "list_all phase_named (gc_log c_t)" using named.sequence [OF run fresh(4)] inj by blast
  have lam: "List.map_filter lambda_of (gc_log c) = List.map_filter id (gr_lambda_ms rep)"
    by (rule growth_sequence_lambdas [OF run fresh(1)])
  have "gc_log c = ?start # mid @ [end_event c_t]" by (simp add: ct(1) mid(1))
  moreover have "?start = EvStart overlay (gr_threshold_first rep) (gr_distinct_chunks rep)"
    by (simp add: rep) (simp add: new_growth_conn_def)
  moreover have "end_event c_t = EvEnd (gr_threshold_last rep) (gr_cheques rep) (gr_cheque_units rep) (gr_cheque_plur rep) (gr_refresh_units rep)"
    by (simp add: rep) (simp add: ct(1) end_event_def)
  moreover have "report_logged rep mid"
    using rec lam by (simp add: report_logged_def rep) (simp add: ct(1) reconciled_def mid(1) is_payment_def paid_units_def paid_plur_def
        lambda_of_def end_event_def List.map_filter_def)
  moreover have "?m \<noteq> - 1 \<longrightarrow> unat (sp_issued (gc_spend c)) = sum_list (map (unat \<circ> paid_plur) mid)"
    using rec by (simp add: ct(1)) (simp add: reconciled_def mid(1) paid_plur_def)
  ultimately show ?thesis using mid(2) nam mid(1) by simp
qed

text \<open>
  C30 The event log of a growth measurement starts with one start event and ends with one end event,
  and the report agrees with what lies between: the number, the units and the amount of the cheques
  are the sums over the cheque and prepay events, the latencies are those of the lambda events in
  order, and what the spend counter says was issued is the sum of the logged amounts, for every cap
  but the largest word.
\<close>
theorem growth_log_reconciles:
  assumes "probe_growth tools sh rd pp chunks opts overlay log_opens balance paid outcome d inp = Inr (Some (rep, c, d'))"
    and "go_max_issue_plur opts \<noteq> - 1"
  shows "\<exists>mid. gc_log c = EvStart overlay (gr_threshold_first rep) (gr_distinct_chunks rep) # mid
        @ [EvEnd (gr_threshold_last rep) (gr_cheques rep) (gr_cheque_units rep) (gr_cheque_plur rep) (gr_refresh_units rep)]
    \<and> list_all (\<lambda>e. \<not> is_bracket e) mid \<and> report_logged rep mid
    \<and> unat (sp_issued (gc_spend c)) = sum_list (map (unat \<circ> paid_plur) mid)"
  using probe_growth_runs [OF assms(1)] growth_log_shape assms(2) by metis

theorem growth_log_reconciles_witness:
  "\<exists>rep c d mid. probe_growth sample_tools show_uint parse_uint (\<lambda>_ _. 1000) (replicate 20 []) sample_growth_opts []
      True (Some (to_be_bytes 32 1000)) (Some (to_be_bytes 32 0)) (Shaken [] [] None) \<lparr>dk_file = None, dk_tmp = None\<rparr>
      sample_growth_input = Inr (Some (rep, c, d))
    \<and> gc_log c = EvStart [] (gr_threshold_first rep) (gr_distinct_chunks rep) # mid
        @ [EvEnd (gr_threshold_last rep) (gr_cheques rep) (gr_cheque_units rep) (gr_cheque_plur rep) (gr_refresh_units rep)]
    \<and> report_logged rep mid"
proof -
  obtain rep c d where run: "probe_growth sample_tools show_uint parse_uint (\<lambda>_ _. 1000) (replicate 20 []) sample_growth_opts []
      True (Some (to_be_bytes 32 1000)) (Some (to_be_bytes 32 0)) (Shaken [] [] None) \<lparr>dk_file = None, dk_tmp = None\<rparr>
      sample_growth_input = Inr (Some (rep, c, d))"
    using sample_growth_run by blast
  have cap: "go_max_issue_plur sample_growth_opts \<noteq> - 1" by (simp add: sample_growth_opts_def)
  show ?thesis using run growth_log_reconciles [OF run cap] by blast
qed

text \<open>
  Appended to a file of whole lines, with no write lost, the event log of a measurement adds
  one line for each event, in order: the first is the start event and the last carries the report's
  totals, and what earlier runs left is kept.
\<close>
theorem growth_log_on_disk:
  assumes "probe_growth tools sh rd pp chunks opts overlay log_opens balance paid outcome d inp = Inr (Some (rep, c, d'))"
    and "printers_ok henc show256 rate" "event_log_open LogOpens on_disk = Some old" "whole_lines old" "length ts = length (gc_log c)"
  shows "\<exists>mid. str_lines (event_log henc show256 rate (map (\<lambda>t. (t, None)) ts) (gc_log c) old)
      = str_lines old @ event_line henc show256 rate (hd ts) (EvStart overlay (gr_threshold_first rep) (gr_distinct_chunks rep)) # mid
        @ [event_line henc show256 rate (last ts)
             (EvEnd (gr_threshold_last rep) (gr_cheques rep) (gr_cheque_units rep) (gr_cheque_plur rep) (gr_refresh_units rep))]
    \<and> length mid + 2 = length (gc_log c)"
proof -
  let ?line = "event_line henc show256 rate"
  obtain mid where log: "gc_log c = EvStart overlay (gr_threshold_first rep) (gr_distinct_chunks rep) # mid
        @ [EvEnd (gr_threshold_last rep) (gr_cheques rep) (gr_cheque_units rep) (gr_cheque_plur rep) (gr_refresh_units rep)]"
      and named: "list_all phase_named mid"
    using probe_growth_runs [OF assms(1)] growth_log_shape by metis
  then have len: "length ts = Suc (Suc (length mid))" using assms(5) by simp
  then obtain t0 ts' where ts: "ts = t0 # ts'" by (cases ts) auto
  then obtain tm t1 where ts': "ts' = tm @ [t1]" using len by (cases ts' rule: rev_cases) auto
  have "list_all phase_named (gc_log c)" using named by (simp add: log phase_named_def)
  from event_log_lines [OF assms(2) this assms(5,4)]
  have "str_lines (event_log henc show256 rate (map (\<lambda>t. (t, None)) ts) (gc_log c) old)
      = str_lines old @ map2 ?line ts (gc_log c)" .
  moreover have "map2 ?line ts (gc_log c) = ?line t0 (hd (gc_log c)) # map2 ?line tm mid @ [?line t1 (last (gc_log c))]"
    using len by (simp add: ts ts' log)
  ultimately show ?thesis using len by (intro exI [of _ "map2 ?line tm mid"]) (simp add: ts ts' log)
qed

theorem growth_log_on_disk_witness:
  "\<exists>rep c d ts mid. probe_growth sample_tools show_uint parse_uint (\<lambda>_ _. 1000) (replicate 20 []) sample_growth_opts []
      True (Some (to_be_bytes 32 1000)) (Some (to_be_bytes 32 0)) (Shaken [] [] None) \<lparr>dk_file = None, dk_tmp = None\<rparr>
      sample_growth_input = Inr (Some (rep, c, d))
    \<and> str_lines (event_log (\<lambda>_. ''00'') show_uint (\<lambda>_ _. ''0.0000'') (map (\<lambda>t. (t, None)) ts) (gc_log c) [])
      = event_line (\<lambda>_. ''00'') show_uint (\<lambda>_ _. ''0.0000'') (hd ts) (EvStart [] (gr_threshold_first rep) (gr_distinct_chunks rep)) # mid
        @ [event_line (\<lambda>_. ''00'') show_uint (\<lambda>_ _. ''0.0000'') (last ts)
             (EvEnd (gr_threshold_last rep) (gr_cheques rep) (gr_cheque_units rep) (gr_cheque_plur rep) (gr_refresh_units rep))]"
proof -
  obtain rep c d where run: "probe_growth sample_tools show_uint parse_uint (\<lambda>_ _. 1000) (replicate 20 []) sample_growth_opts []
      True (Some (to_be_bytes 32 1000)) (Some (to_be_bytes 32 0)) (Shaken [] [] None) \<lparr>dk_file = None, dk_tmp = None\<rparr>
      sample_growth_input = Inr (Some (rep, c, d))"
    using sample_growth_run by blast
  have ok: "printers_ok (\<lambda>_. ''00'') show_uint (\<lambda>_ _. ''0.0000'')"
    by (simp add: printers_ok_def) (simp add: NL_def CR_def)
  have opened: "event_log_open LogOpens None = Some []" and whole: "whole_lines []"
    by (simp_all add: event_log_open_def whole_lines_def)
  have none: "str_lines [] = []" by (simp add: str_lines_def)
  show ?thesis
    using run growth_log_on_disk [OF run ok opened whole length_replicate, unfolded none append_Nil] by blast
qed

end
