(* ===== verification/Measurements.thy ===== *)
theory Measurements
  imports Growth_Log Commands
begin

text \<open>
  The measurement files the commands keep (\<^verbatim>\<open>append_csv\<close> of \<^verbatim>\<open>growth_cmd.rs\<close>, \<^verbatim>\<open>probe.rs\<close> and
  \<^verbatim>\<open>fetchdirect.rs\<close> under \<^verbatim>\<open>rust/ds-cli/src\<close>): one row a run under a header written when the file is
  new. Floating-point cells are texts passed in; \<open>henc\<close> is hexadecimal encoding.
\<close>

section \<open>Rows\<close>

definition GROWTH_HEADER :: string where
  "GROWTH_HEADER = ''peer_overlay,threshold_first,threshold_last,upgrades,growth_wall_s,growth_fetches_ok,growth_fetches_err,growth_mbs,growth_units,lambda1_ms,lambda2_ms,lambda3_ms,ceiling_wall_s,ceiling_fetches_ok,ceiling_mbs,cheques,cheque_units,cheque_plur,refresh_units,zero_confirmed,spend_capped''"

definition PROBE_HEADER :: string where
  "PROBE_HEADER = ''peer_overlay,requested,chunks_ok,chunks_err,bytes,wall_secs,mb_per_s,pipeline_depth,handshake_ms,lat_p50_ms,lat_p95_ms,cheques,cheque_units,cheque_plur,exchange_rate,refreshes,refresh_units,residual_debt_units,announced_threshold''"

definition DIRECT_HEADER :: string where
  "DIRECT_HEADER = ''connections,depth,chunks_direct,chunks_fallback,chunks_dropped,direct_bytes,wall_secs,direct_mb_per_s,mb_per_s_per_conn,cheques,cheque_plur,refresh_units,residual_units''"

definition shown_or_empty :: "('a \<Rightarrow> string) \<Rightarrow> 'a option \<Rightarrow> string" where
  "shown_or_empty sh v = (case v of None \<Rightarrow> [] | Some n \<Rightarrow> sh n)"

definition show_flag :: "bool \<Rightarrow> string" where
  "show_flag b = (if b then ''1'' else ''0'')"

definition lambda_cell :: "growth_report \<Rightarrow> nat \<Rightarrow> string" where
  "lambda_cell r i = (if i < length (gr_lambda_ms r) then shown_or_empty show_uint (gr_lambda_ms r ! i) else [])"

text \<open>The wall time and the rate of a phase, as printed.\<close>

record phase_texts =
  pt_wall :: string
  pt_mbs :: string

definition growth_row :: "(bytes \<Rightarrow> string) \<Rightarrow> swarm_address \<Rightarrow> phase_texts \<Rightarrow> phase_texts \<Rightarrow> growth_report \<Rightarrow> string list" where
  "growth_row henc overlay growth ceiling r =
     [henc overlay, show_uint (gr_threshold_first r), show_uint (gr_threshold_last r), show_uint (gr_upgrades_observed r),
      pt_wall growth, show_uint (st_fetches_ok (gr_growth r)), show_uint (st_fetches_err (gr_growth r)), pt_mbs growth,
      show_uint (st_units_settled (gr_growth r)), lambda_cell r 0, lambda_cell r 1, lambda_cell r 2,
      (case gr_ceiling r of None \<Rightarrow> ''0.0'' | Some c \<Rightarrow> pt_wall ceiling),
      show_uint (case gr_ceiling r of None \<Rightarrow> 0 | Some c \<Rightarrow> st_fetches_ok c),
      (case gr_ceiling r of None \<Rightarrow> ''0.0000'' | Some c \<Rightarrow> pt_mbs ceiling),
      show_uint (gr_cheques r), show_uint (gr_cheque_units r), show_uint (gr_cheque_plur r), show_uint (gr_refresh_units r),
      (case gr_residual_zero_confirmed r of None \<Rightarrow> ''-1'' | Some z \<Rightarrow> show_flag z), show_flag (gr_spend_capped r)]"

definition probe_row ::
  "(bytes \<Rightarrow> string) \<Rightarrow> (U256 \<Rightarrow> string) \<Rightarrow> swarm_address \<Rightarrow> nat \<Rightarrow> nat \<Rightarrow> nat \<Rightarrow> string \<Rightarrow> string \<Rightarrow> probe_report \<Rightarrow> string list" where
  "probe_row henc show256 overlay requested depth handshake_ms wall mbs r =
     (let lat = sort (rp_latencies_ms r); s = rp_settlement r in
      [henc overlay, show_nat requested, show_uint (rp_chunks_ok r), show_uint (rp_chunks_err r), show_uint (rp_bytes r),
       wall, mbs, show_nat (min depth 32), show_nat handshake_ms, show_uint (median lat), show_uint (percentile95 lat),
       show_uint (su_cheques_issued s), show_uint (su_cheque_units s), show_uint (su_cheque_plur s),
       shown_or_empty show_uint (su_exchange_rate s), show_uint (su_refreshes_accepted s), show_uint (su_refresh_units s),
       show_uint (su_residual_debt_units s), shown_or_empty show256 (rp_announced_threshold r)])"

definition direct_row :: "nat \<Rightarrow> string \<Rightarrow> string \<Rightarrow> string \<Rightarrow> schedule_report \<Rightarrow> string list" where
  "direct_row depth wall mbps per_conn r =
     [show_uint (sr_connections_opened r), show_nat depth, show_uint (sr_chunks_from_direct r),
      show_uint (sr_chunks_from_fallback r), show_uint (sr_chunks_dropped_uncovered r), show_uint (sr_direct_bytes r),
      wall, mbps, per_conn, show_uint (sr_cheques_issued r), show_uint (sr_cheque_plur r), show_uint (sr_refresh_units r),
      show_uint (sr_residual_debt_units r)]"

section \<open>Runs\<close>

text \<open>A failed write of the row is only a warning: it does not change the exit code.\<close>

definition growth_measured ::
  "(bytes \<Rightarrow> string) \<Rightarrow> swarm_address \<Rightarrow> (growth_report \<times> phase_texts \<times> phase_texts) option \<Rightarrow> append_fault \<Rightarrow> string option \<Rightarrow>
   int \<times> string option" where
  "growth_measured henc overlay run fault old =
     (case run of
        None \<Rightarrow> (1, old)
      | Some (r, growth, ceiling) \<Rightarrow>
          (0, snd (append_row GROWTH_HEADER (csv_row (growth_row henc overlay growth ceiling r)) fault old)))"

definition probe_measured ::
  "(bytes \<Rightarrow> string) \<Rightarrow> (U256 \<Rightarrow> string) \<Rightarrow> swarm_address \<Rightarrow> nat \<Rightarrow> nat \<Rightarrow> (probe_report \<times> nat \<times> string \<times> string) option \<Rightarrow>
   append_fault \<Rightarrow> string option \<Rightarrow> int \<times> string option" where
  "probe_measured henc show256 overlay requested depth run fault old =
     (case run of
        None \<Rightarrow> (1, old)
      | Some (r, handshake_ms, wall, mbs) \<Rightarrow>
          (if rp_chunks_ok r = 0 then 1 else 0,
           snd (append_row PROBE_HEADER (csv_row (probe_row henc show256 overlay requested depth handshake_ms wall mbs r)) fault old)))"

definition direct_measured ::
  "nat \<Rightarrow> (schedule_report \<times> string \<times> string \<times> string) \<Rightarrow> append_fault \<Rightarrow> string option \<Rightarrow> int \<times> string option" where
  "direct_measured depth run fault old =
     (case run of (r, wall, mbps, per_conn) \<Rightarrow>
        (if sr_chunks_from_direct r = 0 then 1 else 0,
         snd (append_row DIRECT_HEADER (csv_row (direct_row depth wall mbps per_conn r)) fault old)))"

section \<open>Cells\<close>

lemma cell_ok_decimal [simp]: "cell_ok (show_uint w)" "cell_ok (show_nat n)"
  by (simp_all add: cell_ok_def decimal_show_nat)

lemma cell_ok_Nil [simp]: "cell_ok []"
  by (simp add: cell_ok_def)

lemma cell_ok_option: "(\<And>n. cell_ok (sh n)) \<Longrightarrow> cell_ok (shown_or_empty sh v)"
  by (simp add: shown_or_empty_def split: option.split)

lemma cell_ok_flag [simp]: "cell_ok (show_flag b)" "cell_ok ''-1''" "cell_ok ''0.0''" "cell_ok ''0.0000''"
  by (simp_all add: show_flag_def cell_ok_def) (simp_all add: NL_def CR_def)

lemma cell_ok_lambda [simp]: "cell_ok (lambda_cell r i)"
  by (simp add: lambda_cell_def cell_ok_option)

lemma growth_row_ok:
  assumes "cell_ok (henc overlay)" "cell_ok (pt_wall g)" "cell_ok (pt_mbs g)" "cell_ok (pt_wall c)" "cell_ok (pt_mbs c)"
  shows "list_all cell_ok (growth_row henc overlay g c r)" "length (growth_row henc overlay g c r) = 21"
  using assms by (auto simp: growth_row_def split: option.split)

lemma probe_row_ok:
  assumes "cell_ok (henc overlay)" "\<And>n. cell_ok (show256 n)" "cell_ok wall" "cell_ok mbs"
  shows "list_all cell_ok (probe_row henc show256 overlay requested depth ms wall mbs r)"
    "length (probe_row henc show256 overlay requested depth ms wall mbs r) = 19"
  using assms by (simp_all add: probe_row_def Let_def cell_ok_option)

lemma direct_row_ok:
  assumes "cell_ok wall" "cell_ok mbps" "cell_ok per_conn"
  shows "list_all cell_ok (direct_row depth wall mbps per_conn r)" "length (direct_row depth wall mbps per_conn r) = 13"
  using assms by (simp_all add: direct_row_def)

lemma headers_ok:
  "line_ok GROWTH_HEADER" "length (split_on (CHR '','') GROWTH_HEADER) = 21"
  "line_ok PROBE_HEADER" "length (split_on (CHR '','') PROBE_HEADER) = 19"
  "line_ok DIRECT_HEADER" "length (split_on (CHR '','') DIRECT_HEADER) = 13"
  by (simp_all add: GROWTH_HEADER_def PROBE_HEADER_def DIRECT_HEADER_def NL_def CR_def)


section \<open>Many runs\<close>

definition append_rows :: "string \<Rightarrow> (string list \<times> append_fault) list \<Rightarrow> string option \<Rightarrow> string option" where
  "append_rows header rs old = fold (\<lambda>(cs, fault) f. snd (append_row header (csv_row cs) fault f)) rs old"

definition not_torn :: "append_fault \<Rightarrow> bool" where
  "not_torn fault \<longleftrightarrow> fault \<in> {AppendOk, DirFails, OpenAppendFails}"

definition written :: "(string list \<times> append_fault) list \<Rightarrow> string list" where
  "written rs = map (csv_row \<circ> fst) (filter (\<lambda>r. snd r = AppendOk) rs)"

lemma written_simps [simp]:
  "written [] = []" "written ((cs, fault) # rs) = (if fault = AppendOk then csv_row cs # written rs else written rs)"
  by (simp_all add: written_def)

lemma append_row_untorn:
  assumes "not_torn fault" "line_ok (csv_row cs)" "whole_lines f"
  shows "snd (append_row header (csv_row cs) fault (Some f)) = Some (if fault = AppendOk then append_line None (csv_row cs) f else f)"
  using assms by (auto simp: append_row_def not_torn_def Let_def)

text \<open>A file that exists only grows by the rows written; whatever it began with stays its beginning.\<close>

lemma append_rows_some:
  assumes "list_all (\<lambda>(cs, fault). list_all cell_ok cs \<and> not_torn fault) rs" "whole_lines f"
  shows "\<exists>f'. append_rows header rs (Some f) = Some f' \<and> str_lines f' = str_lines f @ written rs \<and> whole_lines f'"
  using assms
proof (induction rs arbitrary: f)
  case (Cons r rs)
  obtain cs fault where r: "r = (cs, fault)" by force
  have ok: "line_ok (csv_row cs)" "not_torn fault" using Cons.prems(1) r csv_row_ok by auto
  let ?f = "if fault = AppendOk then append_line None (csv_row cs) f else f"
  have "whole_lines ?f" "str_lines ?f = str_lines f @ written [r]"
    using str_lines_append_line [OF Cons.prems(2) ok(1)] Cons.prems(2) by (simp_all add: r)
  with Cons.IH [of ?f] Cons.prems(1) append_row_untorn [OF ok(2,1) Cons.prems(2)] show ?case
    by (auto simp: append_rows_def r)
qed (simp add: append_rows_def)

lemma append_rows_none:
  assumes "list_all (\<lambda>(cs, fault). list_all cell_ok cs \<and> not_torn fault) rs" "line_ok header"
  shows "case append_rows header rs None of None \<Rightarrow> written rs = [] | Some f \<Rightarrow> str_lines f = header # written rs \<and> whole_lines f"
  using assms(1)
proof (induction rs)
  case (Cons r rs)
  obtain cs fault where r: "r = (cs, fault)" by force
  have ok: "line_ok (csv_row cs)" "not_torn fault" and rest: "list_all (\<lambda>(cs, fault). list_all cell_ok cs \<and> not_torn fault) rs"
    using Cons.prems(1) r csv_row_ok by auto
  show ?case
  proof (cases "fault = AppendOk")
    case True
    let ?f = "append_line None (csv_row cs) (append_line None header [])"
    have "append_rows header (r # rs) None = append_rows header rs (Some ?f)"
      by (simp add: append_rows_def r True append_row_def)
    moreover have h: "str_lines (append_line None header []) = [header]" "whole_lines (append_line None header [])"
      using str_lines_append_line [of "[]", OF _ assms(2)] by (simp_all add: whole_lines_def str_lines_def)
    have "str_lines ?f = [header, csv_row cs]" "whole_lines ?f"
      using str_lines_append_line [OF h(2) ok(1)] h(1) by simp_all
    ultimately show ?thesis using append_rows_some [OF rest, of ?f header] r True by auto
  next
    case False
    then have "append_rows header (r # rs) None = append_rows header rs None"
      using ok(2) by (auto simp: append_rows_def r append_row_def not_torn_def)
    with Cons.IH [OF rest] False r show ?thesis by (simp cong: option.case_cong)
  qed
qed (simp add: append_rows_def)

section \<open>Properties\<close>

definition texts_ok :: "phase_texts \<Rightarrow> bool" where
  "texts_ok t \<longleftrightarrow> cell_ok (pt_wall t) \<and> cell_ok (pt_mbs t)"

definition growth_rows ::
  "(bytes \<Rightarrow> string) \<Rightarrow> (swarm_address \<times> (growth_report \<times> phase_texts \<times> phase_texts) option \<times> append_fault) list \<Rightarrow> (string list \<times> append_fault) list" where
  "growth_rows henc runs = List.map_filter (\<lambda>(overlay, run, fault).
     case run of None \<Rightarrow> None | Some (r, g, c) \<Rightarrow> Some (growth_row henc overlay g c r, fault)) runs"

lemma growth_runs_append:
  "fold (\<lambda>(overlay, run, fault) f. snd (growth_measured henc overlay run fault f)) runs f0
    = append_rows GROWTH_HEADER (growth_rows henc runs) f0"
  by (induction runs arbitrary: f0)
    (auto simp: growth_rows_def append_rows_def growth_measured_def List.map_filter_def split: option.split)

text \<open>
  After any number of growth measurements, some of which failed or could not open the file, a
  measurement file that did not exist at the start is either still missing, with no row written, or
  holds the header and then the row of every measurement that was written, each of as many cells as
  the header has.
\<close>
theorem growth_measurements_table:
  assumes "\<And>b. cell_ok (henc b)"
    and "\<And>overlay r g c fault. (overlay, Some (r, g, c), fault) \<in> set runs \<Longrightarrow> texts_ok g \<and> texts_ok c \<and> not_torn fault"
  shows "case fold (\<lambda>(overlay, run, fault) f. snd (growth_measured henc overlay run fault f)) runs None of
      None \<Rightarrow> written (growth_rows henc runs) = []
    | Some f \<Rightarrow> csv_table GROWTH_HEADER f \<and> str_lines f = GROWTH_HEADER # written (growth_rows henc runs)"
proof -
  let ?rs = "growth_rows henc runs"
  have row: "list_all cell_ok cs \<and> length cs = 21 \<and> not_torn fault" if "(cs, fault) \<in> set ?rs" for cs fault
    using that assms growth_row_ok [of henc]
    by (auto simp: growth_rows_def List.map_filter_def texts_ok_def split: option.splits)
  then have ok: "list_all (\<lambda>(cs, fault). list_all cell_ok cs \<and> not_torn fault) ?rs" by (auto simp: list_all_iff)
  have cells: "length (split_on (CHR '','') r) = 21" if "r \<in> set (written ?rs)" for r
    using that row csv_row_cells by (fastforce simp: written_def)
  show ?thesis
  proof (cases "append_rows GROWTH_HEADER ?rs None")
    case (Some f)
    then have "str_lines f = GROWTH_HEADER # written ?rs" "whole_lines f" using append_rows_none [OF ok headers_ok(1)] by simp_all
    then show ?thesis using cells by (simp add: growth_runs_append Some csv_table_def headers_ok(2))
  qed (use append_rows_none [OF ok headers_ok(1)] in \<open>simp add: growth_runs_append\<close>)
qed

definition sample_texts :: phase_texts where
  "sample_texts = \<lparr>pt_wall = ''1.0'', pt_mbs = ''0.5000''\<rparr>"

definition sample_growth_report :: growth_report where
  "sample_growth_report = \<lparr>gr_threshold_first = 13500000, gr_threshold_last = 13950000, gr_upgrades_observed = 1,
     gr_growth = default_stats, gr_ceiling = None, gr_lambda_ms = [Some 700, None], gr_distinct_chunks = 20, gr_cheques = 1,
     gr_cheque_units = 100, gr_cheque_plur = 100, gr_refreshes = 0, gr_refresh_units = 0,
     gr_residual_zero_confirmed = Some True, gr_spend_capped = False\<rparr>"

lemma sample_texts_ok: "texts_ok sample_texts" "cell_ok ''00''"
  by (simp_all add: texts_ok_def sample_texts_def cell_ok_def) (simp_all add: NL_def CR_def)

theorem growth_measurements_table_witness:
  "\<exists>f. snd (growth_measured (\<lambda>_. ''00'') [] (Some (sample_growth_report, sample_texts, sample_texts)) AppendOk None) = Some f
    \<and> csv_table GROWTH_HEADER f
    \<and> str_lines f = [GROWTH_HEADER, csv_row (growth_row (\<lambda>_. ''00'') [] sample_texts sample_texts sample_growth_report)]"
proof -
  let ?runs = "[([] :: swarm_address, Some (sample_growth_report, sample_texts, sample_texts), AppendOk),
    ([], None, AppendOk), ([], Some (sample_growth_report, sample_texts, sample_texts), DirFails)]"
  have "case fold (\<lambda>(overlay, run, fault) f. snd (growth_measured (\<lambda>_. ''00'') overlay run fault f)) ?runs None of
      None \<Rightarrow> written (growth_rows (\<lambda>_. ''00'') ?runs) = []
    | Some f \<Rightarrow> csv_table GROWTH_HEADER f \<and> str_lines f = GROWTH_HEADER # written (growth_rows (\<lambda>_. ''00'') ?runs)"
    by (rule growth_measurements_table) (use sample_texts_ok in \<open>auto simp: not_torn_def\<close>)
  then show ?thesis
    by (simp add: growth_measured_def append_row_def growth_rows_def List.map_filter_def)
qed

text \<open>
  When the write of the header stops part-way, no later run repairs the file: the first row is
  written after what is left of the header, on the same line, and the header is not written again.
\<close>
theorem header_fault_persists:
  assumes "append_row header (csv_row cs0) (HeaderFails k) None = (Inl e, Some f0)" "k \<le> length header"
    and "line_ok header" "list_all cell_ok cs"
    and "list_all (\<lambda>(cs, fault). list_all cell_ok cs \<and> not_torn fault) rs"
  shows "\<exists>f. append_rows header ((cs, AppendOk) # rs) (Some f0) = Some f
    \<and> str_lines f = (take k header @ csv_row cs) # written rs"
proof -
  have f0: "f0 = take k header" using assms(1,2) by (simp add: append_row_def append_line_def)
  have "line_ok (take k header)" using assms(3) by (auto simp: line_ok_def dest: in_set_takeD)
  then have ok: "line_ok (take k header @ csv_row cs)" using csv_row_ok [OF assms(4)] by simp
  let ?f1 = "append_line None (take k header @ csv_row cs) []"
  have "snd (append_row header (csv_row cs) AppendOk (Some f0)) = Some ?f1"
    by (simp add: append_row_def append_line_def f0)
  moreover have "str_lines ?f1 = [take k header @ csv_row cs]" "whole_lines ?f1"
    using str_lines_append_line [of "[]", OF _ ok] by (simp_all add: whole_lines_def str_lines_def)
  ultimately show ?thesis using append_rows_some [OF assms(5), of ?f1 header] by (auto simp: append_rows_def)
qed

theorem header_fault_persists_witness:
  "\<exists>f. append_rows ''a,b'' [([''1'', ''2''], AppendOk), ([''3'', ''4''], AppendOk)] (Some ''a'') = Some f
    \<and> str_lines f = [''a1,2'', ''3,4'']"
proof -
  have torn: "append_row ''a,b'' (csv_row [''0'', ''0'']) (HeaderFails 1) None = (Inl (HeaderFails 1), Some ''a'')"
    by (simp add: append_row_def append_line_def)
  have ok: "1 \<le> length ''a,b''" "line_ok ''a,b''" "list_all cell_ok [''1'', ''2'']"
      "list_all (\<lambda>(cs, fault). list_all cell_ok cs \<and> not_torn fault) [([''3'', ''4''], AppendOk)]"
    by (simp_all add: cell_ok_def not_torn_def) (simp_all add: NL_def CR_def)
  show ?thesis using header_fault_persists [OF torn ok] by (simp add: csv_row_def)
qed

end
