(* ===== verification/Probe_Session.thy ===== *)
theory Probe_Session
  imports Growth_Probe Crawl
begin

text \<open>
  A whole session with one storer (\<^verbatim>\<open>probe_storer\<close>, \<^verbatim>\<open>mount_sinks\<close>, the sink loops and
  \<^verbatim>\<open>settlement_loop\<close> of \<^verbatim>\<open>rust/ds-net/src/direct.rs\<close>), the swarm task of the crawler
  (\<^verbatim>\<open>rust/ds-net/src/crawl.rs\<close>) and the dial of the scheduled fetch (\<^verbatim>\<open>run_connection\<close> of
  \<^verbatim>\<open>rust/ds-net/src/schedule.rs\<close>): the protocols claimed before the dial, the set-up with its early
  returns, the task that owns the swarm, the settlement loop from its start to its return, the
  interleaving of retrieval and settlement, and the report put together from them.
\<close>

section \<open>Sinks\<close>

definition PROTOCOL_PRICING :: string where "PROTOCOL_PRICING = ''/swarm/pricing/1.0.0/pricing''"
definition PROTOCOL_HIVE_V2 :: string where "PROTOCOL_HIVE_V2 = ''/swarm/hive/2.0.0/peers''"
definition PROTOCOL_HIVE_V1 :: string where "PROTOCOL_HIVE_V1 = ''/swarm/hive/1.1.0/peers''"

datatype sink_task = PricingSink | HiveSink | DrainSink nat | PseudosettleInbound | SwapDrain

text \<open>
  Registering a protocol fails when it is registered already; \<open>reg\<close> are the registered ones.
  The names of the two settlement protocols come from the library that serves them.
\<close>

fun accept_all :: "string list \<Rightarrow> string list \<Rightarrow> (string, string list) result" where
  "accept_all [] reg = Inr reg"
| "accept_all (proto # protos) reg = (if proto \<in> set reg then Inl proto else accept_all protos (reg @ [proto]))"

definition sink_protocols :: "string \<Rightarrow> string \<Rightarrow> string list" where
  "sink_protocols pseudosettle swap = [PROTOCOL_PRICING, PROTOCOL_HIVE_V2, PROTOCOL_HIVE_V1, pseudosettle, swap]"

definition mount_sinks :: "string \<Rightarrow> string \<Rightarrow> string list \<Rightarrow> (string, (string \<times> sink_task) list) result" where
  "mount_sinks pseudosettle swap reg =
     (case accept_all (sink_protocols pseudosettle swap) reg of
        Inl proto \<Rightarrow> Inl proto
      | Inr _ \<Rightarrow> Inr [(PROTOCOL_PRICING, PricingSink), (PROTOCOL_HIVE_V2, DrainSink (64 * 1024)),
          (PROTOCOL_HIVE_V1, DrainSink (64 * 1024)), (pseudosettle, PseudosettleInbound), (swap, SwapDrain)])"

text \<open>The crawler registers the same protocols, listens to the gossip, and panics (\<open>None\<close>) where the probe returns an error.\<close>

definition mount_crawl_sinks :: "string \<Rightarrow> string \<Rightarrow> string list \<Rightarrow> (string \<times> sink_task) list option" where
  "mount_crawl_sinks pseudosettle swap reg =
     (case accept_all (sink_protocols pseudosettle swap) reg of
        Inl _ \<Rightarrow> None
      | Inr _ \<Rightarrow> Some [(PROTOCOL_PRICING, DrainSink 1024), (PROTOCOL_HIVE_V2, HiveSink), (PROTOCOL_HIVE_V1, HiveSink),
          (pseudosettle, PseudosettleInbound), (swap, SwapDrain)])"

text \<open>The streams of a drained protocol are read within their bound; nothing is kept but the error that is traced.\<close>

definition run_drain_sink :: "nat \<Rightarrow> sink_env list \<Rightarrow> sink_error list" where
  "run_drain_sink cap incoming =
     List.map_filter (\<lambda>env. case read_sink_body cap env of Inl SinkTimeout \<Rightarrow> None | Inl e \<Rightarrow> Some e | Inr _ \<Rightarrow> None) incoming"

definition run_pricing_sink :: "sink_env list \<Rightarrow> U256 option \<Rightarrow> U256 option" where
  "run_pricing_sink incoming announced = fold pricing_sink incoming announced"

section \<open>The task that owns the swarm\<close>

datatype ('p, 'm) swarm_life = ConnectionClosed 'p | OtherSwarmEvent | SwarmGoneAway | Bye | ByeDropped

record session_driver =
  sd_alive :: bool
  sd_running :: bool
  sd_hung_up :: bool
  sd_acked :: bool

definition driver_start :: session_driver where
  "driver_start = \<lparr>sd_alive = True, sd_running = True, sd_hung_up = False, sd_acked = False\<rparr>"

text \<open>A bye whose sender was dropped hangs up too, with nobody to tell.\<close>

definition driver_step :: "'p \<Rightarrow> ('p, 'm) swarm_life \<Rightarrow> session_driver \<Rightarrow> session_driver" where
  "driver_step peer ev d =
     (if \<not> sd_running d then d
      else case ev of
        SwarmGoneAway \<Rightarrow> d\<lparr>sd_running := False\<rparr>
      | ConnectionClosed p \<Rightarrow> (if p = peer then d\<lparr>sd_alive := False\<rparr> else d)
      | OtherSwarmEvent \<Rightarrow> d
      | Bye \<Rightarrow> d\<lparr>sd_hung_up := True, sd_alive := False, sd_acked := True, sd_running := False\<rparr>
      | ByeDropped \<Rightarrow> d\<lparr>sd_hung_up := True, sd_alive := False, sd_running := False\<rparr>)"

definition drive_session :: "'p \<Rightarrow> ('p, 'm) swarm_life list \<Rightarrow> session_driver" where
  "drive_session peer evs = fold (driver_step peer) evs driver_start"

text \<open>The crawler's task turns what the swarm reports into events and carries out the commands, until one channel ends.\<close>

datatype ('p, 'm) crawl_poll = SwarmPoll "('p, 'm) swarm_event option" | CmdPoll "('p, 'm) cmd option"

definition evt_of :: "('p, 'm) swarm_event \<Rightarrow> 'p evt option" where
  "evt_of ev = (case ev of
     Established p _ \<Rightarrow> Some (Connected p)
   | DialError (Some p) \<Rightarrow> Some (Failed p)
   | IdentifyReceived p \<Rightarrow> Some (Identified p)
   | _ \<Rightarrow> None)"

fun crawl_driver :: "('p, 'm) crawl_poll list \<Rightarrow> 'p evt list \<times> ('p, 'm) cmd list" where
  "crawl_driver [] = ([], [])"
| "crawl_driver (SwarmPoll None # rest) = ([], [])"
| "crawl_driver (CmdPoll None # rest) = ([], [])"
| "crawl_driver (SwarmPoll (Some ev) # rest) =
     (case crawl_driver rest of (evts, cmds) \<Rightarrow> (case evt_of ev of Some e \<Rightarrow> e # evts | None \<Rightarrow> evts, cmds))"
| "crawl_driver (CmdPoll (Some cmd) # rest) = (case crawl_driver rest of (evts, cmds) \<Rightarrow> (evts, cmd # cmds))"

section \<open>Dialing one storer\<close>

record ('p, 'm) dial_input =
  di_built :: bool
  di_registered :: "string list"
  di_dialed :: bool
  di_polls :: "('p, 'm) swarm_poll list"
  di_shake :: "'p \<Rightarrow> 'm \<Rightarrow> wire_version \<Rightarrow> (swarm_address \<times> bytes) handshake"
  di_announced :: "U256 option"

text \<open>
  The handshake is spoken over the address the connection was established on; what the dial
  learned when the pause after it is over is the outcome.
\<close>

definition direct_dial ::
  "('m \<Rightarrow> 'p protocol list) \<Rightarrow> string \<Rightarrow> string \<Rightarrow> 'm \<Rightarrow> ('p, 'm) dial_input \<Rightarrow> dial_outcome" where
  "direct_dial protocols pseudosettle swap underlay inp =
     (case extract_peer_id protocols underlay of
        None \<Rightarrow> NoPeerId
      | Some peer \<Rightarrow>
          if \<not> di_built inp then SwarmBuildFails
          else case mount_sinks pseudosettle swap (di_registered inp) of
            Inl _ \<Rightarrow> SinksFail
          | Inr _ \<Rightarrow>
              if \<not> di_dialed inp then DialRefused
              else (case wait_connected peer None (di_polls inp) of
                 Inl Refused \<Rightarrow> DialRefused
               | Inl _ \<Rightarrow> DialTimeout
               | Inr addr \<Rightarrow>
                   (case handshake_with_fallback (di_shake inp peer addr) of
                      None \<Rightarrow> HandshakeFails
                    | Some (overlay, eth) \<Rightarrow> Shaken overlay eth (di_announced inp))))"

section \<open>Dialing for the scheduled fetch\<close>

text \<open>
  The scheduled fetch hands its swarm to a task at once and waits for the word that the connection is
  there. The task drops the sender when the swarm's events end, which ends the wait as well, and a
  failed dial is not among the events it looks at; the end of the list is the timeout.
\<close>

datatype establish_wait = EstFires | EstSenderGone | EstTimesOut

fun wait_established :: "'p \<Rightarrow> ('p, 'm) swarm_event option list \<Rightarrow> establish_wait" where
  "wait_established peer [] = EstTimesOut"
| "wait_established peer (None # rest) = EstSenderGone"
| "wait_established peer (Some (Established p _) # rest) = (if p = peer then EstFires else wait_established peer rest)"
| "wait_established peer (Some ev # rest) = wait_established peer rest"

record ('p, 'm) scheduled_input =
  sc_built :: bool
  sc_registered :: "string list"
  sc_dialed :: bool
  sc_events :: "('p, 'm) swarm_event option list"
  sc_shake :: "'p \<Rightarrow> 'm \<Rightarrow> wire_version \<Rightarrow> (swarm_address \<times> bytes) handshake"
  sc_handshake_times_out :: bool
  sc_announced :: "U256 option list"

text \<open>The wait for the announced threshold looks at its values until there is one or the pause is over.\<close>

fun wait_announced :: "U256 option list \<Rightarrow> U256 option" where
  "wait_announced [] = None"
| "wait_announced (v # vs) = (case v of Some t \<Rightarrow> Some t | None \<Rightarrow> wait_announced vs)"

definition scheduled_dial ::
  "('m \<Rightarrow> 'p protocol list) \<Rightarrow> string \<Rightarrow> string \<Rightarrow> 'm \<Rightarrow> ('p, 'm) scheduled_input \<Rightarrow> dial_outcome" where
  "scheduled_dial protocols pseudosettle swap underlay inp =
     (case extract_peer_id protocols underlay of
        None \<Rightarrow> NoPeerId
      | Some peer \<Rightarrow>
          if \<not> sc_built inp then SwarmBuildFails
          else case mount_sinks pseudosettle swap (sc_registered inp) of
            Inl _ \<Rightarrow> SinksFail
          | Inr _ \<Rightarrow>
              if \<not> sc_dialed inp then DialRefused
              else if wait_established peer (sc_events inp) = EstTimesOut then DialTimeout
              else if sc_handshake_times_out inp then HandshakeFails
              else (case handshake_with_fallback (sc_shake inp peer underlay) of
                      None \<Rightarrow> HandshakeFails
                    | Some (overlay, eth) \<Rightarrow> Shaken overlay eth (wait_announced (sc_announced inp))))"

section \<open>Settlement loop\<close>

fun settlement_loop ::
  "('a \<Rightarrow> u64) \<Rightarrow> (u64 \<Rightarrow> 'a \<Rightarrow> 'a) \<Rightarrow> cheque_tools \<Rightarrow> 'a settle_input list \<Rightarrow> bool \<Rightarrow> 'a settle_ctx \<Rightarrow>
   settlement_summary \<Rightarrow> ('a settle_ctx \<times> settlement_summary) option" where
  "settlement_loop bal credit_acct tools [] finishing ctx su = None"
| "settlement_loop bal credit_acct tools (inp # inps) finishing ctx su =
     (case settle_iter bal credit_acct tools inp finishing ctx su of
        Break ctx1 su1 \<Rightarrow> Some (ctx1, su1)
      | Continue finishing1 ctx1 su1 \<Rightarrow> settlement_loop bal credit_acct tools inps finishing1 ctx1 su1)"

section \<open>Probe\<close>

datatype probe_failure =
  ProbeNoPeer | ProbeChequebook issuable_error | ProbeConnect dial_outcome | ProbeOverlay swarm_address swarm_address
| ProbeSettlement

record probe_session =
  ps_issuable :: U256
  ps_ledger :: fast_ledger
  ps_overlay :: swarm_address
  ps_beneficiary :: bytes
  ps_announced :: "U256 option"

text \<open>The chequebook is read and the ledger opened before the storer is dialed.\<close>

definition probe_setup ::
  "(string \<Rightarrow> U256 option) \<Rightarrow> swarm_address \<Rightarrow> bytes option \<Rightarrow> bytes option \<Rightarrow> disk \<Rightarrow> dial_outcome \<Rightarrow> (probe_failure, probe_session) result" where
  "probe_setup from_dec_str overlay balance paid d outcome =
     (if outcome = NoPeerId then Inl ProbeNoPeer
      else case read_chequebook_issuable balance paid of
        Inl e \<Rightarrow> Inl (ProbeChequebook e)
      | Inr issuable \<Rightarrow>
          let ledger = ledger_open from_dec_str d in
          (case outcome of
             Shaken remote eth announced \<Rightarrow>
               if remote \<noteq> overlay then Inl (ProbeOverlay overlay remote)
               else Inr \<lparr>ps_issuable = issuable, ps_ledger = ledger, ps_overlay = remote, ps_beneficiary = eth,
                      ps_announced = announced\<rparr>
           | failed \<Rightarrow> Inl (ProbeConnect failed)))"

definition settle_start :: "u64 \<Rightarrow> 'a \<Rightarrow> probe_session \<Rightarrow> 'a settle_ctx" where
  "settle_start max_issue a sess =
     \<lparr>sx_acct = a, sx_ledger = ps_ledger sess, sx_beneficiary = ps_beneficiary sess, sx_issuable = ps_issuable sess,
      sx_max_issue_plur = max_issue, sx_issued_plur = 0, sx_pending_cheque_units = 0,
      sx_cheque_trigger = cheque_trigger (ps_announced sess), sx_credits = []\<rparr>"

text \<open>
  The report of a session whose retrieval tasks have ended in \<open>s\<close>: it waits for the settlement
  task, whose own failure (\<open>None\<close>: it panicked) is the probe's.
\<close>

definition probe_report_end ::
  "'a probe_state \<Rightarrow> settlement_summary option \<Rightarrow> U256 option \<Rightarrow> (probe_failure, probe_report) result" where
  "probe_report_end s settled announced_end =
     (case settled of None \<Rightarrow> Inl ProbeSettlement | Some su \<Rightarrow> Inr (probe_report_of s su announced_end))"

section \<open>The session as a whole\<close>

text \<open>
  The retrieval tasks, the settlement task and the delayed credits share the account, the count of
  pending units and the liveness flag. \<open>ss_ctx\<close> is the settlement task's state, \<open>ss_credits\<close> the
  credits in flight; \<open>other_step\<close> is a step of anything but the settlement task.
\<close>

record 'a session_state =
  ss_probe :: "'a probe_state"
  ss_ctx :: "'a settle_ctx"
  ss_credits :: "u64 list"
  ss_finishing :: bool
  ss_summary :: settlement_summary
  ss_ended :: bool

definition session_start :: "u64 \<Rightarrow> 'a \<Rightarrow> swarm_address list \<Rightarrow> probe_session \<Rightarrow> 'a session_state" where
  "session_start max_issue a chunks sess =
     \<lparr>ss_probe = probe_start a chunks, ss_ctx = settle_start max_issue a sess, ss_credits = [], ss_finishing = False,
      ss_summary = no_summary, ss_ended = False\<rparr>"

definition shared_view :: "'a session_state \<Rightarrow> 'a \<times> u64" where
  "shared_view \<sigma> = (pb_acct (ss_probe \<sigma>), sx_pending_cheque_units (ss_ctx \<sigma>))"

definition with_view :: "'a \<times> u64 \<Rightarrow> 'a session_state \<Rightarrow> 'a session_state" where
  "with_view ap \<sigma> = \<sigma>\<lparr>ss_probe := (ss_probe \<sigma>)\<lparr>pb_acct := fst ap\<rparr>,
     ss_ctx := (ss_ctx \<sigma>)\<lparr>sx_acct := fst ap, sx_pending_cheque_units := snd ap\<rparr>\<rparr>"

inductive other_step ::
  "'a accounting \<Rightarrow> (swarm_address \<Rightarrow> u64) \<Rightarrow> u64 \<Rightarrow> nat \<Rightarrow> 'a session_state \<Rightarrow> 'a session_state \<Rightarrow> bool"
  for A price cap depth where
  retrieval: "task_step A price cap depth (ss_probe \<sigma>) s \<Longrightarrow> other_step A price cap depth \<sigma> (\<sigma>\<lparr>ss_probe := s\<rparr>)"
| credited: "ss_credits \<sigma> = as @ debt # bs \<Longrightarrow>
     other_step A price cap depth \<sigma> (with_view (credit_task (ac_credit A) debt (shared_view \<sigma>)) (\<sigma>\<lparr>ss_credits := as @ bs\<rparr>))"

text \<open>
  An iteration of the settlement task that began in \<open>\<sigma>\<close>: the others moved to \<open>\<sigma>1\<close> while it slept, to
  \<open>\<sigma>2\<close> while it refreshed and to \<open>\<sigma>3\<close> while it emitted a cheque, and it saw what they left.
\<close>

definition seen_by :: "'a session_state \<Rightarrow> 'a session_state \<Rightarrow> 'a session_state \<Rightarrow> 'a settle_input \<Rightarrow> 'a settle_input" where
  "seen_by \<sigma>1 \<sigma>2 \<sigma>3 inp = inp\<lparr>si_alive := pb_alive (ss_probe \<sigma>1), si_wake := (\<lambda>_. shared_view \<sigma>1),
     si_refreshing := (\<lambda>_. shared_view \<sigma>2), si_emitting := (\<lambda>_. shared_view \<sigma>3)\<rparr>"

definition balance_of :: "'a accounting \<Rightarrow> 'a \<Rightarrow> u64" where
  "balance_of A a = fst (snapshot_or A a)"

definition refreshes :: "'a accounting \<Rightarrow> 'a session_state \<Rightarrow> 'a settle_input \<Rightarrow> bool" where
  "refreshes A \<sigma>1 inp \<longleftrightarrow> pb_alive (ss_probe \<sigma>1) \<and> 0 < balance_of A (pb_acct (ss_probe \<sigma>1)) \<and> si_refresh_due inp"

definition refreshed ::
  "'a accounting \<Rightarrow> 'a settle_input \<Rightarrow> 'a settle_ctx \<Rightarrow> settlement_summary \<Rightarrow> 'a settle_ctx" where
  "refreshed A inp ctx su =
     (let ctx1 = interfere (si_wake inp) ctx
      in if si_alive inp then fst (settle_refresh (balance_of A) (ac_credit A) inp ctx1 su) else ctx1)"

definition emits :: "'a accounting \<Rightarrow> bool \<Rightarrow> 'a settle_input \<Rightarrow> 'a settle_ctx \<Rightarrow> bool" where
  "emits A fin inp ctx2 \<longleftrightarrow> si_alive inp \<and>
     (if fin then 0 < settle_residual (balance_of A) ctx2 else sx_cheque_trigger ctx2 \<le> settle_residual (balance_of A) ctx2)"

definition after_flow :: "('a settle_ctx, settlement_summary) flow \<Rightarrow> 'a session_state \<Rightarrow> 'a session_state" where
  "after_flow f \<sigma> =
     (case f of
        Break ctx su \<Rightarrow> \<sigma>\<lparr>ss_probe := (ss_probe \<sigma>)\<lparr>pb_acct := sx_acct ctx\<rparr>, ss_ctx := ctx\<lparr>sx_credits := []\<rparr>,
          ss_credits := ss_credits \<sigma> @ sx_credits ctx, ss_summary := su, ss_ended := True\<rparr>
      | Continue fin ctx su \<Rightarrow> \<sigma>\<lparr>ss_probe := (ss_probe \<sigma>)\<lparr>pb_acct := sx_acct ctx\<rparr>, ss_ctx := ctx\<lparr>sx_credits := []\<rparr>,
          ss_credits := ss_credits \<sigma> @ sx_credits ctx, ss_summary := su, ss_finishing := fin\<rparr>)"

inductive session_step ::
  "'a accounting \<Rightarrow> (swarm_address \<Rightarrow> u64) \<Rightarrow> u64 \<Rightarrow> nat \<Rightarrow> cheque_tools \<Rightarrow> 'a session_state \<Rightarrow> 'a session_state \<Rightarrow> bool"
  for A price cap depth tools where
  other: "other_step A price cap depth \<sigma> \<sigma>' \<Longrightarrow> session_step A price cap depth tools \<sigma> \<sigma>'"
| iterate: "\<not> ss_ended \<sigma> \<Longrightarrow> (other_step A price cap depth)\<^sup>*\<^sup>* \<sigma> \<sigma>1 \<Longrightarrow> (si_done inp \<Longrightarrow> probe_done (ss_probe \<sigma>1)) \<Longrightarrow>
     (if refreshes A \<sigma>1 inp then (other_step A price cap depth)\<^sup>*\<^sup>* \<sigma>1 \<sigma>2 else \<sigma>2 = \<sigma>1) \<Longrightarrow>
     ctx2 = refreshed A (seen_by \<sigma>1 \<sigma>2 \<sigma>3 inp) (ss_ctx \<sigma>) (ss_summary \<sigma>) \<Longrightarrow>
     \<sigma>r = with_view (sx_acct ctx2, sx_pending_cheque_units ctx2) \<sigma>2 \<Longrightarrow>
     (if emits A (ss_finishing \<sigma> \<or> si_done inp) (seen_by \<sigma>1 \<sigma>2 \<sigma>3 inp) ctx2
      then (other_step A price cap depth)\<^sup>*\<^sup>* \<sigma>r \<sigma>3 else \<sigma>3 = \<sigma>r) \<Longrightarrow>
     f = settle_iter (balance_of A) (ac_credit A) tools (seen_by \<sigma>1 \<sigma>2 \<sigma>3 inp) (ss_finishing \<sigma>) (ss_ctx \<sigma>) (ss_summary \<sigma>) \<Longrightarrow>
     session_step A price cap depth tools \<sigma> (after_flow f \<sigma>3)"

section \<open>What the settlement loop keeps\<close>

text \<open>
  A relation between the loop's state and its summary that the loop's parts keep, for inputs that
  are \<open>ok\<close>, is kept by the whole loop.
\<close>

locale settle_invariant =
  fixes I :: "'a settle_ctx \<Rightarrow> settlement_summary \<Rightarrow> bool"
    and ok :: "'a settle_input \<Rightarrow> bool"
    and bal :: "'a \<Rightarrow> u64" and credit_acct :: "u64 \<Rightarrow> 'a \<Rightarrow> 'a" and tools :: cheque_tools
  assumes wake: "ok inp \<Longrightarrow> I ctx su \<Longrightarrow> I (interfere (si_wake inp) ctx) su"
    and refresh: "ok inp \<Longrightarrow> I ctx su \<Longrightarrow> settle_refresh bal credit_acct inp ctx su = (ctx', su') \<Longrightarrow> I ctx' su'"
    and emitted: "ok inp \<Longrightarrow> I ctx su \<Longrightarrow> emit_cheque_at_rate tools (si_env inp) d ctx = (Inr r, ctx1) \<Longrightarrow>
      cheque_emitted credit_acct fin d r (interfere (si_emitting inp) ctx1) su = (ctx2, su2) \<Longrightarrow> I ctx2 su2"
    and refused: "ok inp \<Longrightarrow> I ctx su \<Longrightarrow> emit_cheque_at_rate tools (si_env inp) d ctx = (Inl e, ctx1) \<Longrightarrow>
      I (interfere (si_emitting inp) ctx1) su"
    and residual: "I ctx su \<Longrightarrow> I ctx (su\<lparr>su_residual_debt_units := rd\<rparr>)"
begin

definition in_flow :: "('a settle_ctx, settlement_summary) flow \<Rightarrow> bool" where
  "in_flow f \<longleftrightarrow> (case f of Break ctx su \<Rightarrow> I ctx su | Continue _ ctx su \<Rightarrow> I ctx su)"

lemma tail: "I ctx su \<Longrightarrow> in_flow (settle_tail bal fin ctx su)"
  by (auto simp: settle_tail_def in_flow_def Let_def residual)

lemma iter:
  assumes "ok inp" "I ctx su"
  shows "in_flow (settle_iter bal credit_acct tools inp fin0 ctx su)"
proof (cases "si_alive inp")
  case False
  have "in_flow (Break (interfere (si_wake inp) ctx) (su\<lparr>su_residual_debt_units := rd\<rparr>))" for rd
    using wake [OF assms] by (simp add: in_flow_def residual)
  then show ?thesis using False by (simp add: settle_iter_def Let_def)
next
  case True
  let ?fin = "fin0 \<or> si_done inp"
  obtain ctx2 su2 where r: "settle_refresh bal credit_acct inp (interfere (si_wake inp) ctx) su = (ctx2, su2)" by force
  have i2: "I ctx2 su2" by (rule refresh [OF assms(1) wake [OF assms] r])
  obtain er ctx3 where e: "emit_cheque_at_rate tools (si_env inp) (settle_residual bal ctx2) ctx2 = (er, ctx3)" by force
  show ?thesis
  proof (cases er)
    case (Inl err)
    have "I (interfere (si_emitting inp) ctx3) su2" by (rule refused [OF assms(1) i2 e [unfolded Inl]])
    then show ?thesis
      using True r e Inl i2 tail by (simp add: settle_iter_def Let_def) (simp add: in_flow_def residual)
  next
    case (Inr ro)
    obtain ctx4 su4 where c: "cheque_emitted credit_acct ?fin (settle_residual bal ctx2) ro
        (interfere (si_emitting inp) ctx3) su2 = (ctx4, su4)" by force
    have "I ctx4 su4" by (rule emitted [OF assms(1) i2 e [unfolded Inr] c])
    then show ?thesis using True r e Inr i2 c tail by (simp add: settle_iter_def Let_def)
  qed
qed

lemma loop:
  "settlement_loop bal credit_acct tools inps fin ctx su = Some (ctx', su') \<Longrightarrow> list_all ok inps \<Longrightarrow> I ctx su \<Longrightarrow> I ctx' su'"
proof (induction inps arbitrary: fin ctx su)
  case (Cons inp inps)
  then have "in_flow (settle_iter bal credit_acct tools inp fin ctx su)" using iter by simp
  then show ?case
    using Cons by (cases "settle_iter bal credit_acct tools inp fin ctx su") (auto simp: in_flow_def)
qed simp

end

text \<open>\<open>plur_within m\<close>: what the cheques moved, as the summary has it, is what was counted as issued and within the cap.\<close>

definition plur_within :: "u64 \<Rightarrow> 'a settle_ctx \<Rightarrow> settlement_summary \<Rightarrow> bool" where
  "plur_within m ctx su \<longleftrightarrow> sx_max_issue_plur ctx = m \<and> sx_issued_plur ctx \<le> ucast m
     \<and> (m \<noteq> - 1 \<longrightarrow> su_cheque_plur su = sx_issued_plur ctx)"

lemma interfere_frame [simp]:
  "sx_max_issue_plur (interfere f ctx) = sx_max_issue_plur ctx" "sx_issued_plur (interfere f ctx) = sx_issued_plur ctx"
  "sx_ledger (interfere f ctx) = sx_ledger ctx" "sx_beneficiary (interfere f ctx) = sx_beneficiary ctx"
  by (simp_all add: interfere_def split: prod.split)

lemma unat_ucast_wide [simp]: "unat (ucast (w :: u64) :: u128) = unat w"
  using u64_less [of w] by (simp add: unsigned_ucast_eq take_bit_eq_mod)

lemma unat_ucast_narrow: "unat v < 2 ^ 128 \<Longrightarrow> unat (ucast (v :: U256) :: u128) = unat v"
  by (simp add: unsigned_ucast_eq take_bit_eq_mod)

lemma plur_within_emit:
  assumes "plur_within m ctx su" "emit_cheque_at_rate tools env d ctx = (Inr r, ctx1)"
  shows "sx_max_issue_plur ctx1 = m" "sx_issued_plur ctx1 \<le> ucast m"
    "m \<noteq> - 1 \<Longrightarrow> su_cheque_plur su + eo_plur r = sx_issued_plur ctx1"
proof -
  let ?e = "\<lparr>ce_beneficiary = sx_beneficiary ctx, ce_debt_units = d, ce_issuable = sx_issuable ctx, ce_max_issue_plur = m\<rparr>"
  let ?s0 = "\<lparr>sp_issued = try_from_or_max (sx_issued_plur ctx), sp_ledger = sx_ledger ctx\<rparr>"
  have m: "sx_max_issue_plur ctx = m" "sx_issued_plur ctx \<le> ucast m" using assms(1) by (simp_all add: plur_within_def)
  obtain out s where em: "emit_settlement_cheque tools ?e env ?s0 = (Inr (r, out), s)" and c1: "ctx1 = ctx\<lparr>sx_ledger := sp_ledger s, sx_issued_plur := ucast (sp_issued s)\<rparr>"
    using assms(2) m(1) by (auto simp: emit_cheque_at_rate_def Let_def split: prod.splits sum.splits)
  have small: "unat (sx_issued_plur ctx) \<le> unat m" using m(2) by (simp add: word_le_nat_alt)
  then have conv: "unat (try_from_or_max (sx_issued_plur ctx) :: u64) = unat (sx_issued_plur ctx)"
    using u64_less [of m] by (simp add: try_from_or_max_def try_word_def unsigned_ucast_eq take_bit_eq_mod)
  have within: "sp_issued s \<le> m" using emit_ok_within [OF em] by simp
  show "sx_max_issue_plur ctx1 = m" using c1 m(1) by simp
  show "sx_issued_plur ctx1 \<le> ucast m"
    using within by (simp add: c1 word_le_nat_alt)
  show "su_cheque_plur su + eo_plur r = sx_issued_plur ctx1" if "m \<noteq> - 1"
  proof -
    note sp = emit_ok_spends [OF em]
    have u: "unat (sp_issued s) = unat (sx_issued_plur ctx) + unat (eo_plur_u256 r)" using sp(2) that conv by simp
    have "unat (eo_plur r) = unat (eo_plur_u256 r)"
      using u u64_less [of "sp_issued s"] by (simp add: sp(1) unat_ucast_narrow)
    then have "unat (sx_issued_plur ctx + eo_plur r) = unat (sp_issued s)"
      using u u64_less [of "sp_issued s"] by (simp add: unat_word_ariths)
    then have "sx_issued_plur ctx + eo_plur r = ucast (sp_issued s)"
      by (simp add: word_unat_eq_iff)
    then show ?thesis using assms(1) that by (simp add: plur_within_def c1)
  qed
qed

interpretation spent: settle_invariant "plur_within m" "\<lambda>_. True" bal credit_acct tools for m bal credit_acct tools
proof
  show "plur_within m ctx' su'"
    if "plur_within m ctx su" "settle_refresh bal credit_acct inp ctx su = (ctx', su')" for inp ctx su ctx' su'
    using that by (auto simp: settle_refresh_def plur_within_def Let_def split: option.splits if_splits)
  show "plur_within m ctx2 su2"
    if "plur_within m ctx su" "emit_cheque_at_rate tools (si_env inp) d ctx = (Inr r, ctx1)"
      "cheque_emitted credit_acct fin d r (interfere (si_emitting inp) ctx1) su = (ctx2, su2)" for inp ctx d r ctx1 fin su ctx2 su2
    using plur_within_emit [OF that(1,2)] that(3) by (auto simp: plur_within_def cheque_emitted_def split: if_splits)
  show "plur_within m (interfere (si_emitting inp) ctx1) su"
    if "plur_within m ctx su" "emit_cheque_at_rate tools (si_env inp) d ctx = (Inl e, ctx1)" for inp ctx d e ctx1 su
    using that by (auto simp: plur_within_def emit_cheque_at_rate_def Let_def split: prod.splits sum.splits)
qed (simp_all add: plur_within_def)

section \<open>The loop returns\<close>

lemma settle_iter_continues:
  assumes "\<not> si_done inp" "si_alive inp"
  shows "\<exists>ctx' su'. settle_iter bal credit_acct tools inp False ctx su = Continue False ctx' su'"
  using assms by (auto simp: settle_iter_def Let_def settle_tail_def split: prod.split sum.split)

lemma settlement_loop_reaches:
  "list_all (\<lambda>i. \<not> si_done i \<and> si_alive i) before \<Longrightarrow>
    \<exists>ctx' su'. settlement_loop bal credit_acct tools (before @ rest) False ctx su
      = settlement_loop bal credit_acct tools rest False ctx' su'"
proof (induction before arbitrary: ctx su)
  case (Cons i before)
  then obtain c1 s1 where "settle_iter bal credit_acct tools i False ctx su = Continue False c1 s1"
    using settle_iter_continues by (metis list.pred_inject(2))
  then show ?case using Cons by auto
qed auto

section \<open>Drivers\<close>

text \<open>The driver runs until the first of the events that end it, and the rest of them is not looked at.\<close>

definition ends_driver :: "('p, 'm) swarm_life \<Rightarrow> bool" where
  "ends_driver ev \<longleftrightarrow> (case ev of SwarmGoneAway \<Rightarrow> True | Bye \<Rightarrow> True | ByeDropped \<Rightarrow> True | _ \<Rightarrow> False)"

lemma driver_stopped: "\<not> sd_running d \<Longrightarrow> fold (driver_step peer) evs d = d"
  by (induction evs) (simp_all add: driver_step_def)

lemma driver_before_end:
  "list_all (\<lambda>ev. \<not> ends_driver ev) evs \<Longrightarrow> sd_running d \<Longrightarrow>
    fold (driver_step peer) evs d = d\<lparr>sd_alive := sd_alive d \<and> ConnectionClosed peer \<notin> set evs\<rparr>"
proof (induction evs arbitrary: d)
  case (Cons ev evs)
  then show ?case by (cases ev) (auto simp: driver_step_def ends_driver_def)
qed simp

lemma drive_session_end:
  assumes "list_all (\<lambda>ev. \<not> ends_driver ev) evs"
  shows "drive_session peer evs = driver_start\<lparr>sd_alive := ConnectionClosed peer \<notin> set evs\<rparr>"
    "ends_driver ev \<Longrightarrow> drive_session peer (evs @ ev # rest) = \<lparr>sd_alive = ev = SwarmGoneAway \<and> ConnectionClosed peer \<notin> set evs,
       sd_running = False, sd_hung_up = (ev \<noteq> SwarmGoneAway), sd_acked = (ev = Bye)\<rparr>"
proof -
  show one: "drive_session peer evs = driver_start\<lparr>sd_alive := ConnectionClosed peer \<notin> set evs\<rparr>"
    using driver_before_end [OF assms, of driver_start peer] by (simp add: drive_session_def driver_start_def)
  show "drive_session peer (evs @ ev # rest) = \<lparr>sd_alive = ev = SwarmGoneAway \<and> ConnectionClosed peer \<notin> set evs,
       sd_running = False, sd_hung_up = (ev \<noteq> SwarmGoneAway), sd_acked = (ev = Bye)\<rparr>" if "ends_driver ev"
  proof -
    have "drive_session peer (evs @ ev # rest) = fold (driver_step peer) rest (driver_step peer ev (drive_session peer evs))"
      by (simp add: drive_session_def)
    moreover have "\<not> sd_running (driver_step peer ev (drive_session peer evs))"
      using that one by (cases ev) (simp_all add: driver_step_def driver_start_def ends_driver_def)
    ultimately show ?thesis
      using that one by (cases ev) (simp_all add: driver_stopped driver_step_def driver_start_def ends_driver_def)
  qed
qed

text \<open>What the crawler's task passes on is what the swarm reported, in order.\<close>

lemma crawl_driver_reported:
  "e \<in> set (fst (crawl_driver polls)) \<Longrightarrow> \<exists>ev. SwarmPoll (Some ev) \<in> set polls \<and> evt_of ev = Some e"
  by (induction polls rule: crawl_driver.induct) (auto split: prod.splits option.splits)

lemma wait_identified_reported:
  "wait_identified peer connected rs = Inr () \<Longrightarrow> connected \<or> Got (Connected peer) \<in> set rs \<or> Got (Identified peer) \<in> set rs"
  by (induction peer connected rs rule: wait_identified.induct) (auto split: if_splits)

lemma crawl_dial_reported:
  assumes "wait_identified peer False rs = Inr ()" "\<And>e. Got e \<in> set rs \<Longrightarrow> e \<in> set (fst (crawl_driver polls))"
  shows "\<exists>m. SwarmPoll (Some (Established peer m)) \<in> set polls \<or> SwarmPoll (Some (IdentifyReceived peer)) \<in> set polls"
proof -
  obtain e where e: "e \<in> {Connected peer, Identified peer}" "e \<in> set (fst (crawl_driver polls))"
    using wait_identified_reported [OF assms(1)] assms(2) by blast
  then obtain ev where "SwarmPoll (Some ev) \<in> set polls" "evt_of ev = Some e" using crawl_driver_reported by blast
  with e(1) show ?thesis by (cases ev) (auto simp: evt_of_def split: option.splits)
qed

section \<open>Dials\<close>

lemma accept_all_ok: "accept_all protos reg = Inr reg' \<longleftrightarrow> reg' = reg @ protos \<and> distinct protos \<and> set protos \<inter> set reg = {}"
  by (induction protos arbitrary: reg) auto

lemma wait_connected_ok:
  "wait_connected want addr polls = Inr a \<Longrightarrow>
    (addr = Some a \<or> Event (Established want a) \<in> set polls) \<and> Event (IdentifyReceived want) \<in> set polls"
  by (induction want addr polls rule: wait_connected.induct) (auto split: if_splits option.splits)

lemma fallback_accepts:
  "handshake_with_fallback shake = Some i \<longleftrightarrow>
    shake V15 = HandshakeOk i \<or> (\<forall>j. shake V15 \<noteq> HandshakeOk j) \<and> shake V14 = HandshakeOk i"
  by (auto simp: handshake_with_fallback_def split: handshake.split)

lemma wait_established_cases:
  "wait_established peer evs = EstFires \<Longrightarrow> \<exists>m. Some (Established peer m) \<in> set evs"
  "wait_established peer evs = EstSenderGone \<Longrightarrow> None \<in> set evs"
  by (induction peer evs rule: wait_established.induct) (auto split: if_splits)

text \<open>
  A connection the scheduled fetch counts as opened was reported by the swarm, unless the swarm's
  events ended: then the handshake is tried on a connection that was never reported.
\<close>
lemma scheduled_connect_opened:
  assumes "connect None overlay (scheduled_dial protocols pseudosettle swap underlay inp) = Some e"
  shows "es_overlay e = overlay \<and> (\<exists>peer. extract_peer_id protocols underlay = Some peer
    \<and> set (sink_protocols pseudosettle swap) \<inter> set (sc_registered inp) = {}
    \<and> ((\<exists>m. Some (Established peer m) \<in> set (sc_events inp)) \<or> None \<in> set (sc_events inp))
    \<and> (sc_shake inp peer underlay V15 = HandshakeOk (overlay, es_beneficiary e)
        \<or> (\<forall>j. sc_shake inp peer underlay V15 \<noteq> HandshakeOk j) \<and> sc_shake inp peer underlay V14 = HandshakeOk (overlay, es_beneficiary e)))"
proof -
  let ?dial = "scheduled_dial protocols pseudosettle swap underlay inp"
  have dial: "?dial = Shaken overlay (es_beneficiary e) (es_announced e)" and ov: "es_overlay e = overlay"
    using assms by (auto simp: connect_def split: dial_outcome.splits if_splits)
  obtain peer where peer: "extract_peer_id protocols underlay = Some peer"
    using dial by (auto simp: scheduled_dial_def split: option.splits)
  obtain reg' where reg: "accept_all (sink_protocols pseudosettle swap) (sc_registered inp) = Inr reg'"
    using dial by (auto simp: scheduled_dial_def mount_sinks_def split: option.splits if_splits sum.splits)
  have "handshake_with_fallback (sc_shake inp peer underlay) = Some (overlay, es_beneficiary e)"
    using dial peer by (auto simp: scheduled_dial_def split: if_splits sum.splits option.splits)
  moreover have "wait_established peer (sc_events inp) \<noteq> EstTimesOut"
    using dial peer by (auto simp: scheduled_dial_def split: if_splits sum.splits)
  then have "(\<exists>m. Some (Established peer m) \<in> set (sc_events inp)) \<or> None \<in> set (sc_events inp)"
    using wait_established_cases [of peer "sc_events inp"] by (cases "wait_established peer (sc_events inp)") auto
  ultimately show ?thesis using ov peer reg by (auto simp: accept_all_ok fallback_accepts)
qed

section \<open>Properties\<close>

text \<open>
  C31 A dial ends with a shaken hand only when the address names a peer, all five protocols the peer
  opens towards a client were claimed before it was dialed, the swarm reported both a connection to
  that peer and its identification, and the peer, over the address of that connection, accepted the
  newer handshake or, having failed it, the older one.
\<close>
theorem direct_dial_shaken:
  assumes "direct_dial protocols pseudosettle swap underlay inp = Shaken remote eth announced"
  shows "\<exists>peer addr. extract_peer_id protocols underlay = Some peer
    \<and> distinct (sink_protocols pseudosettle swap) \<and> set (sink_protocols pseudosettle swap) \<inter> set (di_registered inp) = {}
    \<and> Event (Established peer addr) \<in> set (di_polls inp) \<and> Event (IdentifyReceived peer) \<in> set (di_polls inp)
    \<and> (di_shake inp peer addr V15 = HandshakeOk (remote, eth)
        \<or> (\<forall>j. di_shake inp peer addr V15 \<noteq> HandshakeOk j) \<and> di_shake inp peer addr V14 = HandshakeOk (remote, eth))"
proof -
  obtain peer where peer: "extract_peer_id protocols underlay = Some peer"
    using assms by (auto simp: direct_dial_def split: option.splits)
  obtain reg' where reg: "accept_all (sink_protocols pseudosettle swap) (di_registered inp) = Inr reg'"
    using assms by (auto simp: direct_dial_def mount_sinks_def split: option.splits if_splits sum.splits)
  obtain addr where addr: "wait_connected peer None (di_polls inp) = Inr addr"
    using assms peer by (auto simp: direct_dial_def split: if_splits sum.splits dial_error.splits)
  have "handshake_with_fallback (di_shake inp peer addr) = Some (remote, eth)"
    using assms peer addr by (auto simp: direct_dial_def split: if_splits sum.splits option.splits)
  then show ?thesis
    using peer reg wait_connected_ok [OF addr] by (auto simp: accept_all_ok fallback_accepts)
qed

definition sample_dial :: "(nat, nat) dial_input" where
  "sample_dial = \<lparr>di_built = True, di_registered = [], di_dialed = True,
     di_polls = [Event OtherEvent, Event (Established 7 9), Event (IdentifyReceived 7)],
     di_shake = (\<lambda>p m v. if v = V14 then HandshakeOk ([1], [2]) else HandshakeError), di_announced = None\<rparr>"

theorem direct_dial_shaken_witness:
  "direct_dial (\<lambda>p. [P2p p]) ''ps'' ''swap'' 7 sample_dial = Shaken [1] [2] None
    \<and> Event (IdentifyReceived 7) \<in> set (di_polls sample_dial)"
proof -
  have run: "direct_dial (\<lambda>p. [P2p p]) ''ps'' ''swap'' 7 sample_dial = Shaken [1] [2] None"
    by (simp add: direct_dial_def sample_dial_def extract_peer_id_def mount_sinks_def sink_protocols_def PROTOCOL_PRICING_def
        PROTOCOL_HIVE_V1_def PROTOCOL_HIVE_V2_def handshake_with_fallback_def)
  show ?thesis using run direct_dial_shaken [OF run] by (auto simp: extract_peer_id_def)
qed



section \<open>The session refines the retrieval run\<close>

definition flow_ctx :: "('a settle_ctx, settlement_summary) flow \<Rightarrow> 'a settle_ctx" where
  "flow_ctx f = (case f of Break ctx su \<Rightarrow> ctx | Continue _ ctx su \<Rightarrow> ctx)"

text \<open>\<open>credited_from A a b\<close>: the account is \<open>a\<close>, or \<open>a\<close> with one credit.\<close>

definition credited_from :: "'a accounting \<Rightarrow> 'a \<Rightarrow> 'a \<Rightarrow> bool" where
  "credited_from A a b \<longleftrightarrow> b = a \<or> (\<exists>n. b = ac_credit A n a)"

lemma after_flow_probe: "ss_probe (after_flow f \<sigma>) = (ss_probe \<sigma>)\<lparr>pb_acct := sx_acct (flow_ctx f)\<rparr>"
  by (simp add: after_flow_def flow_ctx_def split: flow.split)

lemma flow_ctx_tail [simp]: "flow_ctx (settle_tail bal fin ctx su) = ctx"
  by (simp add: settle_tail_def flow_ctx_def Let_def)

lemma refreshed_account:
  assumes "refreshes A \<sigma>1 inp \<or> \<sigma>2 = \<sigma>1"
  shows "credited_from A (pb_acct (ss_probe \<sigma>2)) (sx_acct (refreshed A (seen_by \<sigma>1 \<sigma>2 \<sigma>3 inp) ctx su))"
  using assms
  by (auto simp: refreshed_def refreshes_def seen_by_def settle_refresh_def interfere_def shared_view_def credited_from_def Let_def
      split: option.splits)

lemma settle_iter_account:
  assumes ctx2_def: "ctx2 = refreshed A inp ctx su"
  shows "if emits A (fin \<or> si_done inp) inp ctx2
     then \<exists>p. credited_from A (fst (si_emitting inp p)) (sx_acct (flow_ctx (settle_iter (balance_of A) (ac_credit A) tools inp fin ctx su)))
     else sx_acct (flow_ctx (settle_iter (balance_of A) (ac_credit A) tools inp fin ctx su)) = sx_acct ctx2"
proof (cases "si_alive inp")
  case False
  then show ?thesis by (simp add: ctx2_def refreshed_def emits_def settle_iter_def flow_ctx_def Let_def)
next
  case True
  obtain c2 su2 where r: "settle_refresh (balance_of A) (ac_credit A) inp (interfere (si_wake inp) ctx) su = (c2, su2)" by force
  then have c2: "ctx2 = c2" using True by (simp add: ctx2_def refreshed_def Let_def)
  obtain er ctx3 where e: "emit_cheque_at_rate tools (si_env inp) (settle_residual (balance_of A) c2) c2 = (er, ctx3)" by force
  have "\<exists>p. sx_acct (interfere (si_emitting inp) ctx3) = fst (si_emitting inp p)"
    by (auto simp: interfere_def split_beta)
  then show ?thesis
    using True r e c2
    by (cases er) (auto simp: emits_def settle_iter_def cheque_emitted_def credited_from_def Let_def, auto simp: flow_ctx_def)
qed

lemma other_step_probe: "other_step A price cap depth \<sigma> \<sigma>' \<Longrightarrow> probe_step A price cap depth (ss_probe \<sigma>) (ss_probe \<sigma>')"
  by (induction rule: other_step.induct)
    (auto intro: probe_step.tasks probe_step.settle simp: with_view_def credit_task_def shared_view_def)

lemma others_probe:
  "(other_step A price cap depth)\<^sup>*\<^sup>* \<sigma> \<sigma>' \<Longrightarrow> (probe_step A price cap depth)\<^sup>*\<^sup>* (ss_probe \<sigma>) (ss_probe \<sigma>')"
  by (induction rule: rtranclp_induct) (auto intro: other_step_probe rtranclp.rtrancl_into_rtrancl)

lemma credited_probe:
  "credited_from A (pb_acct s) a \<Longrightarrow> (probe_step A price cap depth)\<^sup>*\<^sup>* s (s\<lparr>pb_acct := a\<rparr>)"
  using probe_step.settle [of A price cap depth s] by (auto simp: credited_from_def)

lemma session_step_probe:
  "session_step A price cap depth tools \<sigma> \<sigma>' \<Longrightarrow> (probe_step A price cap depth)\<^sup>*\<^sup>* (ss_probe \<sigma>) (ss_probe \<sigma>')"
proof (induction rule: session_step.induct)
  case (iterate \<sigma> \<sigma>1 inp \<sigma>2 ctx2 \<sigma>3 \<sigma>r f)
  let ?run = "(probe_step A price cap depth)\<^sup>*\<^sup>*" and ?inp = "seen_by \<sigma>1 \<sigma>2 \<sigma>3 inp"
  have "?run (ss_probe \<sigma>) (ss_probe \<sigma>1)" by (rule others_probe [OF iterate.hyps(2)])
  also have "?run (ss_probe \<sigma>1) (ss_probe \<sigma>2)" using iterate.hyps(4) others_probe by (auto split: if_splits)
  also have "?run (ss_probe \<sigma>2) (ss_probe \<sigma>r)"
  proof -
    have "credited_from A (pb_acct (ss_probe \<sigma>2)) (sx_acct ctx2)"
      unfolding iterate.hyps(5) by (rule refreshed_account) (use iterate.hyps(4) in \<open>auto split: if_splits\<close>)
    then show ?thesis by (simp add: iterate.hyps(6) with_view_def credited_probe)
  qed
  also have "?run (ss_probe \<sigma>r) (ss_probe \<sigma>3)" using iterate.hyps(7) others_probe by (auto split: if_splits)
  also have "?run (ss_probe \<sigma>3) (ss_probe (after_flow f \<sigma>3))"
  proof -
    have "credited_from A (pb_acct (ss_probe \<sigma>3)) (sx_acct (flow_ctx f))"
      using settle_iter_account [OF iterate.hyps(5), of "ss_finishing \<sigma>" tools] iterate.hyps(6-8)
      by (auto simp: seen_by_def shared_view_def with_view_def credited_from_def split: if_splits)
    then show ?thesis by (simp add: after_flow_probe credited_probe)
  qed
  finally show ?case .
qed (auto dest: other_step_probe)

lemma session_run_probe:
  "(session_step A price cap depth tools)\<^sup>*\<^sup>* \<sigma> \<sigma>' \<Longrightarrow> (probe_step A price cap depth)\<^sup>*\<^sup>* (ss_probe \<sigma>) (ss_probe \<sigma>')"
  by (induction rule: rtranclp_induct) (auto dest: session_step_probe intro: rtranclp_trans)

lemma session_plur:
  assumes "(session_step A price cap depth tools)\<^sup>*\<^sup>* \<sigma> \<sigma>'" "plur_within m (ss_ctx \<sigma>) (ss_summary \<sigma>)"
  shows "plur_within m (ss_ctx \<sigma>') (ss_summary \<sigma>')"
proof -
  have other: "plur_within m (ss_ctx \<sigma>2) (ss_summary \<sigma>2) = plur_within m (ss_ctx \<sigma>1) (ss_summary \<sigma>1)"
    if "other_step A price cap depth \<sigma>1 \<sigma>2" for \<sigma>1 \<sigma>2
    using that by (induction rule: other_step.induct) (simp_all add: plur_within_def with_view_def)
  have "plur_within m (ss_ctx \<sigma>2) (ss_summary \<sigma>2)"
    if "session_step A price cap depth tools \<sigma>1 \<sigma>2" "plur_within m (ss_ctx \<sigma>1) (ss_summary \<sigma>1)" for \<sigma>1 \<sigma>2
    using that
  proof (induction rule: session_step.induct)
    case (iterate \<sigma> \<sigma>1 inp \<sigma>2 ctx2 \<sigma>3 \<sigma>r f)
    have "spent.in_flow m f" unfolding iterate.hyps(8) by (rule spent.iter) (use iterate.prems in simp_all)
    then show ?case by (simp add: after_flow_def spent.in_flow_def plur_within_def split: flow.splits)
  qed (simp add: other)
  with assms show ?thesis by (induction rule: rtranclp_induct) simp_all
qed

text \<open>
  C28 At every moment of a probe, with its retrieval tasks, settlement iterations and delayed credits
  interleaved in any order, debt and reservations together stay within half the announced threshold,
  and what the summary says the cheques moved is exactly what was counted as issued and within the
  cap. When the retrieval has ended the report is on the storer asked for and has an outcome for
  every chunk.
\<close>
theorem probe_session_settled:
  assumes "probe_setup from_dec_str overlay balance paid d outcome = Inr sess"
    and "lawful_accounting A" "snapshot_or A a = (0, 0)" "m \<noteq> - 1" "length chunks < 2 ^ 64"
    and "(session_step A price (reserve_cap (ps_announced sess)) depth tools)\<^sup>*\<^sup>* (session_start m a chunks sess) \<sigma>"
  shows "outcome = Shaken overlay (ps_beneficiary sess) (ps_announced sess)
    \<and> unat (fst (snapshot_or A (pb_acct (ss_probe \<sigma>)))) + unat (snd (snapshot_or A (pb_acct (ss_probe \<sigma>))))
        \<le> unat (probe_announced (ps_announced sess)) div 2
    \<and> su_cheque_plur (ss_summary \<sigma>) = sx_issued_plur (ss_ctx \<sigma>) \<and> unat (sx_issued_plur (ss_ctx \<sigma>)) \<le> unat m
    \<and> (probe_done (ss_probe \<sigma>) \<longrightarrow> (\<exists>rep. probe_report_end (ss_probe \<sigma>) (Some (ss_summary \<sigma>)) t = Inr rep
        \<and> unat (rp_chunks_ok rep) + unat (rp_chunks_err rep) = length chunks))"
proof -
  have begun: "outcome = Shaken overlay (ps_beneficiary sess) (ps_announced sess)"
    using assms(1) by (auto simp: probe_setup_def Let_def split: if_splits sum.splits dial_outcome.splits)
  have run: "(probe_step A price (reserve_cap (ps_announced sess)) depth)\<^sup>*\<^sup>* (probe_start a chunks) (ss_probe \<sigma>)"
    using session_run_probe [OF assms(6)] by (simp add: session_start_def)
  note within = probe_run_within [OF assms(2,3) run]
  have counts: "unat (of_nat (length (pb_latencies (ss_probe \<sigma>))) :: u64) + unat (of_nat (length (pb_errors (ss_probe \<sigma>))) :: u64) = length chunks"
    if "probe_done (ss_probe \<sigma>)"
  proof -
    have "size (mset (map fst (pb_latencies (ss_probe \<sigma>))) + mset (map fst (pb_errors (ss_probe \<sigma>)))) = size (mset chunks)"
      using probe_run_all [OF run] that by (simp add: probe_all_def probe_start_def probe_done_def)
    then have "length (pb_latencies (ss_probe \<sigma>)) + length (pb_errors (ss_probe \<sigma>)) = length chunks" by simp
    moreover from this have "length (pb_latencies (ss_probe \<sigma>)) < 2 ^ 64" "length (pb_errors (ss_probe \<sigma>)) < 2 ^ 64" using assms(5) by simp_all
    ultimately show ?thesis by (simp add: unat_of_nat)
  qed
  have "plur_within m (ss_ctx \<sigma>) (ss_summary \<sigma>)"
    by (rule session_plur [OF assms(6)]) (simp add: plur_within_def session_start_def settle_start_def no_summary_def)
  then show ?thesis
    using begun within counts assms(4) by (auto simp: plur_within_def word_le_nat_alt probe_report_end_def probe_report_of_def)
qed

section \<open>The session ends\<close>

lemma refreshed_emitting: "refreshed A (inp\<lparr>si_emitting := g\<rparr>) ctx su = refreshed A inp ctx su"
  by (auto simp: refreshed_def settle_refresh_def Let_def split: option.split)

lemma refreshed_seen: "refreshed A (seen_by \<sigma>1 \<sigma>2 \<sigma>3 inp) ctx su = refreshed A (seen_by \<sigma>1 \<sigma>2 \<sigma>1 inp) ctx su"
proof -
  have "seen_by \<sigma>1 \<sigma>2 \<sigma>3 inp = (seen_by \<sigma>1 \<sigma>2 \<sigma>1 inp)\<lparr>si_emitting := (\<lambda>_. shared_view \<sigma>3)\<rparr>" by (simp add: seen_by_def)
  then show ?thesis by (simp only: refreshed_emitting)
qed

text \<open>A settlement iteration undisturbed by the others is possible at any time, and what it does.\<close>

lemma session_iterates:
  assumes "\<not> ss_ended \<sigma>" "si_done inp \<Longrightarrow> probe_done (ss_probe \<sigma>)"
    and "ctx2 = refreshed A (seen_by \<sigma> \<sigma> \<sigma> inp) (ss_ctx \<sigma>) (ss_summary \<sigma>)"
    and "\<sigma>3 = with_view (sx_acct ctx2, sx_pending_cheque_units ctx2) \<sigma>"
  shows "session_step A price cap depth tools \<sigma>
    (after_flow (settle_iter (balance_of A) (ac_credit A) tools (seen_by \<sigma> \<sigma> \<sigma>3 inp) (ss_finishing \<sigma>) (ss_ctx \<sigma>) (ss_summary \<sigma>)) \<sigma>3)"
proof (rule session_step.iterate [OF assms(1) rtranclp.rtrancl_refl])
  show "ctx2 = refreshed A (seen_by \<sigma> \<sigma> \<sigma>3 inp) (ss_ctx \<sigma>) (ss_summary \<sigma>)"
    using refreshed_seen [of A \<sigma> \<sigma> \<sigma>3] assms(3) by simp
qed (use assms in auto)

lemma session_ends:
  assumes law: "\<And>n x. unat (balance_of A (ac_credit A n x)) = unat (balance_of A x) - unat n"
    and "\<not> ss_ended \<sigma>" "probe_done (ss_probe \<sigma>)"
  shows "\<exists>\<sigma>'. session_step A price cap depth tools \<sigma> \<sigma>' \<and> ss_ended \<sigma>'"
proof -
  define inp where "inp = \<lparr>si_done = True, si_alive = True, si_refresh_due = False, si_refresh = None, si_env = sample_env,
     si_wake = id, si_refreshing = id, si_emitting = (id :: 'a \<times> u64 \<Rightarrow> 'a \<times> u64)\<rparr>"
  define ctx2 where "ctx2 = refreshed A (seen_by \<sigma> \<sigma> \<sigma> inp) (ss_ctx \<sigma>) (ss_summary \<sigma>)"
  define \<sigma>3 where "\<sigma>3 = with_view (sx_acct ctx2, sx_pending_cheque_units ctx2) \<sigma>"
  let ?inp = "seen_by \<sigma> \<sigma> \<sigma>3 inp"
  let ?f = "settle_iter (balance_of A) (ac_credit A) tools ?inp (ss_finishing \<sigma>) (ss_ctx \<sigma>) (ss_summary \<sigma>)"
  have step: "session_step A price cap depth tools \<sigma> (after_flow ?f \<sigma>3)"
    by (rule session_iterates [OF assms(2) _ ctx2_def \<sigma>3_def]) (rule assms(3))
  have "\<exists>c s. ?f = Break c s"
  proof (cases "pb_alive (ss_probe \<sigma>)")
    case False
    then show ?thesis by (simp add: settle_iter_def seen_by_def Let_def)
  next
    case True
    have r: "settle_refresh (balance_of A) (ac_credit A) ?inp (interfere (si_wake ?inp) (ss_ctx \<sigma>)) (ss_summary \<sigma>) = (ctx2, ss_summary \<sigma>)"
      using True by (simp add: ctx2_def refreshed_def settle_refresh_def seen_by_def inp_def)
    have "si_emitting ?inp (sx_acct ctx2, sx_pending_cheque_units ctx2) = (sx_acct ctx2, sx_pending_cheque_units ctx2)"
      by (simp add: seen_by_def shared_view_def \<sigma>3_def with_view_def)
    moreover have "ss_finishing \<sigma> \<or> si_done ?inp" "si_alive ?inp" using True by (simp_all add: seen_by_def inp_def)
    ultimately show ?thesis using final_iteration [OF law _ _ _ r, of "ss_finishing \<sigma>" tools] by blast
  qed
  then have "ss_ended (after_flow ?f \<sigma>3)" by (auto simp: after_flow_def)
  with step show ?thesis by blast
qed

lemma mirror_balance_credit:
  "unat (balance_of (mirror_accounting c) (ac_credit (mirror_accounting c) n x)) = unat (balance_of (mirror_accounting c) x) - unat n"
  by (simp add: balance_of_def snapshot_or_def mirror_accounting_def snapshot_def credit_def unat_sat_sub)

lemma tasks_session:
  "(task_step A price cap depth)\<^sup>*\<^sup>* s s' \<Longrightarrow> (session_step A price cap depth tools)\<^sup>*\<^sup>* (\<sigma>\<lparr>ss_probe := s\<rparr>) (\<sigma>\<lparr>ss_probe := s'\<rparr>)"
proof (induction rule: rtranclp_induct)
  case (step s1 s2)
  have "session_step A price cap depth tools (\<sigma>\<lparr>ss_probe := s1\<rparr>) (\<sigma>\<lparr>ss_probe := s2\<rparr>)"
    using session_step.other [OF other_step.retrieval [of A price cap depth "\<sigma>\<lparr>ss_probe := s1\<rparr>" s2]] step.hyps(2) by simp
  with step.IH show ?case by (rule rtranclp.rtrancl_into_rtrancl)
qed simp

theorem probe_session_settled_witness:
  "\<exists>\<sigma> :: mirror session_state. ss_ended \<sigma> \<and> su_cheque_plur (ss_summary \<sigma>) = sx_issued_plur (ss_ctx \<sigma>)
    \<and> unat (su_cheque_plur (ss_summary \<sigma>)) \<le> 500"
proof -
  let ?A = "mirror_accounting 2000000" and ?book = "to_be_bytes 32 1000" and ?d = "\<lparr>dk_file = None, dk_tmp = None\<rparr> :: disk"
  let ?sess = "\<lparr>ps_issuable = 1000, ps_ledger = ledger_open parse_uint ?d, ps_overlay = [1], ps_beneficiary = [2], ps_announced = None\<rparr>"
  let ?s = "fetch_ended ?A 0 (Inr (5, 4096)) sample_probed" and ?start = "session_start 500 mirror_default [[1]] ?sess"
  let ?step = "session_step ?A (\<lambda>_. 300000) (reserve_cap (ps_announced ?sess)) 4 sample_tools"
  have begun: "probe_setup parse_uint [1] (Some ?book) (Some (to_be_bytes 32 0)) ?d (Shaken [1] [2] None) = Inr ?sess"
    by (simp add: probe_setup_def sample_chequebook Let_def)
  have fresh: "snapshot_or ?A mirror_default = (0, 0)"
    by (simp add: snapshot_or_def mirror_accounting_def snapshot_def mirror_default_def)
  have "(task_step ?A (\<lambda>_. 300000) (reserve_cap (ps_announced ?sess)) 4)\<^sup>*\<^sup>* (probe_start mirror_default [[1]]) ?s"
  proof (rule rtranclp.rtrancl_into_rtrancl)
    show "(task_step ?A (\<lambda>_. 300000) (reserve_cap (ps_announced ?sess)) 4)\<^sup>*\<^sup>* (probe_start mirror_default [[1]]) sample_probed"
      using sample_task_run by simp
    show "task_step ?A (\<lambda>_. 300000) (reserve_cap (ps_announced ?sess)) 4 sample_probed ?s"
      by (rule task_step.ended) (simp add: sample_probed_def)
  qed
  from tasks_session [OF this, of sample_tools ?start]
  have "?step\<^sup>*\<^sup>* ?start (?start\<lparr>ss_probe := ?s\<rparr>)" by (simp add: session_start_def)
  moreover have "probe_done ?s" by (simp add: probe_done_def fetch_ended_def sample_probed_def probe_start_def)
  then have "\<exists>\<sigma>'. ?step (?start\<lparr>ss_probe := ?s\<rparr>) \<sigma>' \<and> ss_ended \<sigma>'"
    by (intro session_ends mirror_balance_credit) (simp_all add: session_start_def)
  ultimately obtain \<sigma> where run: "?step\<^sup>*\<^sup>* ?start \<sigma>" and ended: "ss_ended \<sigma>"
    using rtranclp.rtrancl_into_rtrancl [of ?step] by blast
  have "(500 :: u64) \<noteq> - 1" "length [[1 :: u8]] < 2 ^ 64" by simp_all
  note settled = probe_session_settled [where t = None, OF begun mirrored.lawful_accounting_axioms fresh this run]
  then have "unat (sx_issued_plur (ss_ctx \<sigma>)) \<le> unat (500 :: u64)" by blast
  moreover have "su_cheque_plur (ss_summary \<sigma>) = sx_issued_plur (ss_ctx \<sigma>)" using settled by blast
  ultimately show ?thesis using ended by (intro exI [of _ \<sigma>]) simp
qed

end
