(* ===== verification/Copies.thy ===== *)
theory Copies
  imports Hive Inventory
begin

text \<open>
  Code the repository holds twice, modelled a second time from the second place and proved to agree
  with the first: the stream readers of the crawler (\<^verbatim>\<open>rust/ds-net/src/crawl.rs\<close>), the selection of
  a storer's chunks by the growth command and the decoding of hexadecimal arguments by three commands
  (\<^verbatim>\<open>growth_cmd.rs\<close>, \<^verbatim>\<open>probe.rs\<close> and \<^verbatim>\<open>fund.rs\<close> under \<^verbatim>\<open>rust/ds-cli/src\<close>).
\<close>

section \<open>Readers of the crawler\<close>

text \<open>The loop over the bytes of the length, which keeps how far it has shifted.\<close>

fun crawl_read_length :: "bytes \<Rightarrow> u64 \<Rightarrow> nat \<Rightarrow> (io_error, u64 \<times> bytes) result" where
  "crawl_read_length [] len shift = Inl UnexpectedEof"
| "crawl_read_length (byte # stream) len shift =
     (let len1 = len OR push_bit shift (ucast (byte AND 0x7F)); shift1 = shift + 7
      in if byte AND 0x80 = 0 then Inr (len1, stream)
         else if shift1 > 63 then Inl VarintTooLong
         else crawl_read_length stream len1 shift1)"

definition crawl_read_delimited :: "nat \<Rightarrow> bytes \<Rightarrow> (io_error, bytes \<times> bytes) result" where
  "crawl_read_delimited cap stream =
     (case crawl_read_length stream 0 0 of
        Inl e \<Rightarrow> Inl e
      | Inr (len, rest) \<Rightarrow>
          if unat len > cap then Inl (MessageTooLarge (unat len))
          else if length rest < unat len then Inl UnexpectedEof
          else Inr (take (unat len) rest, drop (unat len) rest))"

fun crawl_tail_ends :: "drain_read list \<Rightarrow> (sink_error, unit) result" where
  "crawl_tail_ends [] = Inl SinkTimeout"
| "crawl_tail_ends (r # rest) =
     (case r of DrainEof \<Rightarrow> Inr () | DrainBytes \<Rightarrow> crawl_tail_ends rest | DrainReset \<Rightarrow> Inr () | DrainOther \<Rightarrow> Inl SinkDrain)"

definition crawl_read_sink_body :: "nat \<Rightarrow> sink_env \<Rightarrow> (sink_error, bytes) result" where
  "crawl_read_sink_body cap env =
     (case crawl_read_delimited (8 * 1024) (sk_stream env) of
        Inl e \<Rightarrow> Inl (SinkRead e)
      | Inr (_, rest) \<Rightarrow>
          if \<not> sk_write env then Inl SinkWrite
          else case crawl_read_delimited cap rest of
            Inl e \<Rightarrow> Inl (SinkRead e)
          | Inr (body, _) \<Rightarrow> (case crawl_tail_ends (sk_tail env) of Inl e \<Rightarrow> Inl e | Inr _ \<Rightarrow> Inr body))"

lemma crawl_read_length_eq: "crawl_read_length stream len shift = read_length shift len stream"
  by (induction stream len shift rule: crawl_read_length.induct) (simp_all add: Let_def not_less)

lemma crawl_read_delimited_eq: "crawl_read_delimited cap stream = read_delimited cap stream"
  by (simp add: crawl_read_delimited_def read_delimited_def crawl_read_length_eq read_exact_def split: sum.split)

lemma crawl_tail_ends_eq: "crawl_tail_ends rs = drain_tail rs"
  by (induction rs) (auto split: drain_read.split)

lemma crawl_read_sink_body_eq: "crawl_read_sink_body cap env = read_sink_body cap env"
  unfolding crawl_read_sink_body_def read_sink_body_def crawl_read_delimited_eq crawl_tail_ends_eq by (rule refl)

section \<open>Arguments of the commands\<close>

definition fund_parse_hex20 :: "(nat \<Rightarrow> string \<Rightarrow> bytes option) \<Rightarrow> string \<Rightarrow> bytes option" where
  "fund_parse_hex20 hex_decode s = hex_decode 20 (trim_start_matches ''0X'' (trim_start_matches ''0x'' (str_trim s)))"

definition growth_parse_hex :: "(nat \<Rightarrow> string \<Rightarrow> bytes option) \<Rightarrow> nat \<Rightarrow> string \<Rightarrow> bytes option" where
  "growth_parse_hex hex_decode n s =
     (let t = str_trim s; u = trim_start_matches ''0x'' t; v = trim_start_matches ''0X'' u in hex_decode n v)"

definition probe_parse_hex :: "(nat \<Rightarrow> string \<Rightarrow> bytes option) \<Rightarrow> nat \<Rightarrow> string \<Rightarrow> bytes option" where
  "probe_parse_hex hex_decode n s =
     (let t = trim_start_matches ''0X'' (trim_start_matches ''0x'' (str_trim s)) in hex_decode n t)"

text \<open>The loop over the lines of the inventory: a line that has no such cell or no address in it is skipped.\<close>

fun growth_select ::
  "(nat \<Rightarrow> string \<Rightarrow> bytes option) \<Rightarrow> nat \<Rightarrow> swarm_address \<Rightarrow> nat \<Rightarrow> nat \<Rightarrow> string list \<Rightarrow> swarm_address list \<Rightarrow> swarm_address list" where
  "growth_select hex_decode addr_col overlay min_po limit [] selected = selected"
| "growth_select hex_decode addr_col overlay min_po limit (line # ls) selected =
     (case nth_opt (split_on (CHR '','') line) addr_col of
        None \<Rightarrow> growth_select hex_decode addr_col overlay min_po limit ls selected
      | Some cell \<Rightarrow>
          (case growth_parse_hex hex_decode 32 cell of
             None \<Rightarrow> growth_select hex_decode addr_col overlay min_po limit ls selected
           | Some addr \<Rightarrow>
               if min_po \<le> proximity addr overlay then
                 if limit \<le> length (selected @ [addr]) then selected @ [addr]
                 else growth_select hex_decode addr_col overlay min_po limit ls (selected @ [addr])
               else growth_select hex_decode addr_col overlay min_po limit ls selected))"

definition growth_load_chunk_addresses ::
  "(nat \<Rightarrow> string \<Rightarrow> bytes option) \<Rightarrow> string option \<Rightarrow> swarm_address \<Rightarrow> nat \<Rightarrow> nat \<Rightarrow> (csv_error, swarm_address list) result" where
  "growth_load_chunk_addresses hex_decode csv overlay min_po limit =
     (case csv of
        None \<Rightarrow> Inl Unreadable
      | Some content \<Rightarrow>
          (case str_lines content of
             [] \<Rightarrow> Inl EmptyCsv
           | header # ls \<Rightarrow>
               (case position (\<lambda>c. str_trim c = ''address_hex'') (split_on (CHR '','') header) of
                  None \<Rightarrow> Inl NoColumn
                | Some addr_col \<Rightarrow> Inr (growth_select hex_decode addr_col overlay min_po limit ls []))))"

lemma growth_select_eq:
  "growth_select hex_decode col overlay min_po limit ls out
    = collect_rows (stored_cell hex_decode overlay min_po col) (\<lambda>n. limit \<le> n) ls out"
  by (induction ls arbitrary: out)
    (auto simp: stored_cell_def chunk_cell_def cells_def growth_parse_hex_def parse_hex_def Let_def split: option.split)

lemma growth_load_eq: "growth_load_chunk_addresses hex_decode csv overlay min_po limit = load_chunk_addresses hex_decode overlay min_po limit csv"
  unfolding growth_load_chunk_addresses_def load_chunk_addresses_def inventory_rows_def growth_select_eq cells_def
  by (simp split: option.split list.split)

section \<open>Properties\<close>

text \<open>
  The readers the crawler has of its own read every stream as those of the direct connection do,
  to the same bytes and the same errors, and the growth command selects from an inventory the chunks
  that the storer probe selects; all commands decode a hexadecimal argument alike.
\<close>
theorem copies_agree:
  "crawl_read_sink_body cap env = read_sink_body cap env
    \<and> growth_load_chunk_addresses hex_decode csv overlay min_po limit = load_chunk_addresses hex_decode overlay min_po limit csv
    \<and> growth_parse_hex hex_decode n s = parse_hex hex_decode n s \<and> probe_parse_hex hex_decode n s = parse_hex hex_decode n s
    \<and> fund_parse_hex20 hex_decode s = parse_hex hex_decode 20 s"
  by (simp add: crawl_read_sink_body_eq growth_load_eq growth_parse_hex_def probe_parse_hex_def fund_parse_hex20_def parse_hex_def)

end
