(* ===== verification/Peer_Stats.thy ===== *)
theory Peer_Stats
  imports DS_Prelude
begin

text \<open>
  Per-peer service statistics (\<^verbatim>\<open>PeerStats\<close> of \<^verbatim>\<open>rust/ds-core/src/scheduler.rs\<close>): the controller of
  the pipeline depth, which grows by one after eight successes and is halved on a failure. The
  floating-point moving average of the latency is a parameter (\<open>ewma\<close>), an opaque value of the state.
\<close>

record 'f peer_stats =
  st_latency_ewma_ms :: 'f
  st_depth :: u32
  st_chunks_ok :: u64
  st_chunks_err :: u64
  st_successes_since_increase :: u32

definition DEPTH_MIN :: u32 where "DEPTH_MIN = 2"
definition DEPTH_MAX :: u32 where "DEPTH_MAX = 16"
definition INCREASE_EVERY :: u32 where "INCREASE_EVERY = 8"

definition stats_default :: "'f \<Rightarrow> 'f peer_stats" where
  "stats_default zero = \<lparr>st_latency_ewma_ms = zero, st_depth = DEPTH_MIN, st_chunks_ok = 0, st_chunks_err = 0,
     st_successes_since_increase = 0\<rparr>"

definition on_success :: "('f \<Rightarrow> u64 \<Rightarrow> u32 option \<Rightarrow> 'f) \<Rightarrow> u64 \<Rightarrow> u32 option \<Rightarrow> 'f peer_stats \<Rightarrow> 'f peer_stats" where
  "on_success ewma latency_ms prior_rtt_ms s =
     (let s1 = s\<lparr>st_chunks_ok := st_chunks_ok s + 1,
                 st_latency_ewma_ms := ewma (st_latency_ewma_ms s) latency_ms prior_rtt_ms,
                 st_successes_since_increase := st_successes_since_increase s + 1\<rparr>
      in if INCREASE_EVERY \<le> st_successes_since_increase s1 \<and> st_depth s1 < DEPTH_MAX
         then s1\<lparr>st_depth := st_depth s1 + 1, st_successes_since_increase := 0\<rparr>
         else s1)"

definition on_failure :: "'f peer_stats \<Rightarrow> 'f peer_stats" where
  "on_failure s = s\<lparr>st_chunks_err := st_chunks_err s + 1, st_successes_since_increase := 0,
     st_depth := max (st_depth s div 2) DEPTH_MIN\<rparr>"

datatype outcome = Served u64 "u32 option" | Refused

definition observe :: "('f \<Rightarrow> u64 \<Rightarrow> u32 option \<Rightarrow> 'f) \<Rightarrow> outcome \<Rightarrow> 'f peer_stats \<Rightarrow> 'f peer_stats" where
  "observe ewma x s = (case x of Served ms rtt \<Rightarrow> on_success ewma ms rtt s | Refused \<Rightarrow> on_failure s)"

lemma observe_depth:
  assumes "DEPTH_MIN \<le> st_depth s" "st_depth s \<le> DEPTH_MAX"
  shows "DEPTH_MIN \<le> st_depth (observe ewma x s) \<and> st_depth (observe ewma x s) \<le> DEPTH_MAX"
proof (cases x)
  case (Served ms rtt)
  have "unat (st_depth s + 1) = unat (st_depth s) + 1"
    using assms(2) by (intro trans [OF unat_add_no_overflow]) (simp_all add: DEPTH_MAX_def word_le_nat_alt)
  then show ?thesis
    using assms by (auto simp: Served observe_def on_success_def Let_def DEPTH_MIN_def DEPTH_MAX_def word_le_nat_alt word_less_nat_alt)
next
  case Refused
  have "unat (st_depth s div 2) \<le> unat (st_depth s)" by (simp add: unat_div)
  then show ?thesis
    using assms by (auto simp: Refused observe_def on_failure_def DEPTH_MIN_def DEPTH_MAX_def word_le_nat_alt max_def)
qed

lemma successes_to_increase:
  assumes "DEPTH_MIN \<le> st_depth s" "st_depth s < DEPTH_MAX" "unat (st_successes_since_increase s) + length xs = 8" "xs \<noteq> []"
    and "list_all (\<lambda>x. x \<noteq> Refused) xs"
  shows "st_depth (fold (observe ewma) xs s) = st_depth s + 1 \<and> st_successes_since_increase (fold (observe ewma) xs s) = 0"
  using assms
proof (induction xs arbitrary: s)
  case (Cons x xs)
  then obtain ms rtt where x: "x = Served ms rtt" by (cases x) auto
  have n: "unat (st_successes_since_increase s + 1) = unat (st_successes_since_increase s) + 1"
    using Cons.prems(3) by (intro trans [OF unat_add_no_overflow]) simp_all
  show ?case
  proof (cases "xs = []")
    case True
    with Cons.prems n show ?thesis
      by (simp add: x observe_def on_success_def Let_def INCREASE_EVERY_def word_le_nat_alt)
  next
    case False
    then have "unat (st_successes_since_increase s + 1) < 8" using Cons.prems(3) n by (cases xs) simp_all
    then have "\<not> INCREASE_EVERY \<le> st_successes_since_increase s + 1"
      by (simp only: INCREASE_EVERY_def word_le_nat_alt) simp
    then have "observe ewma x s = s\<lparr>st_chunks_ok := st_chunks_ok s + 1, st_latency_ewma_ms := ewma (st_latency_ewma_ms s) ms rtt,
        st_successes_since_increase := st_successes_since_increase s + 1\<rparr>"
      by (simp add: x observe_def on_success_def Let_def)
    then show ?thesis using Cons.IH [of "observe ewma x s"] Cons.prems n False by simp
  qed
qed simp

section \<open>Properties\<close>

text \<open>
  The pipeline depth of a peer stays between 2 and 16 over every sequence of successes and
  failures, eight successes in a row after a change of depth raise it by exactly one below the
  maximum, and a failure halves it, down to the minimum.
\<close>
theorem pipeline_depth_aimd:
  assumes "s = fold (observe ewma) xs (stats_default zero)"
  shows "2 \<le> st_depth s \<and> st_depth s \<le> 16 \<and> unat (st_depth (observe ewma Refused s)) = max (unat (st_depth s) div 2) 2
    \<and> (st_successes_since_increase s = 0 \<and> st_depth s < 16 \<and> length ys = 8 \<and> list_all (\<lambda>y. y \<noteq> Refused) ys \<longrightarrow>
        st_depth (fold (observe ewma) ys s) = st_depth s + 1)"
proof -
  have "DEPTH_MIN \<le> st_depth (fold (observe ewma) xs t) \<and> st_depth (fold (observe ewma) xs t) \<le> DEPTH_MAX"
    if "DEPTH_MIN \<le> st_depth t" "st_depth t \<le> DEPTH_MAX" for t
    using that
  proof (induction xs arbitrary: t)
    case (Cons x xs)
    then show ?case using observe_depth [of t ewma x] by simp
  qed simp
  then have d: "DEPTH_MIN \<le> st_depth s" "st_depth s \<le> DEPTH_MAX"
    by (simp_all add: assms stats_default_def DEPTH_MIN_def DEPTH_MAX_def word_le_nat_alt)
  moreover have "unat (st_depth (observe ewma Refused s)) = max (unat (st_depth s) div 2) 2"
    by (simp add: observe_def on_failure_def DEPTH_MIN_def max_def word_le_nat_alt unat_div)
  moreover have "st_depth (fold (observe ewma) ys s) = st_depth s + 1"
    if "st_successes_since_increase s = 0" "st_depth s < 16" "length ys = 8" "list_all (\<lambda>y. y \<noteq> Refused) ys"
  proof -
    have "ys \<noteq> []" using that(3) by auto
    then show ?thesis using successes_to_increase [of s ys ewma] that d by (simp add: DEPTH_MAX_def)
  qed
  ultimately show ?thesis by (simp add: DEPTH_MIN_def DEPTH_MAX_def)
qed

theorem pipeline_depth_aimd_witness:
  "st_depth (fold (observe (\<lambda>e ms rtt. ms)) (replicate 8 (Served 5 None)) (stats_default 0)) = 3"
  using pipeline_depth_aimd [of "stats_default 0" "\<lambda>e ms rtt. ms" "[]" 0 "replicate 8 (Served 5 None)"]
  by (simp add: stats_default_def DEPTH_MIN_def list_all_iff)

end
