(* ===== verification/Unit_Tests.thy ===== *)
theory Unit_Tests
  imports Topology Resume Wire Ledger Store Peerstate Hive "HOL-Library.Sublist"
begin

text \<open>
  The unit tests of the repository, run on the model: one definition for the assertions of each
  test, named as the test is, and a lemma that they hold. The libraries a test calls (multiaddr,
  base64, the JSON reader, the other program's ledger) are parameters, or their assertions left out.
  The keystore's tests decrypt with real ciphers and stay out.
\<close>

section \<open>Addresses (\<^verbatim>\<open>rust/ds-core/src/swarm.rs\<close>)\<close>

definition test_addr :: "bytes \<Rightarrow> swarm_address" where
  "test_addr first_bytes = first_bytes @ replicate (32 - length first_bytes) 0"

definition proximity_of_identical_is_max_po :: bool where
  "proximity_of_identical_is_max_po \<longleftrightarrow> proximity (test_addr [0xab, 0xcd]) (test_addr [0xab, 0xcd]) = MAX_PO"

definition proximity_first_bit_differs :: bool where
  "proximity_first_bit_differs \<longleftrightarrow> proximity (test_addr [0x00]) (test_addr [0x80]) = 0"

definition proximity_counts_leading_equal_bits :: bool where
  "proximity_counts_leading_equal_bits \<longleftrightarrow> proximity (test_addr [0x40]) (test_addr [0x60]) = 2
     \<and> proximity (test_addr [0xff, 0x00]) (test_addr [0xff, 0x80]) = 8"

definition proximity_caps_at_max_po :: bool where
  "proximity_caps_at_max_po \<longleftrightarrow> proximity (replicate 32 0) ((replicate 32 0)[31 := 0x01]) = MAX_PO"

definition neighborhood_depth9 :: bool where
  "neighborhood_depth9 \<longleftrightarrow> neighborhood (test_addr [0xff, 0x80]) 9 = Some 511
     \<and> neighborhood (test_addr [0x00, 0x00]) 9 = Some 0 \<and> neighborhood (test_addr [0x80]) 9 = Some 256"

definition neighborhood_agrees_with_proximity :: bool where
  "neighborhood_agrees_with_proximity \<longleftrightarrow>
     (let a = test_addr [0b10101010, 0b11000000]; b = test_addr [0b10101010, 0b11001111]
      in proximity a b = 12 \<and> list_all (\<lambda>d. neighborhood a d = neighborhood b d) [0..<13] \<and> neighborhood a 13 \<noteq> neighborhood b 13)"

lemma lz8: "leading_zeros (w :: u8) = length (takeWhile (\<lambda>i. \<not> bit w i) [7, 6, 5, 4, 3, 2, 1, 0])"
proof -
  have "rev [0..<LENGTH(8)] = [7, 6, 5, 4, 3, 2, 1, 0 :: nat]" by (simp add: upt_rec)
  then show ?thesis by (simp only: leading_zeros_def)
qed

lemma be_nat_zeros [simp]: "be_nat (replicate n 0) = 0"
  by (induction n) simp_all

lemma proximity_from_same [simp]: "proximity_from i xs xs = MAX_PO"
  by (induction xs arbitrary: i) simp_all

lemma replicate_30: "replicate 30 (0 :: u8) = 0 # replicate 29 0"
  by (simp add: numeral_nat)

lemma swarm_tests:
  "proximity_of_identical_is_max_po" "proximity_first_bit_differs" "proximity_counts_leading_equal_bits"
  "proximity_caps_at_max_po" "neighborhood_depth9" "neighborhood_agrees_with_proximity"
proof -
  note defs = proximity_def test_addr_def MAX_PO_def lz8
  show "proximity_of_identical_is_max_po" "proximity_first_bit_differs" "proximity_counts_leading_equal_bits"
    by (simp_all add: proximity_of_identical_is_max_po_def proximity_first_bit_differs_def
        proximity_counts_leading_equal_bits_def defs)
  show "proximity_caps_at_max_po" by (simp add: proximity_caps_at_max_po_def defs numeral_nat)
  show "neighborhood_depth9" by (simp add: neighborhood_depth9_def neighborhood_def test_addr_def from_be_bytes_def)
  show "neighborhood_agrees_with_proximity"
    by (simp add: neighborhood_agrees_with_proximity_def neighborhood_def from_be_bytes_def upt_rec defs)
qed

section \<open>Topology cache (\<^verbatim>\<open>rust/ds-core/src/topology.rs\<close>)\<close>

definition test_rec :: "bytes \<Rightarrow> u32 option \<Rightarrow> u64 \<Rightarrow> bool \<Rightarrow> node_record" where
  "test_rec first rtt tick dialed =
     \<lparr>nr_overlay = test_addr first, nr_underlays = [''/ip4/1.2.3.4/tcp/'' @ show_uint tick], nr_rtt_ms = rtt,
      nr_last_seen_tick = tick, nr_dialed_ok = dialed\<rparr>"

definition upsert_merges_and_keeps_dialed :: bool where
  "upsert_merges_and_keeps_dialed \<longleftrightarrow>
     (let cache = topology_new (test_addr [0x00]);
          cache = upsert (test_rec [0xab] None 1 True) cache;
          cache = upsert \<lparr>nr_overlay = test_addr [0xab], nr_underlays = [''/ip4/5.6.7.8/tcp/9''], nr_rtt_ms = Some 42,
            nr_last_seen_tick = 5, nr_dialed_ok = False\<rparr> cache
      in case topology_get cache (test_addr [0xab]) of
           None \<Rightarrow> False
         | Some got \<Rightarrow> nr_dialed_ok got \<and> nr_last_seen_tick got = 5 \<and> nr_rtt_ms got = Some 42
             \<and> length (nr_underlays got) = 2 \<and> topology_len cache = 1)"

definition storers_for_sorts_by_rtt :: bool where
  "storers_for_sorts_by_rtt \<longleftrightarrow>
     (let cache = topology_new (test_addr [0x00]);
          chunk = test_addr [0xff, 0xf0];
          cache = upsert (test_rec [0xff, 0xf0, 0x01] (Some 300) 1 True) cache;
          cache = upsert (test_rec [0xff, 0xf0, 0x02] (Some 100) 1 True) cache;
          cache = upsert (test_rec [0xff, 0xf0, 0x03] None 1 True) cache;
          cache = upsert (test_rec [0x00, 0x00] (Some 10) 1 True) cache
      in map nr_rtt_ms (storers_for cache chunk 12) = [Some 100, Some 300, None])"

definition coverage_counts_chunks_and_neighborhoods :: bool where
  "coverage_counts_chunks_and_neighborhoods \<longleftrightarrow>
     (let cache = upsert (test_rec [0xff, 0x80] (Some 1) 1 True) (topology_new (test_addr [0x00]));
          chunks = [test_addr [0xff, 0x80], test_addr [0xff, 0x81], test_addr [0x00, 0x00]]
      in coverage_of cache chunks 9 = Some \<lparr>chunks_covered = 2, chunks_total = 3, neighborhoods_total = 2, neighborhoods_covered = 1\<rparr>)"

lemma topology_tests:
  "upsert_merges_and_keeps_dialed" "storers_for_sorts_by_rtt" "coverage_counts_chunks_and_neighborhoods"
proof -
  note cache = test_rec_def upsert_def topology_new_def hm_insert_def
  note lookup = topology_records_def test_addr_def proximity_def lz8 MAX_PO_def
  show "upsert_merges_and_keeps_dialed"
    by (simp add: upsert_merges_and_keeps_dialed_def topology_get_def topology_len_def merge_record_def cache)
  show "storers_for_sorts_by_rtt"
    by (simp add: storers_for_sorts_by_rtt_def storers_for_def rtt_key_def replicate_30 cache lookup)
  show "coverage_counts_chunks_and_neighborhoods"
    by (simp add: coverage_counts_chunks_and_neighborhoods_def coverage_of_def neighborhood_def chunk_covered_def
        from_be_bytes_def hm_get_or_def cache lookup)
qed

section \<open>Resume sidecar (\<^verbatim>\<open>rust/ds-core/src/resume.rs\<close>)\<close>

fun str_replace :: "string \<Rightarrow> string \<Rightarrow> string \<Rightarrow> string" where
  "str_replace old new [] = []"
| "str_replace old new (c # s) =
     (if starts_with old (c # s) \<and> old \<noteq> [] then new @ str_replace old new (drop (length old - 1) s)
      else c # str_replace old new s)"

definition test_state :: resume_state where
  "test_state = \<lparr>rs_root = 0x84 # 0x2e # replicate 29 0 @ [0x9a], rs_offset = 123456789\<rparr>"

definition round_trips :: bool where
  "round_trips \<longleftrightarrow> parse (render test_state) = Some test_state"

definition render_is_stable :: bool where
  "render_is_stable \<longleftrightarrow> starts_with (''directswarm-resume v1'' @ [NL] @ ''root=842e'') (render test_state)
     \<and> starts_with (rev (''offset=123456789'' @ [NL])) (rev (render test_state))"

definition rejects_garbage :: bool where
  "rejects_garbage \<longleftrightarrow> parse [] = None \<and> parse (''directswarm-resume v2'' @ [NL] @ ''root=00'' @ [NL]) = None
     \<and> parse (str_replace ''root=84'' ''root=zz'' (render test_state)) = None"

definition rejects_bad_offset :: bool where
  "rejects_bad_offset \<longleftrightarrow> parse (str_replace ''offset=123456789'' ''offset=-1'' (render test_state)) = None"

lemma bit_one_zero [simp]: "bit (Suc 0) 0"
  by (simp add: bit_Suc_0_iff)

lemma hex_zeros: "render_root (replicate n 0 @ bs) = concat (replicate n ''00'') @ render_root bs"
  by (induction n) (simp_all add: hex_digit_def digit_char_def char_of_def)

lemma hex_ones: "render_root (replicate n 0x11) = concat (replicate n ''11'')"
  by (induction n) (simp_all add: hex_digit_def digit_char_def char_of_def)

lemma test_state_text:
  "render test_state = ''directswarm-resume v1'' @ [NL] @ ''root=842e'' @ concat (replicate 29 ''00'') @ ''9a'' @ [NL]
     @ ''offset=123456789'' @ [NL]"
  by (simp add: test_state_def render_def MAGIC_def hex_zeros hex_digit_def digit_char_def char_of_def show_uint_def show_nat.simps)

lemma resume_tests: "round_trips" "render_is_stable" "rejects_garbage" "rejects_bad_offset"
proof -
  show "round_trips" by (simp add: round_trips_def parse_render_state test_state_def)
  show "render_is_stable" by (simp add: render_is_stable_def test_state_text starts_with_def NL_def)
  show "rejects_garbage"
    by (simp add: rejects_garbage_def test_state_text starts_with_def numeral_nat parse_def str_lines_def strip_cr_def MAGIC_def NL_def CR_def
        parse_hex32_def to_digit_def)
  show "rejects_bad_offset"
    by (simp add: rejects_bad_offset_def test_state_text starts_with_def numeral_nat parse_def str_lines_def strip_cr_def MAGIC_def NL_def CR_def
        parse_uint_def parse_nat_def to_digit_def split: option.split)
qed

section \<open>Messages (\<^verbatim>\<open>direct.rs\<close> and \<^verbatim>\<open>growth.rs\<close> under \<^verbatim>\<open>rust/ds-net/src\<close>)\<close>

definition parses_announce_threshold :: bool where
  "parses_announce_threshold \<longleftrightarrow> parse_announce_threshold [0x0a, 0x03, 0x0d, 0x2f, 0x00] = Some 864000"

definition rejects_garbage_threshold :: bool where
  "rejects_garbage_threshold \<longleftrightarrow> parse_announce_threshold [0xff] = None \<and> parse_announce_threshold [] = None"

definition varint_roundtrip_test :: bool where
  "varint_roundtrip_test \<longleftrightarrow> decode_varint [0xac, 0x02, 0x99] = Some (300, [0x99])"

definition cheque_json_matches_bee_shape :: "(bytes \<Rightarrow> string) \<Rightarrow> bool" where
  "cheque_json_matches_bee_shape base64 \<longleftrightarrow>
     (let json = encode_cheque_json_bee render_root show_uint base64
            \<lparr>sc_cheque = \<lparr>ch_chequebook = replicate 20 0x11, ch_beneficiary = replicate 20 0x22, ch_cumulative_payout = 89000000100\<rparr>,
             sc_signature = replicate 65 0x33\<rparr>;
          q = [CHR 0x22]; holds = (\<lambda>part. sublist (string_bytes part) json)
      in holds (q @ ''CumulativePayout'' @ q @ '':89000000100,'')
         \<and> holds (q @ ''Chequebook'' @ q @ '':'' @ q @ ''0x1111111111111111111111111111111111111111'' @ q))"

definition parses_ack_amount :: bool where
  "parses_ack_amount \<longleftrightarrow> parse_ack_amount [0x0a, 0x03, 0x00, 0xc3, 0x50, 0x10, 0xd2, 0x09] = Some 50000"

definition parses_zero_ack :: bool where
  "parses_zero_ack \<longleftrightarrow> parse_ack_amount [0x0a, 0x00, 0x10, 0x01] = Some 0 \<and> parse_ack_amount [] = Some 0"

lemma message_tests: "parses_announce_threshold" "rejects_garbage_threshold" "varint_roundtrip_test" "parses_ack_amount" "parses_zero_ack"
  by (simp_all add: parses_announce_threshold_def rejects_garbage_threshold_def varint_roundtrip_test_def parses_ack_amount_def
      parses_zero_ack_def parse_ack_amount_def parse_announce_threshold.simps parse_ack_loop.simps take_delimited_def
      decode_varint_def from_be_bytes_def)

lemma string_bytes_append: "string_bytes (s @ t) = string_bytes s @ string_bytes t"
  by (simp add: string_bytes_def)

lemma cheque_test: "cheque_json_matches_bee_shape base64"
proof -
  let ?q = "[CHR 0x22]"
  let ?book = "?q @ ''Chequebook'' @ ?q @ '':'' @ ?q @ ''0x1111111111111111111111111111111111111111'' @ ?q"
  let ?payout = "?q @ ''CumulativePayout'' @ ?q @ '':89000000100,''"
  let ?json = "''{'' @ ?book @ '','' @ ?q @ ''Beneficiary'' @ ?q @ '':'' @ ?q @ ''0x'' @ render_root (replicate 20 0x22) @ ?q @ '',''
      @ ?payout @ ?q @ ''Signature'' @ ?q @ '':'' @ ?q @ base64 (replicate 65 0x33) @ ?q @ ''}''"
  have "concat (replicate 20 ''11'') = ''1111111111111111111111111111111111111111''" by (simp add: numeral_nat)
  moreover have "show_uint (89000000100 :: U256) = ''89000000100''"
    by (simp add: show_uint_def show_nat.simps digit_char_def char_of_def)
  ultimately have "encode_cheque_json_bee render_root show_uint base64
      \<lparr>sc_cheque = \<lparr>ch_chequebook = replicate 20 0x11, ch_beneficiary = replicate 20 0x22, ch_cumulative_payout = 89000000100\<rparr>,
       sc_signature = replicate 65 0x33\<rparr> = string_bytes ?json"
    by (simp add: encode_cheque_json_bee_def hex_ones Let_def)
  moreover have "sublist (string_bytes ?book) (string_bytes ?json)" "sublist (string_bytes ?payout) (string_bytes ?json)"
    unfolding string_bytes_append sublist_def
    by (rule exI [of _ "string_bytes ''{''"], simp only: append.assoc, blast)
      (rule exI [of _ "string_bytes (''{'' @ ?book @ '','' @ ?q @ ''Beneficiary'' @ ?q @ '':'' @ ?q @ ''0x'' @ render_root (replicate 20 0x22)
         @ ?q @ '','')"], simp only: append.assoc string_bytes_append, blast)
  ultimately show ?thesis by (simp add: cheque_json_matches_bee_shape_def Let_def)
qed

section \<open>Gossip (\<^verbatim>\<open>rust/ds-net/src/hive.rs\<close>)\<close>

text \<open>
  The sample address is a parameter with its bytes and what the multiaddr library reads from them; a
  protobuf body stands for the records that are encoded in it.
\<close>

definition decodes_single_underlay_record ::
  "(bytes \<Rightarrow> (u64 \<times> bytes) option) \<Rightarrow> (bytes \<Rightarrow> 'm option) \<Rightarrow> ('m \<Rightarrow> 'p protocol list) \<Rightarrow> bytes \<Rightarrow> 'm \<Rightarrow> bool" where
  "decodes_single_underlay_record varint try_from protocols raw addr \<longleftrightarrow>
     (let pb = [\<lparr>bz_underlay = raw, bz_signature = [], bz_overlay = replicate 32 0x11, bz_nonce = []\<rparr>];
          hints = decode_peers (\<lambda>_. Some pb) varint try_from protocols []
      in map (\<lambda>h. (hi_overlay h, hi_underlays h)) hints = [(replicate 32 0x11, [addr])])"

definition decodes_099_underlay_list ::
  "(u64 \<Rightarrow> bytes) \<Rightarrow> (bytes \<Rightarrow> (u64 \<times> bytes) option) \<Rightarrow> (bytes \<Rightarrow> 'm option) \<Rightarrow> bytes \<Rightarrow> 'm \<Rightarrow> bool" where
  "decodes_099_underlay_list encode varint try_from raw addr \<longleftrightarrow>
     deserialize_underlays varint try_from (UNDERLAY_LIST_PREFIX # encode (of_nat (length raw)) @ raw) = Inr [addr]"

definition skips_wrong_overlay_len_and_underlayless ::
  "(bytes \<Rightarrow> (u64 \<times> bytes) option) \<Rightarrow> (bytes \<Rightarrow> 'm option) \<Rightarrow> ('m \<Rightarrow> 'p protocol list) \<Rightarrow> bytes \<Rightarrow> bytes \<Rightarrow> bool" where
  "skips_wrong_overlay_len_and_underlayless varint try_from protocols raw bare \<longleftrightarrow>
     decode_peers (\<lambda>_. Some [\<lparr>bz_underlay = raw, bz_signature = [], bz_overlay = replicate 20 0x11, bz_nonce = []\<rparr>,
       \<lparr>bz_underlay = bare, bz_signature = [], bz_overlay = replicate 32 0x22, bz_nonce = []\<rparr>]) varint try_from protocols [] = []"

lemma hive_tests:
  assumes "try_from raw = Some addr" "raw \<noteq> []" "hd raw \<noteq> UNDERLAY_LIST_PREFIX" "length raw \<le> 100"
    and "extract_peer_id protocols addr = Some peer"
    and "\<And>n rest. varint (encode n @ rest) = Some (n, rest)" "length (encode (of_nat (length raw))) \<le> 10"
    and "try_from bare = Some naked" "bare \<noteq> []" "hd bare \<noteq> UNDERLAY_LIST_PREFIX" "extract_peer_id protocols naked = None"
  shows "decodes_single_underlay_record varint try_from protocols raw addr"
    "decodes_099_underlay_list encode varint try_from raw addr"
    "skips_wrong_overlay_len_and_underlayless varint try_from protocols raw bare"
proof -
  show "decodes_single_underlay_record varint try_from protocols raw addr"
    using assms(1-5) by (simp add: decodes_single_underlay_record_def decode_peers_def hint_of_def deserialize_underlays_def
        MAX_UNDERLAY_BYTES_def Let_def List.map_filter_simps)
  show "skips_wrong_overlay_len_and_underlayless varint try_from protocols raw bare"
    using assms(8-11) by (simp add: skips_wrong_overlay_len_and_underlayless_def decode_peers_def hint_of_def
        deserialize_underlays_def List.map_filter_simps)
  have "unat (of_nat (length raw) :: u64) = length raw" using assms(4) by (simp add: unat_of_nat)
  then show "decodes_099_underlay_list encode varint try_from raw addr"
    using assms(1,2,4,6,7) by (simp add: decodes_099_underlay_list_def deserialize_underlays_def MAX_UNDERLAY_BYTES_def
        deserialize_list.simps [of varint try_from "encode n @ r" for n r] deserialize_list.simps [of varint try_from "[]"]
        MAX_UNDERLAYS_PER_PEER_def)
qed

section \<open>Persistence (\<^verbatim>\<open>ledger.rs\<close>, \<^verbatim>\<open>store.rs\<close> and \<^verbatim>\<open>peerstate.rs\<close> under \<^verbatim>\<open>rust/ds-net/src\<close>)\<close>

definition roundtrip_ant_format :: bool where
  "roundtrip_ant_format \<longleftrightarrow>
     (let ben = replicate 20 0xab; no_file = \<lparr>dk_file = None, dk_tmp = None\<rparr>; l = ledger_open parse_uint no_file
      in cumulative_for render_root ben l = 0
         \<and> (case flush NoFault show_uint (record_issued render_root ben 123456789 l, no_file) of
              (Inl _, _) \<Rightarrow> False
            | (Inr _, _, d) \<Rightarrow> cumulative_for render_root ben (ledger_open parse_uint d) = 123456789))"

definition put_get_persist_resume :: bool where
  "put_get_persist_resume \<longleftrightarrow>
     (let a = replicate 32 1; b = replicate 32 2; d0 = \<lparr>sd_data = [], sd_index = None, sd_index_tmp = None\<rparr>;
          put = (\<lambda>addr txt gd. store_put PutOk FlushOk render_root addr (string_bytes txt) gd);
          (r1, gd1) = put a ''hello-chunk-a'' (store_open parse_hex_pairs d0, d0);
          (r2, gd2) = put b ''chunk-b-data'' gd1;
          (r3, gd3) = put a ''dup-ignored'' gd2;
          (r4, g4, d4) = store_flush FlushOk render_root gd3;
          store = (store_open parse_hex_pairs d4, d4)
      in list_all (\<lambda>r. r = Inr ()) [r1, r2, r3, r4] \<and> store_len (fst gd3) = 2 \<and> store_len (fst store) = 2
         \<and> store_contains a (fst store) \<and> store_get a store = Inr (string_bytes ''hello-chunk-a'')
         \<and> store_get b store = Inr (string_bytes ''chunk-b-data'') \<and> fst (store_cleanup True True d4) = Inr ())"

definition roundtrip_and_merge :: "u64 \<Rightarrow> bool" where
  "roundtrip_and_merge now \<longleftrightarrow>
     (let ov = replicate 32 7; no_file = \<lparr>dk_file = None, dk_tmp = None\<rparr>;
          observe = peerstate_record NoFault now render_root ov;
          st1 = observe \<lparr>po_threshold = 9450000, po_lambda_ms = Some 1210, po_settled_units_delta = 1000,
            po_service_cps_x10 = Some 200, po_surplus_units_abs = Some 42, po_clean_close = True\<rparr>
            (peerstate_open parse_hex_pairs no_file, no_file);
          st2 = observe \<lparr>po_threshold = 1350000, po_lambda_ms = None, po_settled_units_delta = 500,
            po_service_cps_x10 = None, po_surplus_units_abs = None, po_clean_close = False\<rparr> st1
      in case peerstate_get ov (peerstate_open parse_hex_pairs (snd st2)) of
           None \<Rightarrow> False
         | Some e \<Rightarrow> ps_threshold_last e = 9450000 \<and> ps_lambda_ms e = Some 1210 \<and> ps_settled_units e = 1500
             \<and> ps_surplus_units e = 42 \<and> 0 < ps_last_ok_unix e)"

lemma ledger_test: "roundtrip_ant_format"
proof -
  let ?ben = "replicate 20 (0xab :: u8)" and ?m = "[(render_root (replicate 20 0xab), 123456789 :: U256)]"
  have "ledger_key (render_root ?ben)" by (rule hex_ledger_key [OF own_hex.hex_codec_axioms]) simp
  then have "ledger_map_ok ?m" by (simp add: ledger_map_ok_def hm_wf_def)
  then have "hm_get (load_map parse_uint (Some (ledger_body show_uint ?m))) = hm_get ?m"
    by (rule load_ledger_body [OF std_num.decimal_codec_axioms])
  then show ?thesis
    by (simp add: roundtrip_ant_format_def ledger_open_def load_map_def [of _ None] cumulative_for_def hm_get_or_def flush_def
        record_issued_def record_insert_def mark_dirty_def hm_insert_def persist_map_def replace_file_def ledger_snapshot_def)
qed

lemma store_test: "put_get_persist_resume"
proof -
  let ?a = "replicate 32 (1 :: u8)" and ?b = "replicate 32 (2 :: u8)"
  let ?rows = "[(?a, 0 :: u64, 13 :: u32), (?b, 13, 12)]"
  let ?g = "\<lparr>si_end = 25, si_index = ?rows, si_dirty = 2\<rparr>"
  have ab: "?a \<noteq> ?b" by simp
  have len [simp]: "length (string_bytes s) = length s" for s by (simp add: string_bytes_def)
  have ok: "list_all (index_row_ok 25) ?rows" by (simp add: index_row_ok_def)
  have load: "load_index parse_hex_pairs (Some (index_text render_root ?g)) 25 = ?rows"
    using ok own_hex.index_text_lines [of 25 ?g] own_hex.index_rows.read_back [OF ok] ab
    by (simp add: load_index_def foldl_rows hm_insert_def)
  let ?put = "\<lambda>addr txt gd. store_put PutOk FlushOk render_root addr (string_bytes txt) gd"
  let ?d = "\<lambda>bytes idx. \<lparr>sd_data = bytes, sd_index = idx, sd_index_tmp = None\<rparr>"
  let ?both = "string_bytes ''hello-chunk-a'' @ string_bytes ''chunk-b-data''"
  note put = store_put_def write_at_def try_word_def FLUSH_EVERY_def hm_insert_def Let_def
  have new: "store_open parse_hex_pairs (?d [] None) = \<lparr>si_end = 0, si_index = [], si_dirty = 0\<rparr>"
    by (simp add: store_open_def load_index_def)
  have p1: "?put ?a ''hello-chunk-a'' (\<lparr>si_end = 0, si_index = [], si_dirty = 0\<rparr>, ?d [] None)
      = (Inr (), \<lparr>si_end = 13, si_index = [(?a, 0, 13)], si_dirty = 1\<rparr>, ?d (string_bytes ''hello-chunk-a'') None)"
    by (simp add: put)
  have p2: "?put ?b ''chunk-b-data'' (\<lparr>si_end = 13, si_index = [(?a, 0, 13)], si_dirty = 1\<rparr>, ?d (string_bytes ''hello-chunk-a'') None)
      = (Inr (), \<lparr>si_end = 25, si_index = ?rows, si_dirty = 2\<rparr>, ?d ?both None)"
    using ab by (simp add: put)
  have p3: "?put ?a ''dup-ignored'' (\<lparr>si_end = 25, si_index = ?rows, si_dirty = 2\<rparr>, ?d ?both None)
      = (Inr (), \<lparr>si_end = 25, si_index = ?rows, si_dirty = 2\<rparr>, ?d ?both None)"
    by (simp add: put)
  have fl: "store_flush FlushOk render_root (\<lparr>si_end = 25, si_index = ?rows, si_dirty = 2\<rparr>, ?d ?both None)
      = (Inr (), \<lparr>si_end = 25, si_index = ?rows, si_dirty = 0\<rparr>,
         ?d ?both (Some (index_text render_root \<lparr>si_end = 25, si_index = ?rows, si_dirty = 2\<rparr>)))"
    by (simp add: store_flush_def flush_locked_def)
  have re: "store_open parse_hex_pairs (?d ?both (Some (index_text render_root \<lparr>si_end = 25, si_index = ?rows, si_dirty = 2\<rparr>)))
      = \<lparr>si_end = 25, si_index = ?rows, si_dirty = 0\<rparr>"
    by (simp add: store_open_def load)
  show ?thesis
    using ab unfolding put_get_persist_resume_def Let_def new p1 p2 p3 fl prod.case re
    by (simp add: store_len_def store_contains_def store_get_def store_cleanup_def)
qed

lemma peerstate_test:
  assumes "0 < now"
  shows "roundtrip_and_merge now"
proof -
  let ?ov = "replicate 32 (7 :: u8)" and ?none = "\<lparr>dk_file = None, dk_tmp = None\<rparr>"
  have rec: "fst (peerstate_record NoFault now render_root ?ov ob st) = record_locked now ?ov ob (fst st)" for ob st
    by (simp add: peerstate_record_def Let_def)
  have reopen: "hm_get (peerstate_open parse_hex_pairs (snd (peerstate_record NoFault now render_root ?ov ob st))) =
      hm_get (record_locked now ?ov ob (fst st))" if "peer_map_ok (fst st)" for ob st
    using own_hex.open_saved [OF peer_map_ok_record [OF that]] by (simp add: peerstate_record_def Let_def peerstate_save_file)
  have "peer_map_ok []" by (simp add: peer_map_ok_def)
  then show ?thesis
    using assms
    by (simp add: roundtrip_and_merge_def reopen rec peerstate_open_def [of _ ?none] peer_map_ok_record peerstate_get_def Let_def)
      (simp add: record_locked_def hm_get_insert hm_get_or_def merge_observation_def peer_default_def sat_add_def)
qed

end
