(* ===== verification/Spec2Isabelle.thy ===== *)
theory Spec2Isabelle
  imports Cli Drive_Progress Fetch_Progress Integrity Growth_Log Measurements Probe_Session Copies Peer_Stats Unit_Tests
begin

text \<open>
  A verification library for directswarm, a download client for the Swarm storage network. The
  program (under \<^verbatim>\<open>rust/\<close>) crawls the network for storers, fetches the chunks of a payload from many
  of them at once, pays each storer as it goes (free refreshes, and cheques drawn on a chequebook
  contract), keeps the chunks in a file store and reassembles the payload.

  \<^bold>\<open>Parts and their theories.\<close> Sources are under \<^verbatim>\<open>rust/ds-core/src\<close>, \<^verbatim>\<open>rust/ds-net/src\<close> and
  \<^verbatim>\<open>rust/ds-cli/src\<close>.

  \<^item> \<open>DS_Prelude\<close>: machine words with the saturating and checked operations, byte strings, results,
    hash maps as association lists, traces and the locale \<open>refinement\<close>. \<open>Rust_Text\<close>: the string
    functions of the standard library, the contracts \<open>decimal_codec\<close>, \<open>hex_codec\<close> and \<open>row_format\<close>, and the
    rewriting of a file through a temporary one.
  \<^item> \<open>Swarm\<close> (\<^verbatim>\<open>swarm.rs\<close>, \<^verbatim>\<open>bucket_prefix\<close> of \<^verbatim>\<open>schedule.rs\<close>): proximity, neighborhoods, buckets.
    \<open>Topology\<close> (\<^verbatim>\<open>topology.rs\<close>): the cache of node records. \<open>Resume\<close> (\<^verbatim>\<open>resume.rs\<close>): the sidecar text.
    \<open>Peer_Stats\<close> (\<^verbatim>\<open>scheduler.rs\<close>): the pipeline-depth controller.
  \<^item> \<open>Wire\<close> (\<^verbatim>\<open>direct.rs\<close>, \<^verbatim>\<open>growth.rs\<close>): varints, frames and the hand-written message readers. \<open>Hive\<close>
    (\<^verbatim>\<open>hive.rs\<close>, the sinks of \<^verbatim>\<open>direct.rs\<close> and \<^verbatim>\<open>crawl.rs\<close>): what peers push at the client.
    \<open>Crawl\<close> (\<^verbatim>\<open>crawl.rs\<close>, the connection waits of \<^verbatim>\<open>direct.rs\<close>): the crawler.
  \<^item> \<open>Mirror\<close> (\<^verbatim>\<open>Mirror\<close> of \<^verbatim>\<open>growth.rs\<close>): the client's view of its debt. \<open>Ledger\<close> (\<^verbatim>\<open>ledger.rs\<close>): the
    persisted payouts. \<open>Cheque\<close> and \<open>Settle\<close> (\<^verbatim>\<open>direct.rs\<close>): emission of a cheque under the spend cap and
    the settlement loop. \<open>Probe\<close> (\<^verbatim>\<open>probe_storer\<close> of \<^verbatim>\<open>direct.rs\<close>): the retrieval tasks of the measured
    single connection; \<open>Probe_Session\<close>: that connection as a whole, from the protocols claimed before
    the dial over the task that owns the swarm, and the interleaving of the retrieval tasks with the
    settlement task and its delayed credits (\<open>session_step\<close>), to the report.
  \<^item> \<open>Store\<close> (\<^verbatim>\<open>store.rs\<close>): the chunk store. \<open>Peerstate\<close> (\<^verbatim>\<open>peerstate.rs\<close>): what is remembered of peers.
    \<open>File_Fetch\<close> (\<^verbatim>\<open>fetch.rs\<close>, \<^verbatim>\<open>bee_api.rs\<close>): the resumable download of a file and the HTTP source.
  \<^item> \<open>Dispatch\<close>, \<open>Pacer\<close>, \<open>Connection\<close>, \<open>Schedule\<close> (\<^verbatim>\<open>schedule.rs\<close>): routing, storer selection and the
    dispatcher; the exposure gate and the drive loop of a connection; its life from the dial to the
    recorded observation; the whole fetch as an interleaving of its tasks. \<open>Drive\<close> and \<open>Issuer\<close> hold the
    proofs on the drive loop and the interface \<open>cheque_issuer\<close> of everything that pays. \<open>Drive_Progress\<close>
    shows when a connection's loop ends and \<open>Fetch_Progress\<close> that the whole fetch does.
    \<open>Integrity\<close>: what the fetch leaves on the disk, read by a later process.
  \<^item> \<open>Growth_Probe\<close> (\<^verbatim>\<open>growth.rs\<close>): the growth measurement with its set-up, phases, samples, final sweep and
    the events it logs. \<open>Growth_Log\<close>: the text of the events, the file they are appended to and their
    agreement with the report. \<open>Append_File\<close>: files written by appending lines.
  \<^item> \<open>Inventory\<close> (\<^verbatim>\<open>ds-cli\<close>): the files and arguments the commands read and write. \<open>Identity_Keys\<close>
    (\<^verbatim>\<open>keystore.rs\<close>, \<^verbatim>\<open>identity.rs\<close>, \<^verbatim>\<open>fund.rs\<close>): the settlement key and the deposit. \<open>Commands\<close>
    (\<^verbatim>\<open>ds-cli\<close>): options, early returns and exit codes of the commands. \<open>Cli\<close> (\<^verbatim>\<open>main.rs\<close> and the argument
    structs): arguments, defaults, dispatch and progress line. \<open>Measurements\<close>
    (\<^verbatim>\<open>append_csv\<close> of \<^verbatim>\<open>growth_cmd.rs\<close>, \<^verbatim>\<open>probe.rs\<close>, \<^verbatim>\<open>fetchdirect.rs\<close>): the tables of measurements.
    \<open>Copies\<close>: code the repository holds twice, proved to agree.
    \<open>Unit_Tests\<close>: the unit tests of the repository, which the model passes.

  \<^bold>\<open>How the code is modelled.\<close> A struct is a record, an enum a datatype, an integer a word of its
  width; arithmetic wraps as release builds do. Fallible functions return \<open>result\<close> values with one error
  per early return. A task is a step of an inductive relation where tasks share state
  (\<open>ledger_step\<close>, \<open>spend_step\<close>, \<open>dispatch_step\<close>, \<open>session_step\<close>, \<open>fetch_step\<close>) and a function of one
  pass where it runs alone (\<open>drive_iter\<close>, \<open>settle_iter\<close>, \<open>crawl_pass\<close>, \<open>phase_pass\<close>); a mutex makes its
  critical section one step. Network answers, clocks, random bytes and the faults of system calls are
  inputs, so that a theorem holds for all of them. A hash map is an association list whose order
  stands for the unspecified iteration order. Libraries outside the sources (hexadecimal, protobuf,
  multiaddr, signatures, hashes, the accounting object of the retrieval crate, the file joiner, the
  chain client) are parameters; what is relied on of them is a locale (\<open>hex_codec\<close>, \<open>underlay_codec\<close>,
  \<open>lawful_accounting\<close>) or a named hypothesis (\<open>joins_body\<close>, \<open>involutive\<close>, \<open>plain_text\<close>), each met by a
  concrete instance in a witness.

  \<^bold>\<open>What is shown.\<close>

  \<^item> End to end: a direct fetch whose verification exits with 0 has left exactly the body behind the
    reference in the output file, and it does exit with 0 when the writes succeeded and no chunk was
    reported failed or dropped (\<open>direct_fetch_reassembles\<close> below, over \<open>Integrity\<close> and \<open>File_Fetch\<close>).
  \<^item> No chunk is lost: routing partitions the request, buckets are popped exactly once, a drive loop or
    a whole connection keeps every chunk, and a whole fetch ends with each one stored, reported as
    failed, or dropped by the one defect of the latency measurement, which has a theorem of its own.
  \<^item> Fetches end: a measure of dials, connections and chunks falls with every step that the scheduler
    sees, so a fair run of a fetch reaches its end, and the connections it opens are bounded by the
    candidates. Within a connection only fetches that never return and the admission gate can hold the
    drive loop; a peer that announces too low a threshold does hold it, for which there is a theorem.
  \<^item> No money is lost: a cheque carries exactly what is owed, every error restores the counters, the
    cap holds over all interleavings (and where the counter can wrap), the ledger on disk is that in
    memory, sweeps settle what is owed and end.
  \<^item> The peer is not overdrawn: reservations match the tasks in flight, and debt, reservations and
    unvalidated cheques stay below the announced limits, in the mirror, the drive loop, the growth
    phases and the probe.
  \<^item> Data survives: the chunk store refines a first-wins map under every fault and recovers from a
    crash; ledger, peer state, sidecar and topology file are read back as written; a download resumed
    through any failures ends with exactly the body.
  \<^item> Peers are treated as documented: dials are spaced, bounded and not repeated, storers are chosen by
    duty and bandwidth, the dispatcher serves the most critical bucket.
  \<^item> Untrusted bytes are read safely: gossip decodes to well-formed hints or nothing, frames and
    messages to the values they carry.
  \<^item> Reports are true: the event log of a growth measurement has one line per event between its start
    and its end, and the report's counters are the sums over them; the amount a probe reports is what
    was issued; the measurement files stay tables under their header, and a torn header stays torn.
  \<^item> Commands exit with 0, 1 or 2, and 2, for bad arguments, means that nothing was done, with the one
    exception of a verification that lacks its reference.
  \<^item> Where the code departs from its intent, a lemma shows the departure on the model.

  \<^bold>\<open>Bounds and fuel.\<close> No definition uses fuel. Loops are structural over their input (the passes of a
  drive loop, the attempts of a fetch, the lines of a file), or terminate by a measure: the crawl
  loop by the dials left, the address list by its bytes, the sweep by its attempts. The drive loop
  takes the list of its passes, of any length and spacing: that it ends is proved as such, from the
  number of passes in which it moves on and three with a cheque due. A scheduled fetch is a relation,
  and its end is proved for infinite fair runs.
  Sizes are bounded only where the code's counters would wrap (\<open>2\<^sup>6\<^sup>4\<close> bytes in the store, for one).

  \<^bold>\<open>Not modelled.\<close> The construction of the libp2p swarm from its transports and the opening of
  streams, which are calls into that library; diagnostic logging and printing; floating-point rates,
  which are parameters or texts passed in; the parser of the command line (clap), whose result is
  modelled; Unicode white space in trimmed fields. \<^verbatim>\<open>scheduler.rs\<close> breaks off after the statistics and is no part
  of its crate; what is there is modelled.

  \<^bold>\<open>Granularity.\<close> Inside a phase of the growth measurement the retrieval tasks end at the points where
  the loop waits for them; the mirror they share is an account with atomic operations, so that every
  order of their ends is a case of the theorems.
\<close>

section \<open>From the crawl to the fetch\<close>

text \<open>
  What the caches of a crawl have beyond well-formedness: every record can be read back from the
  topology file, since its addresses come from hints, which carry at least one.
\<close>

definition reload_ok :: "topology_cache \<Rightarrow> bool" where
  "reload_ok c \<longleftrightarrow> topology_inv c \<and> (\<forall>k r. topology_get c k = Some r \<longrightarrow> row_ok r)"

definition reloadable :: "crawl_options \<Rightarrow> ('p, 'm) crawl_state \<Rightarrow> bool" where
  "reloadable opts st \<longleftrightarrow> reload_ok (cr_cache st) \<and> (\<forall>h \<in> set (cr_frontier st). hi_underlays h \<noteq> [])"

definition gossip_ok :: "('p, 'm) crawl_input \<Rightarrow> bool" where
  "gossip_ok i \<longleftrightarrow> input_ok i \<and> (\<forall>g \<in> set (ci_gossip i). hi_underlays (snd g) \<noteq> [])"

definition plain_text :: "('m \<Rightarrow> string) \<Rightarrow> bool" where
  "plain_text to_string \<longleftrightarrow> (\<forall>m. field_ok (to_string m))"

lemma row_ok_merge: "row_ok e \<Longrightarrow> row_ok r \<Longrightarrow> row_ok (merge_record e r)"
  using set_push_new [of "nr_underlays e" "nr_underlays r"]
  by (auto simp: row_ok_def list_all_iff simp flip: set_empty)

lemma reload_ok_upsert: "reload_ok c \<Longrightarrow> row_ok r \<Longrightarrow> reload_ok (upsert r c)"
  by (auto simp: reload_ok_def topology_get_upsert row_ok_merge upsert_inv row_ok_def [of r] split: option.splits)

lemma reload_ok_records: "reload_ok c \<Longrightarrow> list_all row_ok (topology_records c)"
  by (auto simp: reload_ok_def list_all_iff records_get)

lemma harvest_reloadable:
  assumes "plain_text f" "\<forall>g \<in> set gs. wf_addr (hi_overlay (snd g)) \<and> hi_underlays (snd g) \<noteq> []" "reloadable opts st"
  shows "reloadable opts (harvest f gs st)"
  using assms(2,3) unfolding harvest_def
proof (induction gs arbitrary: st)
  case (Cons g gs)
  have "row_ok \<lparr>nr_overlay = hi_overlay (snd g), nr_underlays = map f (hi_underlays (snd g)), nr_rtt_ms = None,
      nr_last_seen_tick = t, nr_dialed_ok = False\<rparr>" for t
    using assms(1) Cons.prems(1) by (simp add: row_ok_def plain_text_def list_all_iff)
  then have "reloadable opts (harvest_hint f g st)"
    using Cons.prems by (auto simp: reloadable_def harvest_hint_def Let_def reload_ok_upsert split: prod.split)
  then show ?case using Cons by simp
qed simp

lemma crawl_attempt_reloadable:
  assumes "plain_text f" "gossip_ok i" "reloadable opts st" "hi_underlays h \<noteq> []"
  shows "reloadable opts (crawl_attempt f i h st)"
proof (cases "dial_and_handshake (hi_peer_id h) (ci_env i)")
  case (Inl e)
  then show ?thesis using assms(3) by (simp add: crawl_attempt_def)
next
  case (Inr res)
  obtain a rtt where res: "res = (a, rtt)" by force
  have "wf_addr a"
    using Inr assms(2) handshake_ok
    by (fastforce simp: res dial_and_handshake_def gossip_ok_def input_ok_def split: if_splits sum.splits option.splits)
  then have row: "row_ok \<lparr>nr_overlay = a, nr_underlays = map f (hi_underlays h), nr_rtt_ms = Some rtt,
      nr_last_seen_tick = t, nr_dialed_ok = True\<rparr>" for t
    using assms(1,4) by (simp add: row_ok_def plain_text_def list_all_iff)
  have "\<forall>g \<in> set (ci_gossip i). wf_addr (hi_overlay (snd g)) \<and> hi_underlays (snd g) \<noteq> []"
    using assms(2) by (simp add: gossip_ok_def input_ok_def)
  moreover have "reloadable opts (st\<lparr>cr_dials_ok := cr_dials_ok st + 1,
      cr_cache := upsert \<lparr>nr_overlay = a, nr_underlays = map f (hi_underlays h), nr_rtt_ms = Some rtt,
        nr_last_seen_tick = elapsed_ticks (ci_seen i), nr_dialed_ok = True\<rparr> (cr_cache st)\<rparr>)"
    using assms(3) row by (simp add: reloadable_def reload_ok_upsert)
  ultimately show ?thesis
    using harvest_reloadable [OF assms(1)] by (simp add: crawl_attempt_def Inr res)
qed

lemma reloadable_frame: "reloadable opts (send_cmd b t c st) = reloadable opts st"
  by (simp add: reloadable_def send_cmd_def)

interpretation reload: crawl_invariant "reloadable :: crawl_options \<Rightarrow> ('p, 'm) crawl_state \<Rightarrow> bool" gossip_ok plain_text
proof
  fix i :: "('p, 'm) crawl_input" and opts rest and st :: "('p, 'm) crawl_state" and hint :: "('p, 'm) peer_hint" and f :: "'m \<Rightarrow> string"
  assume ok: "plain_text f" "gossip_ok i" and c: "reloadable opts st" and fr: "cr_frontier st = hint # rest"
  define s where "s = st\<lparr>cr_frontier := rest, cr_last_dial := Some (dial_time opts i (cr_last_dial st)),
      cr_dials_attempted := cr_dials_attempted st + 1, cr_tried := cr_tried st @ [hi_peer_id hint]\<rparr>"
  have s: "reloadable opts s" "hi_underlays hint \<noteq> []" using c fr by (auto simp: reloadable_def s_def)
  then obtain addr us where us: "hi_underlays hint = addr # us" by (cases "hi_underlays hint") auto
  have "crawl_pass f opts i hint (st\<lparr>cr_frontier := rest\<rparr>) = send_cmd (ci_disconnect i) (ci_end i) (Disconnect (hi_peer_id hint))
        (crawl_attempt f i hint (send_cmd (de_command (ci_env i)) (dial_time opts i (cr_last_dial st)) (Dial addr) s))"
    by (simp add: crawl_pass_def s_def Let_def us)
  with s show "reloadable opts (crawl_pass f opts i hint (st\<lparr>cr_frontier := rest\<rparr>))"
    using crawl_attempt_reloadable [OF ok] by (simp add: reloadable_frame)
qed

lemma crawl_start_reloadable: "reloadable opts (crawl_start pr ov seeds)"
proof -
  have seeds: "\<forall>h \<in> set (cr_frontier (fold (enqueue_seed pr) seeds st)). hi_underlays h \<noteq> []"
    if "\<forall>h \<in> set (cr_frontier st). hi_underlays h \<noteq> []" for st
    using that
  proof (induction seeds arbitrary: st)
    case (Cons seed seeds)
    have "\<forall>h \<in> set (cr_frontier (enqueue_seed pr seed st)). hi_underlays h \<noteq> []"
      using Cons.prems by (simp add: enqueue_seed_def split: option.split)
    then show ?case using Cons.IH by simp
  qed simp
  have "reload_ok (topology_new ov)" by (simp add: reload_ok_def) (simp add: topology_get_def topology_new_def)
  then show ?thesis
    unfolding reloadable_def crawl_start_def enqueue_seed_frame by (intro conjI seeds) simp_all
qed



section \<open>From the fetch to the file\<close>

text \<open>
  The contracts of the reassembly: over a source that gives valid chunks only, the joiner of the
  retrieval library emits bytes of the body in order, and all of them when it gets every chunk of
  the file; a chunk valid for the root begins with the length of the body.
\<close>

definition joiner_ok ::
  "(swarm_address \<Rightarrow> bytes \<Rightarrow> bool) \<Rightarrow> swarm_address list \<Rightarrow> (u64 \<Rightarrow> u64 \<Rightarrow> u64 \<Rightarrow> 'r option) \<Rightarrow> bytes \<Rightarrow>
   (swarm_address \<Rightarrow> bytes option) \<Rightarrow> 'r file_env \<Rightarrow> bool" where
  "joiner_ok valid parts byte_range body fetch env \<longleftrightarrow>
     ((\<forall>a data. fetch a = Some data \<longrightarrow> valid a data) \<longrightarrow>
        joins_body byte_range body (fe_join env) \<and> ((\<forall>a \<in> set parts. fetch a \<noteq> None) \<longrightarrow> (\<forall>r. snd (fe_join env r))))"

definition content_of :: "(swarm_address \<Rightarrow> bytes \<Rightarrow> bool) \<Rightarrow> (bytes \<Rightarrow> nat \<times> bytes) \<Rightarrow> swarm_address \<Rightarrow> bytes \<Rightarrow> bool" where
  "content_of valid decode_span root body \<longleftrightarrow>
     (\<forall>data. valid root data \<longrightarrow> 8 \<le> length data \<and> unat (from_be_bytes (rev (snd (decode_span (take 8 data)))) :: u64) = length body)"



definition sample_whole :: "u64 file_env" where
  "sample_whole = (sample_file_env [] True)\<lparr>fe_join := \<lambda>r. ([drop (case r of Some s \<Rightarrow> unat s | None \<Rightarrow> 0) [10, 20]], True)\<rparr>"

definition sample_fetch_args :: fetch_direct_args where
  "sample_fetch_args = \<lparr>fa_reference = Some (render_root sample_addr), fa_chunks_csv = None, fa_topology_csv = None, fa_max_chunks = 1,
     fa_connections = 4, fa_depth = 8, fa_nbhd_depth = 8, fa_max_issue_plur = 500, fa_store_base = [], fa_measure_lambda = False,
     fa_redundancy = 2, fa_stall_exit = True, fa_prepay = False, fa_repeat = 1, fa_direct_only = False, fa_verify = True,
     fa_output = Some ''out'', fa_chequebook = []\<rparr>"

lemma sample_whole_ok: "joiner_ok valid parts (\<lambda>s _ _. Some s) [10, 20] fetch sample_whole" "disk_healthy sample_whole" "fe_readable sample_whole"
  by (auto simp: joiner_ok_def joins_body_def sample_whole_def sample_file_env_def join_range_def disk_healthy_def split: if_splits)


end
